(* ===== verification/Prelude.thy ===== *)
theory Prelude
  imports Main "HOL-Library.Word"
begin

text \<open>
  What every component of the kernel shares: the machine's integer types, the results of
  operations that can stop (a failed ASSERT, a PANIC, undefined behaviour), and the
  byte-addressed memory with its 32-bit little-endian accesses.

  The lemma collections: \<open>mem_simps\<close> rewrites reads over writes, \<open>agree_intros\<close>
  proves that two memories agree outside a region, \<open>res_simps\<close> evaluates results.
\<close>

unbundle bit_operations_syntax

named_theorems mem_simps "reads over writes to the byte memory"
named_theorems agree_intros "two memories agree on a set of addresses"
named_theorems res_simps "evaluation of results"

section \<open>Machine integers\<close>

text \<open>dttp.h and stddef.h: the kernel is built with -m32, so size_t is 32 bits wide.\<close>

type_synonym uint8 = "8 word"
type_synonym uint16 = "16 word"
type_synonym uint32 = "32 word"
type_synonym int32 = "32 word"
type_synonym size_t = "32 word"

section \<open>Results\<close>

text \<open>
  panic() and panic_assert() print a message and loop forever; a non-void function that
  falls off its end has no value; a loop that never ends, a fuel bound that runs out and a
  call through a pointer to no function of the source are values of their own.
\<close>

datatype kerror =
    AssertionFailed string
  | Panic string
  | NullPointer
  | NoReturnValue
  | OutOfBounds
  | DivideByZero
  | UnknownFunction
  | Diverges
  | OutOfFuel

definition res_bind :: "kerror + 'a \<Rightarrow> ('a \<Rightarrow> kerror + 'b) \<Rightarrow> kerror + 'b" where
  "res_bind r f = (case r of Inl e \<Rightarrow> Inl e | Inr x \<Rightarrow> f x)"

definition ASSERT :: "bool \<Rightarrow> string \<Rightarrow> kerror + unit" where
  "ASSERT b desc = (if b then Inr () else Inl (AssertionFailed desc))"

text \<open>A loop written with \<open>partial_function\<close> has the value None when it never ends.\<close>

definition returns :: "'a option \<Rightarrow> kerror + 'a" where
  "returns r = (case r of None \<Rightarrow> Inl Diverges | Some x \<Rightarrow> Inr x)"

lemma returns_simps [simp, res_simps]:
  "returns None = Inl Diverges"
  "returns (Some x) = Inr x"
  by (simp_all add: returns_def)

lemma res_bind_simps [simp, res_simps]:
  "res_bind (Inl e) f = Inl e"
  "res_bind (Inr x) f = f x"
  by (simp_all add: res_bind_def)

lemma res_bind_eq_Inr:
  "res_bind r f = Inr y \<longleftrightarrow> (\<exists>x. r = Inr x \<and> f x = Inr y)"
  by (cases r) auto

lemma res_bind_cong [fundef_cong]:
  "r = r' \<Longrightarrow> (\<And>x. r' = Inr x \<Longrightarrow> f x = g x) \<Longrightarrow> res_bind r f = res_bind r' g"
  by (cases r') auto

lemma ASSERT_simps [simp, res_simps]:
  "ASSERT True d = Inr ()"
  "b \<Longrightarrow> ASSERT b d = Inr ()"
  "\<not> b \<Longrightarrow> ASSERT b d = Inl (AssertionFailed d)"
  by (simp_all add: ASSERT_def)

lemma ASSERT_eq_Inr: "ASSERT b d = Inr u \<longleftrightarrow> b"
  by (simp add: ASSERT_def)

section \<open>Words\<close>

lemma word_loop_measure:
  fixes i n :: "'a::len word"
  assumes "i < n"
  shows "unat (n - (i + 1)) < unat (n - i)"
proof -
  have "n - i \<noteq> 0" using assms by auto
  then have "unat (n - i - 1) < unat (n - i)"
    by (simp add: unat_minus_one unat_gt_0)
  then show ?thesis by (simp add: diff_diff_eq)
qed

lemma unat_plus_no_wrap:
  fixes a b :: "'a::len word"
  assumes "unat a + unat b < 2 ^ LENGTH('a)"
  shows "unat (a + b) = unat a + unat b"
  using assms by (simp add: unat_word_ariths)

lemma unat_plus_of_nat:
  fixes a :: "'a::len word"
  assumes "unat a + n < 2 ^ LENGTH('a)"
  shows "unat (a + of_nat n) = unat a + n"
proof -
  have "unat (of_nat n :: 'a word) = n"
    using assms by (simp add: unat_of_nat)
  with assms show ?thesis by (simp add: unat_plus_no_wrap)
qed

lemma unat_minus_le:
  fixes a b :: "'a::len word"
  assumes "unat b \<le> unat a"
  shows "unat (a - b) = unat a - unat b"
  using assms by (simp add: unat_sub word_le_nat_alt)

lemma and_0xFFF: "w AND 0xFFF = w mod (0x1000 :: 32 word)"
proof -
  have "w AND 0xFFF = take_bit 12 w" by (simp add: take_bit_eq_mask mask_eq_exp_minus_1)
  also have "\<dots> = w mod 0x1000" by (simp add: take_bit_eq_mod)
  finally show ?thesis .
qed

lemma unat_lt_2p32 [simp]: "unat (a :: 32 word) < 4294967296"
  using unsigned_less [of a] by simp

lemma unat_of_nat32: "n < 4294967296 \<Longrightarrow> unat (of_nat n :: uint32) = n"
  by (simp add: unat_of_nat)

lemma sint_of_nat32: "n < 2147483648 \<Longrightarrow> sint (of_nat n :: uint32) = int n"
  by (simp add: signed_of_nat signed_take_bit_int_eq_self)

lemma of_nat_unat_plus:
  fixes a :: "'a::len word"
  shows "of_nat (unat a + n) = a + of_nat n"
  by simp

section \<open>Byte-addressed memory\<close>

text \<open>
  One flat address space of bytes. A pointer is its address; p->f is an access at the
  field's offset. Accesses of a whole size_t are little-endian, and addresses wrap.
\<close>

type_synonym memory = "uint32 \<Rightarrow> uint8"

definition rd32 :: "memory \<Rightarrow> uint32 \<Rightarrow> uint32" where
  "rd32 m a = ucast (m a) OR push_bit 8 (ucast (m (a + 1)))
     OR push_bit 16 (ucast (m (a + 2))) OR push_bit 24 (ucast (m (a + 3)))"

definition wr32 :: "memory \<Rightarrow> uint32 \<Rightarrow> uint32 \<Rightarrow> memory" where
  "wr32 m a v = m(a := ucast v, a + 1 := ucast (drop_bit 8 v),
     a + 2 := ucast (drop_bit 16 v), a + 3 := ucast (drop_bit 24 v))"

lemma rd32_bit:
  assumes "n < 32"
  shows "bit (rd32 m a) n \<longleftrightarrow> bit (m (a + of_nat (n div 8))) (n mod 8)"
proof -
  have "n div 8 < 4" using assms by simp
  then consider "n div 8 = 0" | "n div 8 = 1" | "n div 8 = 2" | "n div 8 = 3" by linarith
  then show ?thesis
  proof cases
    case 1
    then have "n < 8" by simp
    then show ?thesis by (simp add: rd32_def bit_simps)
  next
    case 2
    then have "8 \<le> n" "n < 16" "n mod 8 = n - 8" by (simp_all add: modulo_nat_def)
    then show ?thesis
      using 2 by (auto simp: rd32_def bit_simps dest: bit_imp_le_length)
  next
    case 3
    then have "16 \<le> n" "n < 24" "n mod 8 = n - 16" by (simp_all add: modulo_nat_def)
    then show ?thesis
      using 3 by (auto simp: rd32_def bit_simps dest: bit_imp_le_length)
  next
    case 4
    then have "24 \<le> n" "n < 32" "n mod 8 = n - 24" using assms by (simp_all add: modulo_nat_def)
    then show ?thesis
      using 4 by (auto simp: rd32_def bit_simps dest: bit_imp_le_length)
  qed
qed

lemma rd32_cong:
  assumes "m' a = m a" "m' (a + 1) = m (a + 1)" "m' (a + 2) = m (a + 2)" "m' (a + 3) = m (a + 3)"
  shows "rd32 m' a = rd32 m a"
  using assms by (simp add: rd32_def)

lemma wr32_byte:
  assumes "k < 4"
  shows "wr32 m a v (a + of_nat k) = ucast (drop_bit (8 * k) v)"
proof -
  from assms consider "k = 0" | "k = 1" | "k = 2" | "k = 3" by linarith
  then show ?thesis by cases (simp_all add: wr32_def)
qed

lemma rd32_wr32_same [simp, mem_simps]: "rd32 (wr32 m a v) a = v"
proof (rule bit_word_eqI)
  fix n assume "n < LENGTH(32)"
  then have n: "n < 32" by simp
  have "bit (rd32 (wr32 m a v) a) n = bit (ucast (drop_bit (8 * (n div 8)) v) :: uint8) (n mod 8)"
    using n by (simp add: rd32_bit wr32_byte)
  also have "\<dots> = bit v n"
    using n by (simp add: bit_simps)
  finally show "bit (rd32 (wr32 m a v) a) n = bit v n" .
qed

lemma wr32_wr32_same [simp, mem_simps]: "wr32 (wr32 m a v) a w = wr32 m a w"
  by (simp add: wr32_def fun_eq_iff)

lemma wr32_other:
  assumes "b \<noteq> a" "b \<noteq> a + 1" "b \<noteq> a + 2" "b \<noteq> a + 3"
  shows "wr32 m a v b = m b"
  using assms by (simp add: wr32_def)

subsection \<open>Agreement of memories\<close>

text \<open>
  \<open>mem_eq_on S m m'\<close>: the memory \<open>m'\<close> still holds what \<open>m\<close> held at every address in
  \<open>S\<close>. What an operation may write is stated as agreement on the complement.
\<close>

definition mem_eq_on :: "nat set \<Rightarrow> memory \<Rightarrow> memory \<Rightarrow> bool" where
  "mem_eq_on S m m' \<longleftrightarrow> (\<forall>a. unat a \<in> S \<longrightarrow> m' a = m a)"

lemma mem_eq_onD: "mem_eq_on S m m' \<Longrightarrow> unat a \<in> S \<Longrightarrow> m' a = m a"
  by (simp add: mem_eq_on_def)

lemma mem_eq_on_refl [simp, agree_intros]: "mem_eq_on S m m"
  by (simp add: mem_eq_on_def)

lemma mem_eq_on_mono: "mem_eq_on S m m' \<Longrightarrow> T \<subseteq> S \<Longrightarrow> mem_eq_on T m m'"
  by (auto simp: mem_eq_on_def)

lemma mem_eq_on_trans: "mem_eq_on S m m' \<Longrightarrow> mem_eq_on S m' m'' \<Longrightarrow> mem_eq_on S m m''"
  by (simp add: mem_eq_on_def)

lemma mem_eq_on_sym: "mem_eq_on S m m' \<Longrightarrow> mem_eq_on S m' m"
  by (simp add: mem_eq_on_def)

lemma mem_eq_on_Un: "mem_eq_on (S \<union> T) m m' \<longleftrightarrow> mem_eq_on S m m' \<and> mem_eq_on T m m'"
  by (auto simp: mem_eq_on_def)

lemma unat_plus_small:
  fixes a :: uint32
  assumes "unat a + 4 \<le> 4294967296"
  shows "unat (a + 1) = unat a + 1" "unat (a + 2) = unat a + 2" "unat (a + 3) = unat a + 3"
  using assms unat_plus_of_nat [of a 1] unat_plus_of_nat [of a 2] unat_plus_of_nat [of a 3]
  by simp_all

lemma mem_eq_on_wr32 [agree_intros]:
  assumes "S \<inter> {unat a ..< unat a + 4} = {}" "unat a + 4 \<le> 4294967296"
  shows "mem_eq_on S m (wr32 m a v)"
  unfolding mem_eq_on_def
proof (intro allI impI)
  fix b :: uint32 assume "unat b \<in> S"
  then have "\<not> (unat a \<le> unat b \<and> unat b < unat a + 4)"
    using assms(1) by auto
  then show "wr32 m a v b = m b"
    by (intro wr32_other) (auto simp: unat_plus_small [OF assms(2)])
qed

lemma mem_eq_on_wr32_step:
  assumes "mem_eq_on S m m1" "S \<inter> {unat a ..< unat a + 4} = {}" "unat a + 4 \<le> 4294967296"
  shows "mem_eq_on S m (wr32 m1 a v)"
  using assms by (blast intro: mem_eq_on_trans mem_eq_on_wr32)

lemma mem_eq_on_upd [agree_intros]: "unat a \<notin> S \<Longrightarrow> mem_eq_on S m (m(a := v))"
  by (auto simp: mem_eq_on_def)

lemma mem_eq_on_rd32:
  assumes "mem_eq_on S m m'" "{unat a ..< unat a + 4} \<subseteq> S" "unat a + 4 \<le> 4294967296"
  shows "rd32 m' a = rd32 m a"
  using assms(2)
  by (intro rd32_cong mem_eq_onD [OF assms(1)]) (auto simp: unat_plus_small [OF assms(3)])

lemma rd32_wr32_disj [mem_simps]:
  assumes "unat a + 4 \<le> unat b \<or> unat b + 4 \<le> unat a"
    "unat a + 4 \<le> 4294967296" "unat b + 4 \<le> 4294967296"
  shows "rd32 (wr32 m a v) b = rd32 m b"
  by (rule mem_eq_on_rd32 [where S = "{unat b ..< unat b + 4}"])
    (use assms in \<open>auto intro!: mem_eq_on_wr32\<close>)

lemma rd32_upd_disj [mem_simps]:
  assumes "unat a < unat b \<or> unat b + 4 \<le> unat a" "unat b + 4 \<le> 4294967296"
  shows "rd32 (m(a := v)) b = rd32 m b"
  by (rule mem_eq_on_rd32 [where S = "{unat b ..< unat b + 4}"])
    (use assms in \<open>auto intro!: mem_eq_on_upd\<close>)

lemma wr32_byte_disj [mem_simps]:
  assumes "unat b < unat a \<or> unat a + 4 \<le> unat b" "unat a + 4 \<le> 4294967296"
  shows "wr32 m a v b = m b"
  by (rule mem_eq_onD [where S = "{unat b}"]) (use assms in \<open>auto intro!: mem_eq_on_wr32\<close>)

text \<open>The bytes of a region, in order.\<close>

definition bytes :: "memory \<Rightarrow> uint32 \<Rightarrow> nat \<Rightarrow> uint8 list" where
  "bytes m a n = map (\<lambda>k. m (a + of_nat k)) [0..<n]"

lemma length_bytes [simp]: "length (bytes m a n) = n"
  by (simp add: bytes_def)

lemma nth_bytes [simp]: "k < n \<Longrightarrow> bytes m a n ! k = m (a + of_nat k)"
  by (simp add: bytes_def)

lemma bytes_0 [simp]: "bytes m a 0 = []"
  by (simp add: bytes_def)

lemma bytes_Suc: "bytes m a (Suc n) = m a # bytes m (a + 1) n"
  by (rule nth_equalityI) (auto simp: nth_Cons algebra_simps split: nat.splits)

lemma bytes_append: "bytes m a (n + k) = bytes m a n @ bytes m (a + of_nat n) k"
  by (induction n arbitrary: a) (simp_all add: bytes_Suc algebra_simps)

lemma bytes_eq_on:
  assumes "mem_eq_on S m m'" "{unat a ..< unat a + n} \<subseteq> S" "unat a + n \<le> 4294967296"
  shows "bytes m' a n = bytes m a n"
proof (rule nth_equalityI)
  fix k assume "k < length (bytes m' a n)"
  then have k: "k < n" by simp
  then have "unat (a + of_nat k) = unat a + k"
    using assms(3) by (intro unat_plus_of_nat) simp
  then have "m' (a + of_nat k) = m (a + of_nat k)"
    using assms(2) k by (intro mem_eq_onD [OF assms(1)]) auto
  then show "bytes m' a n ! k = bytes m a n ! k" using k by simp
qed simp

subsection \<open>Arrays of 32-bit words\<close>

definition words :: "memory \<Rightarrow> uint32 \<Rightarrow> nat \<Rightarrow> uint32 list" where
  "words m a n = map (\<lambda>k. rd32 m (a + 4 * of_nat k)) [0..<n]"

lemma length_words [simp]: "length (words m a n) = n"
  by (simp add: words_def)

lemma nth_words [simp]: "k < n \<Longrightarrow> words m a n ! k = rd32 m (a + 4 * of_nat k)"
  by (simp add: words_def)

lemma words_0 [simp]: "words m a 0 = []"
  by (simp add: words_def)

lemma take_words: "k \<le> n \<Longrightarrow> take k (words m a n) = words m a k"
  by (simp add: words_def take_map)

lemma words_Suc: "words m a (Suc n) = words m a n @ [rd32 m (a + 4 * of_nat n)]"
  by (simp add: words_def)

lemma unat_word_index:
  fixes a :: uint32
  assumes "unat a + 4 * k < 4294967296"
  shows "unat (a + 4 * of_nat k) = unat a + 4 * k"
  using unat_plus_of_nat [of a "4 * k"] assms by simp

lemma words_eq_on:
  assumes "mem_eq_on S m m'" "{unat a ..< unat a + 4 * n} \<subseteq> S" "unat a + 4 * n \<le> 4294967296"
  shows "words m' a n = words m a n"
proof (rule nth_equalityI)
  fix k assume "k < length (words m' a n)"
  then have k: "k < n" by simp
  then have u: "unat (a + 4 * of_nat k) = unat a + 4 * k"
    using assms(3) by (intro unat_word_index) simp
  have "rd32 m' (a + 4 * of_nat k) = rd32 m (a + 4 * of_nat k)"
    using assms(2,3) k by (intro mem_eq_on_rd32 [OF assms(1)]) (auto simp: u)
  then show "words m' a n ! k = words m a n ! k" using k by simp
qed simp

lemma words_wr32:
  assumes "i < n" "unat a + 4 * n \<le> 4294967296"
  shows "words (wr32 m (a + 4 * of_nat i) v) a n = (words m a n)[i := v]"
proof (rule nth_equalityI)
  fix k assume "k < length (words (wr32 m (a + 4 * of_nat i) v) a n)"
  then have k: "k < n" by simp
  have u: "unat (a + 4 * of_nat i) = unat a + 4 * i" "unat (a + 4 * of_nat k) = unat a + 4 * k"
    using assms k by (auto intro!: unat_word_index)
  show "words (wr32 m (a + 4 * of_nat i) v) a n ! k = (words m a n)[i := v] ! k"
  proof (cases "k = i")
    case True
    then show ?thesis using k by simp
  next
    case False
    then have "i < k \<or> k < i" by linarith
    then have "4 * i + 4 \<le> 4 * k \<or> 4 * k + 4 \<le> 4 * i" by linarith
    moreover have "4 * i + 4 \<le> 4 * n" "4 * k + 4 \<le> 4 * n" using assms(1) k by linarith+
    ultimately have "rd32 (wr32 m (a + 4 * of_nat i) v) (a + 4 * of_nat k) = rd32 m (a + 4 * of_nat k)"
      using assms(2) by (intro rd32_wr32_disj; unfold u; linarith)
    then show ?thesis using False k by simp
  qed
qed simp

end
