(* ===== verification/MemOps.thy ===== *)
theory MemOps
  imports Prelude
begin

text \<open>
  src/utils/mem.c: memcpy, memset, memmove and memcmp as the byte loops of the source over
  the flat memory, and their closed forms. The closed forms use modular offsets: the byte
  at \<open>x\<close> belongs to the region of \<open>n\<close> bytes at \<open>d\<close> iff \<open>x - d < n\<close>.
\<close>

section \<open>Operations\<close>

function memcpy :: "memory \<Rightarrow> uint32 \<Rightarrow> uint32 \<Rightarrow> size_t \<Rightarrow> memory" where
  "memcpy m dest src len =
     (if len = 0 then m else memcpy (m(dest := m src)) (dest + 1) (src + 1) (len - 1))"
  by pat_completeness auto
termination
  by (relation "measure (\<lambda>(m, d, s, n). unat n)") (auto simp: unat_minus_one unat_gt_0)

function memset :: "memory \<Rightarrow> uint32 \<Rightarrow> uint8 \<Rightarrow> size_t \<Rightarrow> memory" where
  "memset m dest val len =
     (if len = 0 then m else memset (m(dest := val)) (dest + 1) val (len - 1))"
  by pat_completeness auto
termination
  by (relation "measure (\<lambda>(m, d, v, n). unat n)") (auto simp: unat_minus_one unat_gt_0)

text \<open>The two loops of memmove: upwards as in memcpy, downwards from the last byte.\<close>

function memmove_down :: "memory \<Rightarrow> uint32 \<Rightarrow> uint32 \<Rightarrow> size_t \<Rightarrow> memory" where
  "memmove_down m dest src len =
     (if len = 0 then m else memmove_down (m(dest := m src)) (dest - 1) (src - 1) (len - 1))"
  by pat_completeness auto
termination
  by (relation "measure (\<lambda>(m, d, s, n). unat n)") (auto simp: unat_minus_one unat_gt_0)

definition memmove :: "memory \<Rightarrow> uint32 \<Rightarrow> uint32 \<Rightarrow> size_t \<Rightarrow> memory" where
  "memmove m dest src len =
     (if dest \<le> src \<or> dest \<ge> src + len then memcpy m dest src len
      else memmove_down m (dest + len - 1) (src + len - 1) len)"

text \<open>The while loop of memcmp: the length is decremented before it is tested.\<close>

function memcmp_loop :: "memory \<Rightarrow> uint32 \<Rightarrow> uint32 \<Rightarrow> size_t \<Rightarrow> uint32 \<times> uint32" where
  "memcmp_loop m dest src len =
     (if len \<noteq> 0 \<and> len - 1 \<noteq> 0 \<and> m dest = m src
      then memcmp_loop m (dest + 1) (src + 1) (len - 1) else (dest, src))"
  by pat_completeness auto
termination
  by (relation "measure (\<lambda>(m, d, s, n). unat n)") (auto simp: unat_minus_one unat_gt_0)

definition memcmp :: "memory \<Rightarrow> uint32 \<Rightarrow> uint32 \<Rightarrow> size_t \<Rightarrow> int" where
  "memcmp m dest src len =
     (if len = 0 then 0
      else let (d, s) = memcmp_loop m dest src len in uint (m d) - uint (m s))"

declare memcpy.simps [simp del] memset.simps [simp del]
  memmove_down.simps [simp del] memcmp_loop.simps [simp del]

section \<open>Closed forms\<close>

lemma word_pred_less:
  fixes y n :: "'a::len word"
  assumes "n \<noteq> 0"
  shows "y < n \<longleftrightarrow> y = 0 \<or> y - 1 < n - 1"
proof (cases "y = 0")
  case True
  then show ?thesis using assms by (simp add: word_gt_0)
next
  case False
  then have "unat y \<noteq> 0" "unat n \<noteq> 0" using assms by (simp_all add: unat_eq_zero)
  then show ?thesis
    using False assms by (auto simp: word_less_nat_alt unat_minus_one)
qed

lemma word_region_step:
  fixes x d n :: "'a::len word"
  assumes "n \<noteq> 0"
  shows "x - d < n \<longleftrightarrow> x = d \<or> x - (d + 1) < n - 1"
  using word_pred_less [OF assms, of "x - d"] by (simp add: diff_diff_eq)

lemma word_pred_le: "n \<le> y \<Longrightarrow> n \<noteq> 0 \<Longrightarrow> n - 1 \<le> (y :: 'a::len word)"
  by (simp add: word_le_nat_alt unat_minus_one)

lemma memset_eq: "memset m d v n = (\<lambda>x. if x - d < n then v else m x)"
proof (induction m d v n rule: memset.induct)
  case (1 m d v n)
  show ?case
  proof (cases "n = 0")
    case True
    then show ?thesis by (simp add: memset.simps [of m d v 0])
  next
    case False
    show ?thesis
    proof
      fix x
      have "memset m d v n x = memset (m(d := v)) (d + 1) v (n - 1) x"
        using False by (simp add: memset.simps [of m d v n])
      also have "\<dots> = (if x - d < n then v else m x)"
        unfolding "1.IH" [OF False] word_region_step [OF False, of x d] by auto
      finally show "memset m d v n x = (if x - d < n then v else m x)" .
    qed
  qed
qed

lemma memcpy_eq:
  assumes "d = s \<or> n \<le> d - s"
  shows "memcpy m d s n = (\<lambda>x. if x - d < n then m (s + (x - d)) else m x)"
  using assms
proof (induction m d s n rule: memcpy.induct)
  case (1 m d s n)
  show ?case
  proof (cases "n = 0")
    case True
    then show ?thesis by (simp add: memcpy.simps [of m d s 0])
  next
    case False
    have "d + 1 = s + 1 \<or> n - 1 \<le> d + 1 - (s + 1)"
      using "1.prems" word_pred_le [OF _ False] by auto
    note IH = "1.IH" [OF False this]
    show ?thesis
    proof
      fix x
      have src: "s + (x - d) \<noteq> d \<or> m d = m s" if "x - d < n"
      proof (rule disjCI)
        assume "m d \<noteq> m s"
        then have "n \<le> d - s" using "1.prems" by auto
        with that have "x - d \<noteq> d - s" by auto
        then show "s + (x - d) \<noteq> d" by (metis add_diff_cancel_left')
      qed
      have "memcpy m d s n x = memcpy (m(d := m s)) (d + 1) (s + 1) (n - 1) x"
        using False by (simp add: memcpy.simps [of m d s n])
      also have "\<dots> = (if x - (d + 1) < n - 1 then (m(d := m s)) (s + (x - d)) else (m(d := m s)) x)"
        unfolding IH by (simp add: algebra_simps)
      also have "\<dots> = (if x - d < n then m (s + (x - d)) else m x)"
      proof (cases "s + (x - d) = d")
        case True
        then show ?thesis using src word_region_step [OF False, of x d] unfolding True by auto
      next
        case neq: False
        then show ?thesis using word_region_step [OF False, of x d] by auto
      qed
      finally show "memcpy m d s n x = (if x - d < n then m (s + (x - d)) else m x)" .
    qed
  qed
qed

lemma memmove_down_eq:
  assumes "d = s \<or> n \<le> s - d"
  shows "memmove_down m d s n = (\<lambda>x. if d - x < n then m (s - (d - x)) else m x)"
  using assms
proof (induction m d s n rule: memmove_down.induct)
  case (1 m d s n)
  show ?case
  proof (cases "n = 0")
    case True
    then show ?thesis by (simp add: memmove_down.simps [of m d s 0])
  next
    case False
    have "d - 1 = s - 1 \<or> n - 1 \<le> s - 1 - (d - 1)"
      using "1.prems" word_pred_le [OF _ False] by auto
    note IH = "1.IH" [OF False this]
    show ?thesis
    proof
      fix x
      have src: "s - (d - x) \<noteq> d \<or> m d = m s" if "d - x < n"
      proof (rule disjCI)
        assume "m d \<noteq> m s"
        then have "n \<le> s - d" using "1.prems" by auto
        with that have "d - x \<noteq> s - d" by auto
        then show "s - (d - x) \<noteq> d" by (metis diff_diff_eq2 add_diff_cancel_left' diff_add_cancel)
      qed
      have "memmove_down m d s n x = memmove_down (m(d := m s)) (d - 1) (s - 1) (n - 1) x"
        using False by (simp add: memmove_down.simps [of m d s n])
      also have "\<dots> = (if d - 1 - x < n - 1 then (m(d := m s)) (s - (d - x)) else (m(d := m s)) x)"
        unfolding IH by (simp add: algebra_simps)
      also have "\<dots> = (if d - x < n then m (s - (d - x)) else m x)"
        using src word_pred_less [OF False, of "d - x"] by (auto simp: algebra_simps)
      finally show "memmove_down m d s n x = (if d - x < n then m (s - (d - x)) else m x)" .
    qed
  qed
qed

section \<open>What the operations guarantee\<close>

lemma memset_outside:
  assumes "unat d + unat n \<le> 4294967296"
  shows "mem_eq_on (- {unat d ..< unat d + unat n}) m (memset m d v n)"
  unfolding mem_eq_on_def
proof (intro allI impI)
  fix a :: uint32 assume a: "unat a \<in> - {unat d ..< unat d + unat n}"
  have "\<not> a - d < n"
  proof (cases "unat d \<le> unat a")
    case True
    then show ?thesis using a by (simp add: word_less_nat_alt unat_minus_le)
  next
    case False
    then have "unat (a - d) = 4294967296 + unat a - unat d"
      by (simp add: unat_sub_if')
    then show ?thesis using assms by (simp add: word_less_nat_alt)
  qed
  then show "memset m d v n a = m a" by (simp add: memset_eq)
qed

text \<open>The bytes of a region of nat length lie at the modular offsets below that length.\<close>

lemma word_region_iff:
  fixes x d n :: uint32
  assumes "unat d + unat n \<le> 4294967296"
  shows "x - d < n \<longleftrightarrow> unat d \<le> unat x \<and> unat x < unat d + unat n"
proof (cases "unat d \<le> unat x")
  case True
  then have "unat (x - d) = unat x - unat d" by (rule unat_minus_le)
  then show ?thesis using True by (auto simp: word_less_nat_alt)
next
  case False
  then have "unat (x - d) = 4294967296 + unat x - unat d" by (simp add: unat_sub_if')
  then show ?thesis using assms False by (auto simp: word_less_nat_alt)
qed

definition apart_regions :: "uint32 \<Rightarrow> nat \<Rightarrow> uint32 \<Rightarrow> nat \<Rightarrow> bool" where
  "apart_regions a n b k \<longleftrightarrow> unat a + n \<le> unat b \<or> unat b + k \<le> unat a"

lemma memcpy_apart_eq:
  assumes "unat d + unat n \<le> 4294967296" "unat s + unat n \<le> 4294967296"
    "apart_regions d (unat n) s (unat n)"
  shows "memcpy m d s n = (\<lambda>x. if x - d < n then m (s + (x - d)) else m x)"
proof (rule memcpy_eq)
  show "d = s \<or> n \<le> d - s"
    using assms word_region_iff [OF assms(2), of d]
    by (auto simp: apart_regions_def not_less [symmetric] word_unat_eq_iff)
qed

lemma memcpy_bytes:
  assumes "unat d + unat n \<le> 4294967296" "unat s + unat n \<le> 4294967296"
    "apart_regions d (unat n) s (unat n)"
  shows "bytes (memcpy m d s n) d (unat n) = bytes m s (unat n)"
proof (rule nth_equalityI)
  fix k assume "k < length (bytes (memcpy m d s n) d (unat n))"
  then have k: "k < unat n" by simp
  then have "unat (of_nat k :: uint32) = k"
    using unat_lt_2p32 [of n] by (intro unat_of_nat32) linarith
  then have "(of_nat k :: uint32) < n" using k by (simp add: word_less_nat_alt)
  then show "bytes (memcpy m d s n) d (unat n) ! k = bytes m s (unat n) ! k"
    using k by (simp add: memcpy_apart_eq [OF assms])
qed simp

lemma memcpy_outside:
  assumes "unat d + unat n \<le> 4294967296" "unat s + unat n \<le> 4294967296"
    "apart_regions d (unat n) s (unat n)"
  shows "mem_eq_on (- {unat d ..< unat d + unat n}) m (memcpy m d s n)"
  unfolding mem_eq_on_def memcpy_apart_eq [OF assms] word_region_iff [OF assms(1)] by auto

lemma memset_zero_rd32:
  assumes "unat d \<le> unat a" "unat a + 4 \<le> unat d + unat n" "unat d + unat n \<le> 4294967296"
  shows "rd32 (memset m d 0 n) a = 0"
proof -
  have "memset m d 0 n (a + of_nat k) = 0" if "k < 4" for k
  proof -
    have "unat (a + of_nat k) = unat a + k"
      using that assms by (intro unat_plus_of_nat) simp
    then have "unat (a + of_nat k - d) = unat a + k - unat d"
      using assms by (subst unat_minus_le) simp_all
    moreover have "unat a + k - unat d < unat n" using that assms by linarith
    ultimately show ?thesis by (simp add: memset_eq word_less_nat_alt)
  qed
  from this [of 0] this [of 1] this [of 2] this [of 3] show ?thesis
    by (simp add: rd32_def)
qed

lemma memmove_down_cond:
  fixes d s n :: uint32
  assumes "s < d" "unat d + unat n < 4294967296"
  shows "n \<le> (s + n - 1) - (d + n - 1)"
proof -
  have "unat s < unat d" using assms by (simp add: word_less_nat_alt)
  moreover from this have "unat (s - d) = 4294967296 + unat s - unat d"
    by (simp add: unat_sub_if')
  ultimately have "unat n \<le> unat (s - d)" using assms(2) by linarith
  moreover have "(s + n - 1) - (d + n - 1) = s - d" by simp
  ultimately show ?thesis by (simp add: word_le_nat_alt)
qed

lemma memcpy_up_cond:
  fixes d s n :: uint32
  assumes "d \<le> s \<or> s + n \<le> d" "unat s + unat n < 4294967296"
  shows "d = s \<or> n \<le> d - s"
proof -
  have sn: "unat (s + n) = unat s + unat n" using assms by (simp add: unat_plus_no_wrap)
  consider "d = s" | "unat d < unat s" | "unat s + unat n \<le> unat d"
    using assms(1) sn by (auto simp: word_le_nat_alt le_less word_unat_eq_iff)
  then show ?thesis
  proof cases
    case 2
    then have "unat (d - s) = 4294967296 + unat d - unat s" by (simp add: unat_sub_if')
    with 2 assms(2) have "unat n \<le> unat (d - s)" by linarith
    then show ?thesis by (simp add: word_le_nat_alt)
  next
    case 3
    then have "unat n \<le> unat (d - s)" by (simp add: unat_minus_le)
    then show ?thesis by (simp add: word_le_nat_alt)
  qed simp
qed

lemma word_last_offset:
  fixes d x n :: uint32
  assumes "n \<noteq> 0"
  shows "d + n - 1 - x < n \<longleftrightarrow> x - d < n"
proof -
  define y where "y = x - d"
  have e: "d + n - 1 - x = (n - 1) - y" by (simp add: y_def)
  have n: "unat n \<noteq> 0" "unat (n - 1) = unat n - 1" "unat n < 4294967296"
    using assms by (simp_all add: unat_minus_one unat_eq_zero)
  have "unat ((n - 1) - y) < unat n \<longleftrightarrow> unat y < unat n"
  proof (cases "unat y \<le> unat (n - 1)")
    case True
    then show ?thesis using n by (simp add: unat_minus_le)
  next
    case False
    then have "unat ((n - 1) - y) = 4294967296 + (unat n - 1) - unat y"
      using n by (simp add: unat_sub_if')
    moreover have "unat y < 4294967296" by simp
    ultimately have "unat n \<le> unat ((n - 1) - y)" using False n by linarith
    moreover have "\<not> unat y < unat n" using False n by linarith
    ultimately show ?thesis by simp
  qed
  then show ?thesis by (simp add: e y_def word_less_nat_alt)
qed

text \<open>
  C39: memmove copies the source region to the destination whatever the overlap: after it,
  every byte of the destination region holds what the source region held before, and every
  other byte is unchanged.
\<close>

theorem memmove_correct:
  assumes "unat src + unat len < 4294967296" "unat dest + unat len < 4294967296"
  shows "memmove m dest src len = (\<lambda>x. if x - dest < len then m (src + (x - dest)) else m x)"
proof (cases "dest \<le> src \<or> src + len \<le> dest")
  case True
  with assms(1) have "dest = src \<or> len \<le> dest - src" by (intro memcpy_up_cond)
  then show ?thesis using True by (simp add: memmove_def memcpy_eq)
next
  case False
  then have lt: "src < dest" by (simp add: not_le)
  note down = memmove_down_eq [OF disjI2, OF memmove_down_cond [OF lt assms(2)]]
  have "memmove m dest src len =
      (\<lambda>x. if dest + len - 1 - x < len then m (src + len - 1 - (dest + len - 1 - x)) else m x)"
    using False by (simp add: memmove_def down)
  moreover have "dest + len - 1 - x < len \<longleftrightarrow> x - dest < len" for x
    using False by (intro word_last_offset) auto
  moreover have "src + len - 1 - (dest + len - 1 - x) = src + (x - dest)" for x by simp
  ultimately show ?thesis
    by (simp only:)
qed

theorem memmove_correct_witness:
  "memmove (\<lambda>a. ucast a) 3 1 4 (5::uint32) = (\<lambda>x. if x - 3 < 4 then ucast (1 + (x - 3)) else ucast x) (5::uint32)"
  by (subst memmove_correct) simp_all

text \<open>The reference for memcmp: the first difference of two byte strings.\<close>

fun bytes_diff :: "uint8 list \<Rightarrow> uint8 list \<Rightarrow> int" where
  "bytes_diff (x # xs) (y # ys) = (if x \<noteq> y then uint x - uint y else bytes_diff xs ys)"
| "bytes_diff _ _ = 0"

lemma bytes_diff_eq_0_iff: "length xs = length ys \<Longrightarrow> bytes_diff xs ys = 0 \<longleftrightarrow> xs = ys"
  by (induction xs ys rule: list_induct2) (auto simp: word_uint_eq_iff)

lemma memcmp_loop_diff:
  assumes "n \<noteq> 0"
  shows "(case memcmp_loop m d s n of (d', s') \<Rightarrow> uint (m d') - uint (m s'))
    = bytes_diff (bytes m d (unat n)) (bytes m s (unat n))"
  using assms
proof (induction m d s n rule: memcmp_loop.induct)
  case (1 m d s n)
  have n: "unat n = Suc (unat (n - 1))"
    using "1.prems" by (simp add: unat_minus_one unat_gt_0)
  show ?case
  proof (cases "n - 1 \<noteq> 0 \<and> m d = m s")
    case True
    then show ?thesis
      using "1.IH" "1.prems" by (simp add: memcmp_loop.simps [of m d s n] n bytes_Suc)
  next
    case False
    then show ?thesis
      using "1.prems" by (auto simp: memcmp_loop.simps [of m d s n] n bytes_Suc)
  qed
qed

text \<open>
  C40: memcmp returns the difference of the two regions' bytes at the first position where
  they differ, and 0 exactly when the regions hold the same bytes.
\<close>

theorem memcmp_first_difference:
  "memcmp m dest src len = bytes_diff (bytes m dest (unat len)) (bytes m src (unat len))
   \<and> (memcmp m dest src len = 0 \<longleftrightarrow> bytes m dest (unat len) = bytes m src (unat len))"
proof -
  have "memcmp m dest src len = bytes_diff (bytes m dest (unat len)) (bytes m src (unat len))"
  proof (cases "len = 0")
    case True
    then show ?thesis by (simp add: memcmp_def bytes_def)
  next
    case False
    then show ?thesis
      using memcmp_loop_diff [OF False, of m dest src] by (simp add: memcmp_def case_prod_unfold)
  qed
  then show ?thesis by (simp add: bytes_diff_eq_0_iff)
qed

end
