(* ===== verification/OrderedArray.thy ===== *)
theory OrderedArray
  imports MemOps "HOL-Library.Multiset"
begin

text \<open>
  src/utils/ordered_array.c and .h: an array of 32-bit items (type_t) in memory, kept in
  the order of a less-than predicate. The struct is a record, its elements stay in memory,
  and the function pointer is an optional function (None is the null pointer) which may
  read memory, as the heap's predicate does.
\<close>

section \<open>The structure and its operations\<close>

type_synonym lessthan_predicate_t = "memory \<Rightarrow> uint32 \<Rightarrow> uint32 \<Rightarrow> uint8"

record ordered_array_t =
  array :: uint32
  oa_size :: size_t
  max_size :: size_t
  less_than :: "lessthan_predicate_t option"

definition standard_lessthan_predicate :: lessthan_predicate_t where
  "standard_lessthan_predicate m a b = (if a < b then 1 else 0)"

definition place_ordered_array ::
  "uint32 \<Rightarrow> size_t \<Rightarrow> lessthan_predicate_t option \<Rightarrow> memory \<Rightarrow> ordered_array_t \<times> memory" where
  "place_ordered_array addr max_sz lt m =
     (\<lparr>array = addr, oa_size = 0, max_size = max_sz, less_than = lt\<rparr>, memset m addr 0 (max_sz * 4))"

text \<open>destroy_ordered_array has an empty body.\<close>

definition destroy_ordered_array :: "ordered_array_t \<Rightarrow> ordered_array_t" where
  "destroy_ordered_array oa = oa"

text \<open>The two loops of insert: the search for the position and the shift of the tail.\<close>

function insert_search ::
  "lessthan_predicate_t \<Rightarrow> memory \<Rightarrow> uint32 \<Rightarrow> size_t \<Rightarrow> uint32 \<Rightarrow> size_t \<Rightarrow> size_t" where
  "insert_search lt m arr n item iterator =
     (if iterator < n \<and> lt m (rd32 m (arr + 4 * iterator)) item \<noteq> 0
      then insert_search lt m arr n item (iterator + 1) else iterator)"
  by pat_completeness auto
termination
  by (relation "measure (\<lambda>(lt, m, arr, n, item, i). unat (n - i))") (auto simp: word_loop_measure)

function insert_shift :: "memory \<Rightarrow> uint32 \<Rightarrow> size_t \<Rightarrow> size_t \<Rightarrow> uint32 \<Rightarrow> memory" where
  "insert_shift m arr n iterator tmp =
     (if iterator < n
      then let i = iterator + 1; tmp2 = rd32 m (arr + 4 * i)
           in insert_shift (wr32 m (arr + 4 * i) tmp) arr n i tmp2
      else m)"
  by pat_completeness auto
termination
  by (relation "measure (\<lambda>(m, arr, n, i, tmp). unat (n - i))") (auto simp: word_loop_measure)

definition insert_ordered_array ::
  "uint32 \<Rightarrow> ordered_array_t \<Rightarrow> memory \<Rightarrow> kerror + ordered_array_t \<times> memory" where
  "insert_ordered_array item oa m =
     (case less_than oa of
        None \<Rightarrow> Inl (AssertionFailed ''array->less_than'')
      | Some lt \<Rightarrow>
          let arr = array oa; n = oa_size oa; iterator = insert_search lt m arr n item 0
          in if iterator = n
             then Inr (oa\<lparr>oa_size := n + 1\<rparr>, wr32 m (arr + 4 * n) item)
             else let tmp = rd32 m (arr + 4 * iterator);
                      m1 = wr32 m (arr + 4 * iterator) item
                  in Inr (oa\<lparr>oa_size := n + 1\<rparr>, insert_shift m1 arr n iterator tmp))"

definition lookup_ordered_array ::
  "size_t \<Rightarrow> ordered_array_t \<Rightarrow> memory \<Rightarrow> kerror + uint32" where
  "lookup_ordered_array i oa m =
     (if i < oa_size oa then Inr (rd32 m (array oa + 4 * i))
      else Inl (AssertionFailed ''i < array->size''))"

function remove_shift :: "memory \<Rightarrow> uint32 \<Rightarrow> size_t \<Rightarrow> size_t \<Rightarrow> memory" where
  "remove_shift m arr n i =
     (if i < n
      then remove_shift (wr32 m (arr + 4 * i) (rd32 m (arr + 4 * (i + 1)))) arr n (i + 1)
      else m)"
  by pat_completeness auto
termination
  by (relation "measure (\<lambda>(m, arr, n, i). unat (n - i))") (auto simp: word_loop_measure)

definition remove_ordered_array ::
  "size_t \<Rightarrow> ordered_array_t \<Rightarrow> memory \<Rightarrow> ordered_array_t \<times> memory" where
  "remove_ordered_array i oa m =
     (oa\<lparr>oa_size := oa_size oa - 1\<rparr>, remove_shift m (array oa) (oa_size oa) i)"

declare insert_search.simps [simp del] insert_shift.simps [simp del] remove_shift.simps [simp del]

section \<open>The list view\<close>

text \<open>The items of the array, and the room for \<open>n\<close> items below the end of memory.\<close>

definition oa_items :: "ordered_array_t \<Rightarrow> memory \<Rightarrow> uint32 list" where
  "oa_items oa m = words m (array oa) (unat (oa_size oa))"

definition oa_fits :: "ordered_array_t \<Rightarrow> nat \<Rightarrow> bool" where
  "oa_fits oa n \<longleftrightarrow> unat (array oa) + 4 * n \<le> 4294967296"

lemma length_oa_items [simp]: "length (oa_items oa m) = unat (oa_size oa)"
  by (simp add: oa_items_def)

lemma unat_Suc_lt:
  fixes i n :: uint32
  assumes "i < n"
  shows "unat (i + 1) = unat i + 1" "unat i < unat n"
proof -
  show "unat i < unat n" using assms by (simp add: word_less_nat_alt)
  moreover have "unat n < 4294967296" by simp
  ultimately have "unat i + 1 < 4294967296" by linarith
  then show "unat (i + 1) = unat i + 1"
    using unat_plus_of_nat [of i 1] by simp
qed

lemma index_word: "arr + 4 * (i :: uint32) = arr + 4 * of_nat (unat i)"
  by simp

lemma insert_search_spec:
  assumes "i \<le> n"
  shows "insert_search lt m arr n item i =
    i + of_nat (length (takeWhile (\<lambda>y. lt m y item \<noteq> 0) (drop (unat i) (words m arr (unat n)))))"
  using assms
proof (induction lt m arr n item i rule: insert_search.induct)
  case (1 lt m arr n item i)
  let ?ws = "words m arr (unat n)"
  show ?case
  proof (cases "i < n")
    case True
    have d: "drop (unat i) ?ws = rd32 m (arr + 4 * i) # drop (unat (i + 1)) ?ws"
      using unat_Suc_lt [OF True] by (simp add: Cons_nth_drop_Suc [symmetric])
    have "i + 1 \<le> n" using unat_Suc_lt [OF True] by (simp add: word_le_nat_alt)
    then show ?thesis
      using "1.IH" True d by (auto simp: insert_search.simps [of lt m arr n item i] algebra_simps)
  next
    case False
    then have "i = n" using "1.prems"(1) by simp
    then show ?thesis by (simp add: insert_search.simps [of lt m arr n item n])
  qed
qed

lemma words_wr32_word:
  fixes i arr :: uint32
  assumes "unat i < N" "unat arr + 4 * N \<le> 4294967296"
  shows "words (wr32 m (arr + 4 * i) v) arr N = (words m arr N)[unat i := v]"
  using words_wr32 [OF assms, of m v] by simp

lemma mem_eq_on_wr32_index:
  fixes i arr :: uint32
  assumes "unat i < N" "unat arr + 4 * N \<le> 4294967296"
  shows "mem_eq_on (- {unat arr ..< unat arr + 4 * N}) m (wr32 m (arr + 4 * i) v)"
proof -
  have "unat (arr + 4 * i) = unat arr + 4 * unat i"
    using assms unat_word_index [of arr "unat i"] by simp
  then show ?thesis using assms by (intro mem_eq_on_wr32) auto
qed

lemma insert_shift_spec:
  assumes "i \<le> n" "N = unat n + 1" "unat arr + 4 * N \<le> 4294967296" "W = words m arr N"
  shows "words (insert_shift m arr n i tmp) arr N =
      take (unat i + 1) W @ (if i < n then tmp # take (unat n - unat i - 1) (drop (unat i + 1) W) else [])
    \<and> mem_eq_on (- {unat arr ..< unat arr + 4 * N}) m (insert_shift m arr n i tmp)"
  using assms
proof (induction m arr n i tmp arbitrary: W rule: insert_shift.induct)
  case (1 m arr n i tmp)
  show ?case
  proof (cases "i < n")
    case False
    then have "i = n" using "1.prems"(1) by simp
    then show ?thesis using "1.prems" by (simp add: insert_shift.simps [of m arr n n tmp])
  next
    case True
    note i1 = unat_Suc_lt [OF True]
    let ?m1 = "wr32 m (arr + 4 * (i + 1)) tmp"
    let ?tmp2 = "rd32 m (arr + 4 * (i + 1))"
    have iN: "unat (i + 1) < N" using i1 "1.prems"(2) by simp
    have W1: "words ?m1 arr N = W[unat i + 1 := tmp]"
      using words_wr32_word [OF iN "1.prems"(3)] i1 "1.prems"(4) by simp
    have tmp2: "?tmp2 = W ! (unat i + 1)"
      using iN i1 "1.prems"(4) by (metis index_word nth_words)
    have "i + 1 \<le> n" using i1 by (simp add: word_le_nat_alt)
    note IH = "1.IH" [OF True refl refl this "1.prems"(2,3) W1 [symmetric]]
    have step: "insert_shift m arr n i tmp = insert_shift ?m1 arr n (i + 1) ?tmp2"
      using True by (simp add: insert_shift.simps [of m arr n i tmp] Let_def)
    have lenW: "length W = N" using "1.prems"(4) by simp
    have tk: "take (unat (i + 1) + 1) (W[unat i + 1 := tmp]) = take (unat i + 1) W @ [tmp]"
      using iN i1 lenW by (simp add: take_Suc_conv_app_nth)
    have "(if i + 1 < n then ?tmp2 # take (unat n - unat (i + 1) - 1) (drop (unat (i + 1) + 1) (W[unat i + 1 := tmp])) else [])
      = take (unat n - unat i - 1) (drop (unat i + 1) W)"
    proof (cases "i + 1 < n")
      case T2: True
      then have "unat (i + 1) < unat n" by (simp add: word_less_nat_alt)
      then have "take (unat n - unat i - 1) (drop (unat i + 1) W)
          = W ! (unat i + 1) # take (unat n - unat i - 2) (drop (unat i + 2) W)"
        using i1 lenW "1.prems"(2) by (simp add: Cons_nth_drop_Suc [symmetric] take_Cons' numeral_2_eq_2)
      then show ?thesis using T2 i1 tmp2 by simp
    next
      case F2: False
      then have "unat n \<le> unat (i + 1)" by (simp add: word_less_nat_alt)
      then show ?thesis using F2 i1 by simp
    qed
    then have w: "words (insert_shift m arr n i tmp) arr N =
        take (unat i + 1) W @ tmp # take (unat n - unat i - 1) (drop (unat i + 1) W)"
      using IH step tk by simp
    have "mem_eq_on (- {unat arr ..< unat arr + 4 * N}) m (insert_shift m arr n i tmp)"
      using IH step mem_eq_on_wr32_index [OF iN "1.prems"(3), of m tmp]
      by (simp add: mem_eq_on_trans [of _ m ?m1])
    then show ?thesis using w True by simp
  qed
qed

lemma remove_shift_spec:
  assumes "i \<le> n" "N = unat n + 1" "unat arr + 4 * N \<le> 4294967296" "W = words m arr N"
  shows "words (remove_shift m arr n i) arr N =
      take (unat i) W @ drop (unat i + 1) W @ [W ! unat n]
    \<and> mem_eq_on (- {unat arr ..< unat arr + 4 * unat n}) m (remove_shift m arr n i)"
  using assms
proof (induction m arr n i arbitrary: W rule: remove_shift.induct)
  case (1 m arr n i)
  have lenW: "length W = N" using "1.prems"(4) by simp
  show ?case
  proof (cases "i < n")
    case False
    then have "i = n" using "1.prems"(1) by simp
    then show ?thesis
      using "1.prems" lenW
      by (simp add: remove_shift.simps [of m arr n n] words_Suc take_words nth_append)
  next
    case True
    note i1 = unat_Suc_lt [OF True]
    let ?m1 = "wr32 m (arr + 4 * i) (rd32 m (arr + 4 * (i + 1)))"
    have iN: "unat i < N" "unat (i + 1) < N" using i1 "1.prems"(2) by simp_all
    have "rd32 m (arr + 4 * (i + 1)) = W ! (unat i + 1)"
      using iN i1 "1.prems"(4) by (metis index_word nth_words)
    then have W1: "words ?m1 arr N = W[unat i := W ! (unat i + 1)]"
      using words_wr32_word [OF iN(1) "1.prems"(3)] "1.prems"(4) by simp
    have "i + 1 \<le> n" using i1 by (simp add: word_le_nat_alt)
    note IH = "1.IH" [OF True this "1.prems"(2,3) W1 [symmetric]]
    have step: "remove_shift m arr n i = remove_shift ?m1 arr n (i + 1)"
      using True by (simp add: remove_shift.simps [of m arr n i])
    have "take (unat i + 1) (W[unat i := W ! (unat i + 1)]) @ drop (unat i + 2) W
        = take (unat i) W @ drop (unat i + 1) W"
      using iN i1 lenW by (simp add: take_Suc_conv_app_nth Cons_nth_drop_Suc [symmetric])
    then have w: "words (remove_shift m arr n i) arr N = take (unat i) W @ drop (unat i + 1) W @ [W ! unat n]"
      using IH step i1 by (simp add: append_assoc [symmetric] del: append_assoc)
    have "mem_eq_on (- {unat arr ..< unat arr + 4 * unat n}) m ?m1"
      using i1(2) "1.prems"(2,3) by (intro mem_eq_on_wr32_index) simp_all
    then show ?thesis using w IH step by (auto intro: mem_eq_on_trans)
  qed
qed

lemma oa_fits_small: "oa_fits oa (n + 1) \<Longrightarrow> n + 1 < 4294967296"
  by (simp add: oa_fits_def)

lemma insert_items:
  assumes lt: "less_than oa = Some lt" and fits: "oa_fits oa (unat (oa_size oa) + 1)"
    and xs: "xs = oa_items oa m" and p: "p = (\<lambda>y. lt m y item \<noteq> 0)"
  shows "\<exists>m'. insert_ordered_array item oa m = Inr (oa\<lparr>oa_size := oa_size oa + 1\<rparr>, m')
    \<and> words m' (array oa) (unat (oa_size oa) + 1) = takeWhile p xs @ item # dropWhile p xs
    \<and> mem_eq_on (- {unat (array oa) ..< unat (array oa) + 4 * (unat (oa_size oa) + 1)}) m m'"
proof -
  let ?arr = "array oa" and ?n = "oa_size oa"
  let ?N = "unat ?n + 1"
  let ?it = "insert_search lt m ?arr ?n item 0"
  define k where "k = length (takeWhile p xs)"
  have lenxs: "length xs = unat ?n" by (simp add: xs)
  then have kn: "k \<le> unat ?n" unfolding k_def using length_takeWhile_le [of p xs] by simp
  have it: "?it = of_nat k"
    using insert_search_spec [of 0 ?n lt m ?arr item] by (simp add: k_def p xs oa_items_def)
  have "k < 4294967296" using kn unat_lt_2p32 [of ?n] by linarith
  then have k: "unat ?it = k" by (simp add: it unat_of_nat32)
  have room: "unat ?arr + 4 * ?N \<le> 4294967296" using fits by (simp add: oa_fits_def)
  let ?W = "words m ?arr ?N"
  have W: "?W = xs @ [rd32 m (?arr + 4 * ?n)]" by (simp add: words_Suc xs oa_items_def)
  have td: "takeWhile p xs = take k xs" "dropWhile p xs = drop k xs"
    using takeWhile_eq_take [of p xs] dropWhile_eq_drop [of p xs] by (simp_all add: k_def)
  show ?thesis
  proof (cases "?it = ?n")
    case True
    then have kk: "k = unat ?n" using k by simp
    let ?m' = "wr32 m (?arr + 4 * ?n) item"
    have "words ?m' ?arr ?N = ?W[unat ?n := item]"
      using words_wr32_word [of ?n ?N ?arr m item] room by simp
    then have "words ?m' ?arr ?N = takeWhile p xs @ item # dropWhile p xs"
      using kk lenxs W by (simp add: td list_update_append)
    moreover have "mem_eq_on (- {unat ?arr ..< unat ?arr + 4 * ?N}) m ?m'"
      using room by (intro mem_eq_on_wr32_index) simp_all
    ultimately show ?thesis
      using True by (simp add: insert_ordered_array_def lt Let_def)
  next
    case False
    then have lt_n: "?it < ?n" using kn k by (simp add: word_less_nat_alt word_unat_eq_iff)
    then have kltn: "k < unat ?n" using k by (simp add: word_less_nat_alt)
    let ?m1 = "wr32 m (?arr + 4 * ?it) item"
    let ?tmp = "rd32 m (?arr + 4 * ?it)"
    let ?m' = "insert_shift ?m1 ?arr ?n ?it ?tmp"
    have itN: "unat ?it < ?N" using kltn k by simp
    have W1: "words ?m1 ?arr ?N = ?W[k := item]"
      using words_wr32_word [OF itN room, of m item] k by simp
    have tmp: "?tmp = xs ! k"
      using kltn k by (metis index_word nth_words oa_items_def xs)
    have le: "?it \<le> ?n" using lt_n by simp
    note S = insert_shift_spec [OF le refl room refl, of ?m1 ?tmp]
    have "words ?m' ?arr ?N = take (k + 1) (?W[k := item]) @ ?tmp # take (unat ?n - k - 1) (drop (k + 1) ?W)"
      using S lt_n W1 k by simp
    also have "take (k + 1) (?W[k := item]) = take k xs @ [item]"
      using kltn lenxs W by (simp add: take_Suc_conv_app_nth list_update_append nth_append)
    also have "?tmp # take (unat ?n - k - 1) (drop (k + 1) ?W) = drop k xs"
      using kltn lenxs W by (simp add: tmp Cons_nth_drop_Suc [symmetric])
    finally have w: "words ?m' ?arr ?N = takeWhile p xs @ item # dropWhile p xs"
      by (simp add: td)
    have "mem_eq_on (- {unat ?arr ..< unat ?arr + 4 * ?N}) m ?m'"
      using S mem_eq_on_wr32_index [OF itN room, of m item] by (blast intro: mem_eq_on_trans)
    then show ?thesis
      using False w by (simp add: insert_ordered_array_def lt Let_def)
  qed
qed

lemma remove_items:
  assumes "unat i < unat (oa_size oa)" and fits: "oa_fits oa (unat (oa_size oa) + 1)"
    and xs: "xs = oa_items oa m"
  shows "\<exists>m'. remove_ordered_array i oa m = (oa\<lparr>oa_size := oa_size oa - 1\<rparr>, m')
    \<and> words m' (array oa) (unat (oa_size oa) - 1) = take (unat i) xs @ drop (unat i + 1) xs
    \<and> mem_eq_on (- {unat (array oa) ..< unat (array oa) + 4 * unat (oa_size oa)}) m m'"
proof -
  let ?n = "oa_size oa" and ?arr = "array oa"
  let ?m' = "remove_shift m ?arr ?n i"
  have room: "unat ?arr + 4 * (unat ?n + 1) \<le> 4294967296" using fits by (simp add: oa_fits_def)
  have le: "i \<le> ?n" using assms(1) by (simp add: word_le_nat_alt)
  note S = remove_shift_spec [OF le refl room refl, of m]
  have lenxs: "length xs = unat ?n" by (simp add: xs)
  have "words ?m' ?arr (unat ?n - 1) = take (unat ?n - 1) (words ?m' ?arr (unat ?n + 1))"
    by (rule take_words [symmetric]) simp
  also have "\<dots> = take (unat i) xs @ drop (unat i + 1) xs"
    using S assms(1) lenxs by (simp add: words_Suc xs oa_items_def)
  finally show ?thesis using S by (simp add: remove_ordered_array_def)
qed

section \<open>The index interface\<close>

text \<open>
  What a client of an ordered index relies on: insert puts the item before the first one
  that is not less, remove deletes one position, lookup reads one position and refuses an
  index past the end. \<open>ready\<close> is what the provider needs for one more item.
\<close>

locale ordered_index =
  fixes items :: "'s \<Rightarrow> 'a list"
    and before :: "'s \<Rightarrow> 'a \<Rightarrow> 'a \<Rightarrow> bool"
    and ready :: "'s \<Rightarrow> bool"
    and insert_op :: "'a \<Rightarrow> 's \<Rightarrow> kerror + 's"
    and remove_op :: "nat \<Rightarrow> 's \<Rightarrow> 's"
    and lookup_op :: "nat \<Rightarrow> 's \<Rightarrow> kerror + 'a"
  assumes insert_law: "ready s \<Longrightarrow> \<exists>s'. insert_op x s = Inr s' \<and>
      items s' = takeWhile (\<lambda>y. before s y x) (items s) @ x # dropWhile (\<lambda>y. before s y x) (items s)"
    and remove_law: "ready s \<Longrightarrow> i < length (items s) \<Longrightarrow>
      items (remove_op i s) = take i (items s) @ drop (i + 1) (items s)"
    and lookup_law: "i < length (items s) \<Longrightarrow> lookup_op i s = Inr (items s ! i)"
    and lookup_end: "length (items s) \<le> i \<Longrightarrow> i < 4294967296 \<Longrightarrow> \<exists>e. lookup_op i s = Inl e"
begin

lemma insert_set: "ready s \<Longrightarrow> insert_op x s = Inr s' \<Longrightarrow> set (items s') = insert x (set (items s))"
proof -
  assume "ready s" "insert_op x s = Inr s'"
  with insert_law [of s x]
  have "items s' = takeWhile (\<lambda>y. before s y x) (items s) @ x # dropWhile (\<lambda>y. before s y x) (items s)"
    by auto
  moreover have "set (takeWhile (\<lambda>y. before s y x) (items s)) \<union> set (dropWhile (\<lambda>y. before s y x) (items s))
      = set (items s)"
    by (metis set_append takeWhile_dropWhile_id)
  ultimately show ?thesis by auto
qed

lemma insert_sorted:
  fixes key :: "'a \<Rightarrow> 'k::linorder"
  assumes r: "ready s" and ins: "insert_op x s = Inr s'"
    and key: "\<And>y. y \<in> set (items s) \<Longrightarrow> before s y x \<longleftrightarrow> key y < key x"
    and sorted: "sorted (map key (items s))"
  shows "sorted (map key (items s'))"
proof -
  let ?P = "\<lambda>y. before s y x"
  have items': "items s' = takeWhile ?P (items s) @ x # dropWhile ?P (items s)"
    using insert_law [OF r, of x] ins by auto
  have "sorted (map key (takeWhile ?P (items s) @ dropWhile ?P (items s)))"
    using sorted by simp
  then have parts: "sorted (map key (takeWhile ?P (items s)))" "sorted (map key (dropWhile ?P (items s)))"
    "\<And>y z. y \<in> set (takeWhile ?P (items s)) \<Longrightarrow> z \<in> set (dropWhile ?P (items s)) \<Longrightarrow> key y \<le> key z"
    unfolding map_append sorted_append by auto
  have before: "key y < key x" if "y \<in> set (takeWhile ?P (items s))" for y
    using that key by (auto dest: set_takeWhileD)
  have after: "key x \<le> key z" if z: "z \<in> set (dropWhile ?P (items s))" for z
  proof -
    obtain h t where ht: "dropWhile ?P (items s) = h # t" using z by (cases "dropWhile ?P (items s)") auto
    then have "\<not> ?P h" by (simp add: dropWhile_eq_Cons_conv)
    moreover have "h \<in> set (items s)" using ht by (metis list.set_intros(1) set_dropWhileD)
    ultimately have "key x \<le> key h" using key by auto
    also have "key h \<le> key z" using parts(2) z ht by auto
    finally show ?thesis .
  qed
  show ?thesis
    unfolding items' map_append list.map sorted_append sorted_simps
    using parts before after by (auto intro: less_imp_le)
qed

lemma remove_sorted:
  fixes key :: "'a \<Rightarrow> 'k::linorder"
  assumes "ready s" "i < length (items s)" "sorted (map key (items s))"
  shows "sorted (map key (items (remove_op i s)))"
proof -
  have "sorted (map key (take i (items s) @ drop i (items s)))" using assms(3) by simp
  then have p: "sorted (map key (take i (items s)))" "sorted (map key (drop i (items s)))"
    "\<And>y z. y \<in> set (take i (items s)) \<Longrightarrow> z \<in> set (drop i (items s)) \<Longrightarrow> key y \<le> key z"
    unfolding map_append sorted_append by auto
  have "drop i (items s) = items s ! i # drop (i + 1) (items s)"
    using assms(2) by (simp add: Cons_nth_drop_Suc)
  then show ?thesis using p assms by (simp add: remove_law sorted_append)
qed

lemma first_lookup_minimal:
  fixes key :: "'a \<Rightarrow> 'k::linorder"
  assumes "sorted (map key (items s))" "i < length (items s)" "P (items s ! i)"
    and first: "\<And>j. j < i \<Longrightarrow> \<not> P (items s ! j)" and y: "y \<in> set (items s)" "P y"
  shows "key (items s ! i) \<le> key y"
proof -
  obtain j where j: "j < length (items s)" "items s ! j = y" using y(1) by (auto simp: in_set_conv_nth)
  then have "i \<le> j" using first y(2) by (meson leI)
  then show ?thesis using sorted_nth_mono [OF assms(1), of i j] j by simp
qed

end

text \<open>The array provides the interface on its list view.\<close>

definition oa_ready :: "ordered_array_t \<times> memory \<Rightarrow> bool" where
  "oa_ready s \<longleftrightarrow> less_than (fst s) \<noteq> None \<and> oa_fits (fst s) (unat (oa_size (fst s)) + 1)"

definition oa_before :: "ordered_array_t \<times> memory \<Rightarrow> uint32 \<Rightarrow> uint32 \<Rightarrow> bool" where
  "oa_before s a b = (case less_than (fst s) of None \<Rightarrow> False | Some lt \<Rightarrow> lt (snd s) a b \<noteq> 0)"

interpretation oa: ordered_index
  "\<lambda>s. oa_items (fst s) (snd s)" oa_before oa_ready
  "\<lambda>x s. insert_ordered_array x (fst s) (snd s)"
  "\<lambda>i s. remove_ordered_array (of_nat i) (fst s) (snd s)"
  "\<lambda>i s. lookup_ordered_array (of_nat i) (fst s) (snd s)"
proof
  fix s :: "ordered_array_t \<times> memory" and x
  assume "oa_ready s"
  then obtain lt where lt: "less_than (fst s) = Some lt"
    and fits: "oa_fits (fst s) (unat (oa_size (fst s)) + 1)" by (auto simp: oa_ready_def)
  have "unat (oa_size (fst s) + 1) = unat (oa_size (fst s)) + 1"
    using unat_plus_of_nat [of "oa_size (fst s)" 1] oa_fits_small [OF fits] by simp
  then show "\<exists>s'. insert_ordered_array x (fst s) (snd s) = Inr s' \<and>
      oa_items (fst s') (snd s') = takeWhile (\<lambda>y. oa_before s y x) (oa_items (fst s) (snd s)) @
        x # dropWhile (\<lambda>y. oa_before s y x) (oa_items (fst s) (snd s))"
    using insert_items [OF lt fits refl refl, where m = "snd s" and item = x] lt
    by (auto simp: oa_before_def oa_items_def)
next
  fix s :: "ordered_array_t \<times> memory" and i
  assume r: "oa_ready s" and i: "i < length (oa_items (fst s) (snd s))"
  then have "i < unat (oa_size (fst s))" by simp
  also have "\<dots> < 4294967296" by simp
  finally have u: "unat (of_nat i :: uint32) = i" by (rule unat_of_nat32)
  have n: "unat (oa_size (fst s) - 1) = unat (oa_size (fst s)) - 1"
    using i by (subst unat_minus_le) simp_all
  show "oa_items (fst (remove_ordered_array (of_nat i) (fst s) (snd s)))
      (snd (remove_ordered_array (of_nat i) (fst s) (snd s))) =
    take i (oa_items (fst s) (snd s)) @ drop (i + 1) (oa_items (fst s) (snd s))"
    using remove_items [where i = "of_nat i" and oa = "fst s" and m = "snd s", OF _ _ refl] r i u n
    by (auto simp: oa_ready_def oa_items_def)
next
  fix s :: "ordered_array_t \<times> memory" and i
  assume i: "i < length (oa_items (fst s) (snd s))"
  then have "i < unat (oa_size (fst s))" by simp
  also have "\<dots> < 4294967296" by simp
  finally have u: "unat (of_nat i :: uint32) = i" by (rule unat_of_nat32)
  show "lookup_ordered_array (of_nat i) (fst s) (snd s) = Inr (oa_items (fst s) (snd s) ! i)"
    using i u by (simp add: lookup_ordered_array_def oa_items_def word_less_nat_alt)
next
  fix s :: "ordered_array_t \<times> memory" and i :: nat
  assume i: "length (oa_items (fst s) (snd s)) \<le> i" "i < 4294967296"
  then have "unat (of_nat i :: uint32) = i" by (simp add: unat_of_nat32)
  then show "\<exists>e. lookup_ordered_array (of_nat i) (fst s) (snd s) = Inl e"
    using i by (simp add: lookup_ordered_array_def word_less_nat_alt)
qed

section \<open>What the operations guarantee\<close>

lemma mset_takeWhile_insert: "mset (takeWhile P xs @ x # dropWhile P xs) = add_mset x (mset xs)"
proof -
  have "mset (takeWhile P xs @ x # dropWhile P xs)
      = add_mset x (mset (takeWhile P xs @ dropWhile P xs))" by (simp only: mset_append mset.simps) simp
  then show ?thesis by simp
qed

lemma oa_size_Suc:
  assumes "oa_fits oa (unat (oa_size oa) + 1)"
  shows "unat (oa_size oa + 1) = unat (oa_size oa) + 1"
  using unat_plus_of_nat [of "oa_size oa" 1] oa_fits_small [OF assms] by simp

text \<open>
  C28: insert_ordered_array adds exactly the new item, keeps an array that was sorted by the
  predicate's key sorted, and writes only inside the array, up to its new end.
\<close>

theorem insert_keeps_sorted:
  fixes key :: "uint32 \<Rightarrow> nat"
  assumes lt: "less_than oa = Some lt"
    and key: "\<And>a b. (lt m a b \<noteq> 0) = (key a < key b)"
    and fits: "oa_fits oa (unat (oa_size oa) + 1)"
    and sorted: "sorted (map key (oa_items oa m))"
  shows "\<exists>oa' m'. insert_ordered_array item oa m = Inr (oa', m')
    \<and> sorted (map key (oa_items oa' m'))
    \<and> mset (oa_items oa' m') = add_mset item (mset (oa_items oa m))
    \<and> mem_eq_on (- {unat (array oa) ..< unat (array oa) + 4 * (unat (oa_size oa) + 1)}) m m'"
proof -
  from insert_items [OF lt fits refl refl, where m = m and item = item] obtain m' where
    ins: "insert_ordered_array item oa m = Inr (oa\<lparr>oa_size := oa_size oa + 1\<rparr>, m')"
    and ws: "words m' (array oa) (unat (oa_size oa) + 1) =
      takeWhile (\<lambda>y. lt m y item \<noteq> 0) (oa_items oa m) @ item # dropWhile (\<lambda>y. lt m y item \<noteq> 0) (oa_items oa m)"
    and eq: "mem_eq_on (- {unat (array oa) ..< unat (array oa) + 4 * (unat (oa_size oa) + 1)}) m m'"
    by blast
  let ?oa' = "oa\<lparr>oa_size := oa_size oa + 1\<rparr>"
  have "sorted (map key (oa_items ?oa' m'))"
    using oa.insert_sorted [of "(oa, m)" item "(?oa', m')" key] lt key fits sorted ins
    by (simp add: oa_ready_def oa_before_def)
  moreover have "mset (oa_items ?oa' m') = add_mset item (mset (oa_items oa m))"
    using ws mset_takeWhile_insert [of "\<lambda>y. lt m y item \<noteq> 0" "oa_items oa m" item]
    by (simp add: oa_items_def oa_size_Suc [OF fits])
  ultimately show ?thesis using ins eq by blast
qed

text \<open>
  remove_ordered_array at a valid position deletes exactly the item there, keeps the order of
  the others, and writes only inside the array.
\<close>

lemma remove_deletes_one':
  assumes "i < oa_size oa" "oa_fits oa (unat (oa_size oa) + 1)"
  shows "\<exists>m'. remove_ordered_array i oa m = (oa\<lparr>oa_size := oa_size oa - 1\<rparr>, m')
    \<and> oa_items (oa\<lparr>oa_size := oa_size oa - 1\<rparr>) m' = take (unat i) (oa_items oa m) @ drop (unat i + 1) (oa_items oa m)
    \<and> mem_eq_on (- {unat (array oa) ..< unat (array oa) + 4 * unat (oa_size oa)}) m m'"
proof -
  have i: "unat i < unat (oa_size oa)" using assms(1) by (simp add: word_less_nat_alt)
  then have "unat (oa_size oa - 1) = unat (oa_size oa) - 1" by (subst unat_minus_le) simp_all
  then show ?thesis
    using remove_items [OF i assms(2) refl, of m] by (auto simp: oa_items_def)
qed

text \<open>
  remove_ordered_array has no bounds check: an index at or past the end drops the last
  item, whatever it is, and writes nothing.
\<close>

lemma remove_past_end_drops_last:
  assumes "oa_size oa \<le> i"
  shows "remove_ordered_array i oa m = (oa\<lparr>oa_size := oa_size oa - 1\<rparr>, m)
    \<and> (oa_size oa \<noteq> 0 \<longrightarrow> oa_items (fst (remove_ordered_array i oa m)) m = butlast (oa_items oa m))"
proof -
  have r: "remove_ordered_array i oa m = (oa\<lparr>oa_size := oa_size oa - 1\<rparr>, m)"
    using assms by (simp add: remove_ordered_array_def remove_shift.simps [of m _ _ i] not_less [symmetric])
  have "oa_items (oa\<lparr>oa_size := oa_size oa - 1\<rparr>) m = butlast (oa_items oa m)" if "oa_size oa \<noteq> 0"
    using that by (simp add: oa_items_def unat_minus_one butlast_conv_take take_words)
  then show ?thesis using r by simp
qed

text \<open>
  insert_ordered_array never compares the size with max_size: an item larger than all
  others inserted into a full array is written to the word after the array's region.
\<close>

lemma insert_ignores_max_size:
  assumes lt: "less_than oa = Some lt"
    and full: "oa_size oa = max_size oa" and fits: "oa_fits oa (unat (oa_size oa) + 1)"
    and last: "\<And>y. y \<in> set (oa_items oa m) \<Longrightarrow> lt m y item \<noteq> 0"
  shows "insert_ordered_array item oa m =
    Inr (oa\<lparr>oa_size := max_size oa + 1\<rparr>, wr32 m (array oa + 4 * max_size oa) item)"
proof -
  have "insert_search lt m (array oa) (oa_size oa) item 0 =
      of_nat (length (takeWhile (\<lambda>y. lt m y item \<noteq> 0) (oa_items oa m)))"
    using insert_search_spec [of 0 "oa_size oa"] by (simp add: oa_items_def)
  also have "takeWhile (\<lambda>y. lt m y item \<noteq> 0) (oa_items oa m) = oa_items oa m"
    using last by (simp add: takeWhile_eq_all_conv)
  finally show ?thesis using lt full by (simp add: insert_ordered_array_def Let_def)
qed

subsection \<open>Witnesses\<close>

text \<open>Two items, 5 and 9, at address 4096.\<close>

definition oa_example :: ordered_array_t where
  "oa_example = \<lparr>array = 4096, oa_size = 2, max_size = 2,
     less_than = Some standard_lessthan_predicate\<rparr>"

definition mem_example :: memory where
  "mem_example = wr32 (wr32 (\<lambda>_. 0) 4096 5) 4100 9"

lemma oa_example_items: "oa_items oa_example mem_example = [5, 9]"
  by (simp add: oa_items_def oa_example_def mem_example_def words_def upt_rec mem_simps)

theorem insert_keeps_sorted_witness:
  "\<exists>oa' m'. insert_ordered_array 7 oa_example mem_example = Inr (oa', m')
    \<and> sorted (map unat (oa_items oa' m'))
    \<and> mset (oa_items oa' m') = {#5, 7, 9#}"
proof -
  have "\<exists>oa' m'. insert_ordered_array 7 oa_example mem_example = Inr (oa', m')
    \<and> sorted (map unat (oa_items oa' m'))
    \<and> mset (oa_items oa' m') = add_mset 7 (mset (oa_items oa_example mem_example))
    \<and> mem_eq_on (- {unat (array oa_example) ..< unat (array oa_example) + 4 * (unat (oa_size oa_example) + 1)}) mem_example m'"
    by (rule insert_keeps_sorted [where lt = standard_lessthan_predicate])
      (simp_all add: oa_example_items standard_lessthan_predicate_def word_less_nat_alt,
        simp_all add: oa_example_def oa_fits_def)
  then show ?thesis by (auto simp: oa_example_items)
qed

lemma insert_ignores_max_size_witness:
  "insert_ordered_array 11 oa_example mem_example =
    Inr (oa_example\<lparr>oa_size := 3\<rparr>, wr32 mem_example 4104 11)"
proof -
  have "less_than oa_example = Some standard_lessthan_predicate" "oa_size oa_example = max_size oa_example"
    "oa_fits oa_example (unat (oa_size oa_example) + 1)" by (simp_all add: oa_example_def oa_fits_def)
  moreover have "standard_lessthan_predicate mem_example y 11 \<noteq> 0"
    if "y \<in> set (oa_items oa_example mem_example)" for y
    using that by (auto simp: oa_example_items standard_lessthan_predicate_def)
  ultimately show ?thesis
    by (subst insert_ignores_max_size) (auto simp: oa_example_def)
qed

end
