(* ===== verification/KState.thy ===== *)
theory KState
  imports OrderedArray
begin

text \<open>
  The state that paging.c and kheap.c share: the flat memory, the two allocators' globals
  and the control registers. The two files call each other (get_page allocates page tables
  with kmalloc_ap, the heap maps its pages with get_page), so their globals are one record.
  Page directories, page tables, the frame bitmap, and the heap's headers, footers and index
  live in memory; heap_t is a record because only its fields are read and written.
\<close>

section \<open>kheap.h\<close>

record heap_t =
  index :: ordered_array_t
  start_address :: size_t
  end_address :: size_t
  max_address :: size_t
  supervisor :: uint8
  readonly :: uint8

definition PAGE_SIZE :: size_t where "PAGE_SIZE = 0x1000"
definition KHEAP_START :: size_t where "KHEAP_START = 0xC0000000"
definition KHEAP_INITIAL_SIZE :: size_t where "KHEAP_INITIAL_SIZE = 0x100000"
definition HEAP_INDEX_SIZE :: size_t where "HEAP_INDEX_SIZE = 0x20000"
definition HEAP_MAGIC :: size_t where "HEAP_MAGIC = 0x123890AB"
definition HEAP_MIN_SIZE :: size_t where "HEAP_MIN_SIZE = 0x70000"

section \<open>Interrupt handlers\<close>

text \<open>The functions the kernel registers as handlers (isr_t pointers).\<close>

datatype isr_t = page_fault_isr | keyboard_handler_isr | timer_callback_isr

section \<open>Globals of paging.c and kheap.c\<close>

record kstate =
  mem :: memory
  placement_address :: size_t
  kheap :: "heap_t option"
  kernel_directory :: uint32
  current_directory :: uint32
  frames :: uint32
  frame_count :: size_t
  interrupt_handlers :: "uint8 \<Rightarrow> isr_t option"
  cr0 :: uint32
  cr3 :: uint32

text \<open>The globals as the loader leaves them: only placement_address is not zero.\<close>

definition boot_kstate :: "memory \<Rightarrow> size_t \<Rightarrow> kstate" where
  "boot_kstate m kernel_end =
     \<lparr>mem = m, placement_address = kernel_end, kheap = None, kernel_directory = 0,
      current_directory = 0, frames = 0, frame_count = 0,
      interrupt_handlers = (\<lambda>_. None), cr0 = 0, cr3 = 0\<rparr>"

text \<open>Updates of the memory come first in a chain of updates.\<close>

lemma kheap_mem_upd [simp]: "s\<lparr>kheap := k, mem := m\<rparr> = s\<lparr>mem := m, kheap := k\<rparr>"
  by (cases s) simp

end
