(* ===== verification/Paging.thy ===== *)
theory Paging
  imports KState
begin

text \<open>
  src/memory/paging.c and paging.h, the part that does not initialise anything: the bitmap
  of physical frames, page entries and their bit fields, alloc_frame and free_frame, and
  get_page over a page directory in memory. get_page takes kmalloc_ap as an argument,
  because kheap.c, which defines it, is built on this theory.
\<close>

section \<open>The frame bitmap\<close>

definition INDEX_FROM_BIT :: "size_t \<Rightarrow> size_t" where
  "INDEX_FROM_BIT a = a div (8 * 4)"

definition OFFSET_FROM_BIT :: "size_t \<Rightarrow> size_t" where
  "OFFSET_FROM_BIT a = a mod (8 * 4)"

definition set_frame :: "size_t \<Rightarrow> kstate \<Rightarrow> kstate" where
  "set_frame frame_addr s =
     (let frame = frame_addr div 0x1000; idx = INDEX_FROM_BIT frame; off = OFFSET_FROM_BIT frame;
          p = frames s + 4 * idx
      in s\<lparr>mem := wr32 (mem s) p (rd32 (mem s) p OR push_bit (unat off) 1)\<rparr>)"

definition clear_frame :: "size_t \<Rightarrow> kstate \<Rightarrow> kstate" where
  "clear_frame frame_addr s =
     (let frame = frame_addr div 0x1000; idx = INDEX_FROM_BIT frame; off = OFFSET_FROM_BIT frame;
          p = frames s + 4 * idx
      in s\<lparr>mem := wr32 (mem s) p (rd32 (mem s) p AND NOT (push_bit (unat off) 1))\<rparr>)"

definition test_frame :: "size_t \<Rightarrow> kstate \<Rightarrow> size_t" where
  "test_frame frame_addr s =
     (let frame = frame_addr div 0x1000; idx = INDEX_FROM_BIT frame; off = OFFSET_FROM_BIT frame
      in rd32 (mem s) (frames s + 4 * idx) AND push_bit (unat off) 1)"

text \<open>
  The two loops of first_frame. The function falls off its end when it finds no free
  frame: it has no value then.
\<close>

function first_free_bit :: "size_t \<Rightarrow> size_t \<Rightarrow> size_t option" where
  "first_free_bit w j =
     (if j < 32 then
        (let toTest = push_bit (unat j) 1
         in if w AND toTest = 0 then Some j else first_free_bit w (j + 1))
      else None)"
  by pat_completeness auto
termination
proof (relation "measure (\<lambda>(w, j). unat (32 - j))")
  fix w j toTest :: size_t
  assume "j < 32"
  then show "((w, j + 1), (w, j)) \<in> measure (\<lambda>(w, j). unat (32 - j))"
    using word_loop_measure [of j 32] by simp
qed simp

function first_frame_loop :: "memory \<Rightarrow> uint32 \<Rightarrow> size_t \<Rightarrow> size_t \<Rightarrow> size_t option" where
  "first_frame_loop m frames_ptr n i =
     (if i < n then
        (if rd32 m (frames_ptr + 4 * i) \<noteq> 0xFFFFFFFF then
           (case first_free_bit (rd32 m (frames_ptr + 4 * i)) 0 of
              Some j \<Rightarrow> Some (i * 4 * 8 + j)
            | None \<Rightarrow> first_frame_loop m frames_ptr n (i + 1))
         else first_frame_loop m frames_ptr n (i + 1))
      else None)"
  by pat_completeness auto
termination
  by (relation "measure (\<lambda>(m, f, n, i). unat (n - i))") (auto simp: word_loop_measure)

declare first_free_bit.simps [simp del] first_frame_loop.simps [simp del]

definition first_frame :: "kstate \<Rightarrow> kerror + size_t" where
  "first_frame s =
     (case first_frame_loop (mem s) (frames s) (INDEX_FROM_BIT (frame_count s)) 0 of
        Some f \<Rightarrow> Inr f | None \<Rightarrow> Inl NoReturnValue)"

section \<open>Page entries\<close>

text \<open>struct page: a 32-bit word of bit fields, the first field in the lowest bit.\<close>

record page_t =
  present :: bool
  rw :: bool
  user :: bool
  accessed :: bool
  dirty :: bool
  unused :: "7 word"
  frame :: "20 word"

definition page_of_word :: "uint32 \<Rightarrow> page_t" where
  "page_of_word w =
     \<lparr>present = bit w 0, rw = bit w 1, user = bit w 2, accessed = bit w 3, dirty = bit w 4,
      unused = ucast (drop_bit 5 w), frame = ucast (drop_bit 12 w)\<rparr>"

definition word_of_page :: "page_t \<Rightarrow> uint32" where
  "word_of_page p =
     of_bool (present p) OR push_bit 1 (of_bool (rw p)) OR push_bit 2 (of_bool (user p))
     OR push_bit 3 (of_bool (accessed p)) OR push_bit 4 (of_bool (dirty p))
     OR push_bit 5 (ucast (unused p)) OR push_bit 12 (ucast (frame p))"

definition load_page :: "memory \<Rightarrow> uint32 \<Rightarrow> page_t" where
  "load_page m p = page_of_word (rd32 m p)"

definition store_page :: "memory \<Rightarrow> uint32 \<Rightarrow> page_t \<Rightarrow> memory" where
  "store_page m p pg = wr32 m p (word_of_page pg)"

definition alloc_frame :: "uint32 \<Rightarrow> int32 \<Rightarrow> int32 \<Rightarrow> kstate \<Rightarrow> kerror + kstate" where
  "alloc_frame page is_kernel is_writeable s =
     (if frame (load_page (mem s) page) \<noteq> 0 then Inr s
      else res_bind (first_frame s) (\<lambda>frame_address.
        if frame_address = -1 then Inl (Panic ''No free frames!'')
        else
          let s1 = set_frame (frame_address * 0x1000) s;
              pg = (load_page (mem s1) page)
                \<lparr>present := True, rw := (is_writeable \<noteq> 0), user := (is_kernel = 0),
                 frame := ucast frame_address\<rparr>
          in Inr (s1\<lparr>mem := store_page (mem s1) page pg\<rparr>)))"

definition free_frame :: "uint32 \<Rightarrow> kstate \<Rightarrow> kstate" where
  "free_frame page s =
     (let fr = (ucast (frame (load_page (mem s) page)) :: size_t)
      in if fr = 0 then s
         else
           let s1 = clear_frame fr s
           in s1\<lparr>mem := store_page (mem s1) page ((load_page (mem s1) page)\<lparr>frame := 0\<rparr>)\<rparr>)"

section \<open>Page tables\<close>

text \<open>
  page_directory_t: tables at offset 0, tables_physical at 4096 and
  physical_address_of_tables_physical at 8192; page_table_t: 1024 entries of 4 bytes.
  \<open>kap\<close> is kmalloc_ap: the size gives the virtual and the physical address.
\<close>

type_synonym kmalloc_ap_fn = "size_t \<Rightarrow> kstate \<Rightarrow> kerror + uint32 \<times> uint32 \<times> kstate"

definition tables_entry :: "uint32 \<Rightarrow> size_t \<Rightarrow> uint32" where
  "tables_entry dir table_index = dir + 4 * table_index"

definition tables_physical_entry :: "uint32 \<Rightarrow> size_t \<Rightarrow> uint32" where
  "tables_physical_entry dir table_index = dir + 4096 + 4 * table_index"

definition get_page_with ::
  "kmalloc_ap_fn \<Rightarrow> size_t \<Rightarrow> bool \<Rightarrow> uint32 \<Rightarrow> kstate \<Rightarrow> kerror + uint32 \<times> kstate" where
  "get_page_with kap address mk dir s =
     (let page_index = address div 0x1000;
          table_index = page_index div 1024;
          table = rd32 (mem s) (tables_entry dir table_index)
      in if table \<noteq> 0 then Inr (table + 4 * (page_index mod 1024), s)
         else if mk then
           res_bind (kap 4096 s) (\<lambda>(new_table, tmp, s1).
             let m1 = wr32 (mem s1) (tables_entry dir table_index) new_table;
                 m2 = memset m1 (rd32 m1 (tables_entry dir table_index)) 0 0x1000;
                 m3 = wr32 m2 (tables_physical_entry dir table_index) (tmp OR 7)
             in Inr (rd32 m3 (tables_entry dir table_index) + 4 * (page_index mod 1024),
                     s1\<lparr>mem := m3\<rparr>))
         else Inr (0, s))"

text \<open>A call with make = 0 never allocates; this is the allocator handed to such calls.\<close>

definition no_alloc :: kmalloc_ap_fn where
  "no_alloc sz s = Inl OutOfFuel"

end
