(* ===== verification/FrameBitmap.thy ===== *)
theory FrameBitmap
  imports Paging
begin

text \<open>
  The frame bitmap as a set of used frames: set_frame, clear_frame and test_frame implement
  insertion, removal and membership, first_frame finds the least free frame, and alloc_frame
  takes it; free_frame, which passes a frame number where an address is expected, does not
  give it back.
\<close>

section \<open>The set of used frames\<close>

text \<open>Whether frame \<open>f\<close> is marked; the bitmap of \<open>n\<close> words does not wrap around.\<close>

definition frame_used :: "kstate \<Rightarrow> nat \<Rightarrow> bool" where
  "frame_used s f \<longleftrightarrow> bit (rd32 (mem s) (frames s + 4 * of_nat (f div 32))) (f mod 32)"

definition bitmap_ok :: "kstate \<Rightarrow> nat \<Rightarrow> bool" where
  "bitmap_ok s n \<longleftrightarrow> unat (frames s) + 4 * n \<le> 4294967296 \<and> n \<le> 32768"

definition frame_address_of :: "nat \<Rightarrow> size_t" where
  "frame_address_of f = of_nat f * 0x1000"

lemma frame_word:
  assumes "f < 1048576"
  shows "frame_address_of f div 0x1000 = of_nat f"
    and "INDEX_FROM_BIT (of_nat f) = of_nat (f div 32)" and "unat (OFFSET_FROM_BIT (of_nat f)) = f mod 32"
proof -
  have u: "unat (of_nat f :: uint32) = f" using assms by (intro unat_of_nat32) simp
  have a: "unat (frame_address_of f) = f * 4096"
    using assms u unfolding frame_address_of_def by (subst unat_mult_lem [THEN iffD1]) simp_all
  show "frame_address_of f div 0x1000 = of_nat f"
    by (rule word_unat_eq_iff [THEN iffD2]) (simp add: unat_div a u)
  have "unat (INDEX_FROM_BIT (of_nat f)) = f div 32" by (simp add: INDEX_FROM_BIT_def unat_div u)
  moreover have "unat (of_nat (f div 32) :: uint32) = f div 32" using assms by (intro unat_of_nat32) linarith
  ultimately show "INDEX_FROM_BIT (of_nat f) = of_nat (f div 32)" by (simp add: word_unat_eq_iff)
  show "unat (OFFSET_FROM_BIT (of_nat f)) = f mod 32" by (simp add: OFFSET_FROM_BIT_def unat_mod u)
qed

lemma set_frame_eq:
  assumes "f < 1048576"
  shows "set_frame (frame_address_of f) s = s\<lparr>mem := wr32 (mem s) (frames s + 4 * of_nat (f div 32))
    (rd32 (mem s) (frames s + 4 * of_nat (f div 32)) OR push_bit (f mod 32) 1)\<rparr>"
  unfolding set_frame_def Let_def frame_word(1) [OF assms] unfolding frame_word(2,3) [OF assms] ..

lemma clear_frame_eq:
  assumes "f < 1048576"
  shows "clear_frame (frame_address_of f) s = s\<lparr>mem := wr32 (mem s) (frames s + 4 * of_nat (f div 32))
    (rd32 (mem s) (frames s + 4 * of_nat (f div 32)) AND NOT (push_bit (f mod 32) 1))\<rparr>"
  unfolding clear_frame_def Let_def frame_word(1) [OF assms] unfolding frame_word(2,3) [OF assms] ..

lemma test_frame_eq:
  assumes "f < 1048576"
  shows "test_frame (frame_address_of f) s \<noteq> 0 \<longleftrightarrow> frame_used s f"
proof -
  let ?w = "rd32 (mem s) (frames s + 4 * of_nat (f div 32))"
  have "test_frame (frame_address_of f) s = ?w AND push_bit (f mod 32) 1"
    unfolding test_frame_def Let_def frame_word(1) [OF assms] unfolding frame_word(2,3) [OF assms] ..
  moreover have "?w AND push_bit (f mod 32) 1 \<noteq> 0 \<longleftrightarrow> bit ?w (f mod 32)"
    by (simp add: push_bit_of_1 and_exp_eq_0_iff_not_bit)
  ultimately show ?thesis by (simp add: frame_used_def)
qed

lemma frame_used_upd:
  assumes ok: "bitmap_ok s n" and f: "f div 32 < n" and g: "g div 32 < n"
  shows "frame_used (s\<lparr>mem := wr32 (mem s) (frames s + 4 * of_nat (f div 32)) w\<rparr>) g \<longleftrightarrow>
    (if g div 32 = f div 32 then bit w (g mod 32) else frame_used s g)"
proof -
  have "words (wr32 (mem s) (frames s + 4 * of_nat (f div 32)) w) (frames s) n = (words (mem s) (frames s) n)[f div 32 := w]"
    using ok f by (intro words_wr32) (simp_all add: bitmap_ok_def)
  then have "words (wr32 (mem s) (frames s + 4 * of_nat (f div 32)) w) (frames s) n ! (g div 32)
      = (words (mem s) (frames s) n)[f div 32 := w] ! (g div 32)" by simp
  then show ?thesis using f g by (auto simp: frame_used_def)
qed

lemma frame_small: "bitmap_ok s n \<Longrightarrow> f div 32 < n \<Longrightarrow> f < 1048576"
  by (simp add: bitmap_ok_def) linarith

lemma frame_eq_split: "(g::nat) div 32 = f div 32 \<Longrightarrow> g mod 32 = f mod 32 \<longleftrightarrow> g = f"
  by (metis div_mod_decomp)

lemma set_frame_used:
  assumes "bitmap_ok s n" "f div 32 < n" "g div 32 < n"
  shows "frame_used (set_frame (frame_address_of f) s) g \<longleftrightarrow> g = f \<or> frame_used s g"
proof -
  note s = set_frame_eq [OF frame_small [OF assms(1,2)]]
  show ?thesis
    unfolding s frame_used_upd [OF assms] using frame_eq_split [of g f]
    by (auto simp: frame_used_def bit_simps)
qed

lemma clear_frame_used:
  assumes "bitmap_ok s n" "f div 32 < n" "g div 32 < n"
  shows "frame_used (clear_frame (frame_address_of f) s) g \<longleftrightarrow> g \<noteq> f \<and> frame_used s g"
proof -
  note s = clear_frame_eq [OF frame_small [OF assms(1,2)]]
  show ?thesis
    unfolding s frame_used_upd [OF assms] using frame_eq_split [of g f]
    by (auto simp: frame_used_def bit_simps)
qed


lemma set_frame_ok: "bitmap_ok (set_frame a s) n = bitmap_ok s n"
  by (simp add: set_frame_def Let_def bitmap_ok_def)

lemma clear_frame_ok: "bitmap_ok (clear_frame a s) n = bitmap_ok s n"
  by (simp add: clear_frame_def Let_def bitmap_ok_def)

text \<open>
  What a client of the bitmap relies on: frames can be put in and taken out of the set of
  used frames without touching the others.
\<close>

locale frame_store =
  fixes ok :: "'s \<Rightarrow> bool"
    and valid :: "nat \<Rightarrow> bool"
    and used :: "'s \<Rightarrow> nat \<Rightarrow> bool"
    and mark :: "nat \<Rightarrow> 's \<Rightarrow> 's"
    and unmark :: "nat \<Rightarrow> 's \<Rightarrow> 's"
  assumes mark_ok: "ok s \<Longrightarrow> ok (mark f s)"
    and unmark_ok: "ok s \<Longrightarrow> ok (unmark f s)"
    and used_mark: "ok s \<Longrightarrow> valid f \<Longrightarrow> valid g \<Longrightarrow> used (mark f s) g \<longleftrightarrow> g = f \<or> used s g"
    and used_unmark: "ok s \<Longrightarrow> valid f \<Longrightarrow> valid g \<Longrightarrow> used (unmark f s) g \<longleftrightarrow> g \<noteq> f \<and> used s g"
begin

lemma unmark_mark:
  "ok s \<Longrightarrow> valid f \<Longrightarrow> valid g \<Longrightarrow> \<not> used s f \<Longrightarrow> used (unmark f (mark f s)) g = used s g"
  by (auto simp: used_unmark used_mark mark_ok)

lemma mark_all:
  "ok s \<Longrightarrow> \<forall>f \<in> set fs. valid f \<Longrightarrow> valid g \<Longrightarrow> used (fold mark fs s) g \<longleftrightarrow> g \<in> set fs \<or> used s g"
  by (induction fs arbitrary: s) (auto simp: used_mark mark_ok)

lemma unmark_all:
  "ok s \<Longrightarrow> \<forall>f \<in> set fs. valid f \<Longrightarrow> valid g \<Longrightarrow> used (fold unmark fs s) g \<longleftrightarrow> g \<notin> set fs \<and> used s g"
  by (induction fs arbitrary: s) (auto simp: used_unmark unmark_ok)

end

interpretation bitmap: frame_store "\<lambda>s. bitmap_ok s n" "\<lambda>f. f div 32 < n" frame_used
  "\<lambda>f. set_frame (frame_address_of f)" "\<lambda>f. clear_frame (frame_address_of f)" for n
  by unfold_locales (simp_all add: set_frame_ok clear_frame_ok set_frame_used clear_frame_used)

text \<open>
  C24: the bitmap is a set of frames: after set_frame on a list of frames and clear_frame on
  another, test_frame on a frame is nonzero exactly when the frame was not cleared and was
  set or had been set before.
\<close>

theorem frame_bitmap_is_a_set:
  assumes ok: "bitmap_ok s n" and fs: "\<forall>f \<in> set fs. f div 32 < n" and gs: "\<forall>g \<in> set gs. g div 32 < n"
    and f: "f div 32 < n"
  shows "test_frame (frame_address_of f) (fold (\<lambda>g. clear_frame (frame_address_of g)) gs
      (fold (\<lambda>f. set_frame (frame_address_of f)) fs s)) \<noteq> 0
    \<longleftrightarrow> f \<notin> set gs \<and> (f \<in> set fs \<or> test_frame (frame_address_of f) s \<noteq> 0)"
proof -
  have "bitmap_ok (fold (\<lambda>f. set_frame (frame_address_of f)) fs s) n"
    using ok by (induction fs arbitrary: s) (simp_all add: set_frame_ok)
  then show ?thesis
    unfolding test_frame_eq [OF frame_small [OF ok f]]
    using bitmap.unmark_all [OF _ gs f] bitmap.mark_all [OF ok fs f] by blast
qed

theorem frame_bitmap_is_a_set_witness:
  "test_frame (frame_address_of 33) (set_frame (frame_address_of 33) (boot_kstate (\<lambda>_. 0) 0x106000)) \<noteq> 0"
proof -
  have "bitmap_ok (boot_kstate (\<lambda>_. 0) 0x106000) 128" by (simp add: bitmap_ok_def boot_kstate_def)
  from frame_bitmap_is_a_set [OF this, of "[33]" "[]" 33] show ?thesis by simp
qed

section \<open>first_frame\<close>

lemma first_free_bit_spec:
  assumes "j \<le> 32"
  shows "first_free_bit w j = (case find (\<lambda>k. \<not> bit w k) [unat j ..< 32] of None \<Rightarrow> None | Some k \<Rightarrow> Some (of_nat k))"
  using assms
proof (induction w j rule: first_free_bit.induct)
  case (1 w j)
  show ?case
  proof (cases "j < 32")
    case True
    then have u: "unat j < 32" "unat (j + 1) = unat j + 1"
      by (simp_all add: word_less_nat_alt unat_plus_no_wrap)
    have "j + 1 \<le> 32" using u by (simp add: word_le_nat_alt)
    moreover have "w AND push_bit (unat j) 1 = 0 \<longleftrightarrow> \<not> bit w (unat j)"
      by (simp add: push_bit_of_1 and_exp_eq_0_iff_not_bit)
    moreover have "[unat j ..< 32] = unat j # [unat (j + 1) ..< 32]" using u by (simp add: upt_rec)
    ultimately show ?thesis
      using True 1 by (subst first_free_bit.simps) (simp add: Let_def)
  next
    case False
    then have "unat j \<ge> 32" by (simp add: not_less word_le_nat_alt)
    then show ?thesis using False by (subst first_free_bit.simps) simp
  qed
qed


lemma find_map_upt:
  "find P [32 * i ..< 32 * Suc i] = map_option (\<lambda>k. 32 * i + k) (find (\<lambda>k. P (32 * i + k)) [0..<32])"
proof -
  have "[32 * i ..< 32 * Suc i] = map (\<lambda>k. k + 32 * i) [0..<32]" by (simp add: map_add_upt)
  moreover have "find P (map g xs) = map_option g (find (P \<circ> g) xs)" for g :: "nat \<Rightarrow> nat" and xs
    by (induction xs) auto
  ultimately show ?thesis by (simp add: comp_def add.commute)
qed

lemma find_append: "find P (xs @ ys) = (case find P xs of None \<Rightarrow> find P ys | Some x \<Rightarrow> Some x)"
  by (induction xs) auto

definition bit_at :: "memory \<Rightarrow> uint32 \<Rightarrow> nat \<Rightarrow> bool" where
  "bit_at m b f \<longleftrightarrow> bit (rd32 m (b + 4 * of_nat (f div 32))) (f mod 32)"

lemma first_frame_loop_spec:
  assumes "i \<le> n" "unat n \<le> 32768"
  shows "first_frame_loop m b n i =
    map_option of_nat (find (\<lambda>f. \<not> bit_at m b f) [32 * unat i ..< 32 * unat n])"
  using assms
proof (induction m b n i rule: first_frame_loop.induct)
  case (1 m b n i)
  let ?P = "\<lambda>f. \<not> bit_at m b f" and ?w = "rd32 m (b + 4 * i)"
  show ?case
  proof (cases "i < n")
    case True
    have u: "unat (i + 1) = unat i + 1" "unat i < unat n"
      using True 1(4) by (simp_all add: word_less_nat_alt unat_plus_no_wrap)
    have le: "i + 1 \<le> n" using u by (simp add: word_le_nat_alt)
    have bits: "find (\<lambda>k. ?P (32 * unat i + k)) [0..<32] = find (\<lambda>k. \<not> bit ?w k) [0..<32]"
      by (rule find_cong) (auto simp: bit_at_def)
    have "[32 * unat i ..< 32 * unat n] = [32 * unat i ..< 32 * Suc (unat i)] @ [32 * unat (i + 1) ..< 32 * unat n]"
      using u upt_add_eq_append [of "32 * unat i" "32 * Suc (unat i)" "32 * unat n - 32 * Suc (unat i)"] by simp
    then have split: "find ?P [32 * unat i ..< 32 * unat n] =
      (case find (\<lambda>k. \<not> bit ?w k) [0..<32] of None \<Rightarrow> find ?P [32 * unat (i + 1) ..< 32 * unat n]
         | Some k \<Rightarrow> Some (32 * unat i + k))"
      by (simp only: find_append find_map_upt bits) (simp split: option.splits)
    have IH: "first_frame_loop m b n (i + 1) = map_option of_nat (find ?P [32 * unat (i + 1) ..< 32 * unat n])"
      if "?w \<noteq> 0xFFFFFFFF \<Longrightarrow> find (\<lambda>k. \<not> bit ?w k) [0..<32] = None"
      using that 1(1,2) [OF True] le 1(4) first_free_bit_spec [of 0 ?w] by (cases "?w = 0xFFFFFFFF") auto
    have full: "find (\<lambda>k. \<not> bit ?w k) [0..<32] = None" if "?w = 0xFFFFFFFF"
    proof -
      have "?w = -1" using that by simp
      then show ?thesis by (simp only: find_None_iff bit_minus_1_iff) simp
    qed
    show ?thesis
      using True split IH full first_free_bit_spec [of 0 ?w]
      by (subst first_frame_loop.simps) (auto split: option.splits simp: mult.commute)
  next
    case False
    then have "unat n \<le> unat i" by (simp add: not_less word_le_nat_alt)
    then show ?thesis using False by (subst first_frame_loop.simps) simp
  qed
qed

lemma first_frame_eq:
  assumes "bitmap_ok s (unat (frame_count s) div 32)"
  shows "first_frame s = (case find (\<lambda>f. \<not> frame_used s f) [0 ..< 32 * (unat (frame_count s) div 32)] of
    None \<Rightarrow> Inl NoReturnValue | Some f \<Rightarrow> Inr (of_nat f))"
proof -
  have u: "unat (INDEX_FROM_BIT (frame_count s)) = unat (frame_count s) div 32"
    by (simp add: INDEX_FROM_BIT_def unat_div)
  then have "unat (INDEX_FROM_BIT (frame_count s)) \<le> 32768" using assms by (simp add: bitmap_ok_def)
  from first_frame_loop_spec [of 0, OF _ this] show ?thesis
    by (simp add: first_frame_def u bit_at_def frame_used_def [abs_def] split: option.splits)
qed

text \<open>
  first_frame returns the least frame below frame_count that is not marked; when every
  frame is marked it falls off the end of the function, whose value alloc_frame then uses:
  the value -1 that alloc_frame tests for is never returned.
\<close>

lemma first_frame_least_free:
  assumes "bitmap_ok s (unat (frame_count s) div 32)"
  shows "(case first_frame s of
      Inr w \<Rightarrow> w \<noteq> -1 \<and> \<not> frame_used s (unat w) \<and> unat w < 32 * (unat (frame_count s) div 32)
        \<and> (\<forall>g < unat w. frame_used s g)
    | Inl e \<Rightarrow> e = NoReturnValue \<and> (\<forall>g < 32 * (unat (frame_count s) div 32). frame_used s g))"
proof (cases "find (\<lambda>f. \<not> frame_used s f) [0 ..< 32 * (unat (frame_count s) div 32)]")
  case None
  then have "first_frame s = Inl NoReturnValue" by (simp only: first_frame_eq [OF assms] option.case)
  then show ?thesis using None by (simp add: find_None_iff)
next
  case (Some f)
  let ?N = "32 * (unat (frame_count s) div 32)"
  from Some obtain i where i: "i < ?N" "f = i" "\<not> frame_used s i" "\<forall>j < i. frame_used s j"
    by (auto simp: find_Some_iff)
  have "i < 1048576" using i(1) assms by (simp add: bitmap_ok_def)
  then have u: "unat (of_nat i :: uint32) = i" by (intro unat_of_nat32) simp
  moreover have "(of_nat i :: uint32) \<noteq> -1"
  proof
    assume "(of_nat i :: uint32) = -1"
    then have "(of_nat (i + 1) :: uint32) = 0" by simp
    moreover have "unat (of_nat (i + 1) :: uint32) = i + 1"
      using \<open>i < 1048576\<close> by (intro unat_of_nat32) simp
    ultimately show False by simp
  qed
  ultimately show ?thesis using Some i by (simp add: first_frame_eq [OF assms])
qed

section \<open>Page entries\<close>

lemma page_word_page: "page_of_word (word_of_page pg) = pg"
proof (cases pg)
  case (fields a b c d e u f)
  have "(ucast (drop_bit 5 (word_of_page pg)) :: 7 word) = u"
    by (rule bit_word_eqI) (auto simp: fields word_of_page_def bit_simps)
  moreover have "(ucast (drop_bit 12 (word_of_page pg)) :: 20 word) = f"
    by (rule bit_word_eqI) (auto simp: fields word_of_page_def bit_simps dest: bit_imp_le_length)
  ultimately show ?thesis
    by (simp add: page_of_word_def) (simp add: fields word_of_page_def bit_simps)
qed

lemma load_store_page: "load_page (store_page m p pg) p = pg"
  by (simp add: load_page_def store_page_def page_word_page)

lemma word_page_word: "word_of_page (page_of_word w) = w"
proof (rule bit_word_eqI)
  fix n assume "n < LENGTH(32)"
  then consider "n = 0" | "n = 1" | "n = 2" | "n = 3" | "n = 4" | "5 \<le> n" "n < 12" | "12 \<le> n" "n < 32"
    by (simp, linarith)
  then show "bit (word_of_page (page_of_word w)) n = bit w n"
    by cases (auto simp: word_of_page_def page_of_word_def bit_simps)
qed

text \<open>
  The bit fields of a page entry occupy disjoint bits: reading back what was stored
  gives the same fields, and a word is determined by its fields.
\<close>

lemma page_entry_round_trip:
  "load_page (store_page m p pg) p = pg \<and> word_of_page (page_of_word w) = w"
  by (simp add: load_store_page word_page_word)

section \<open>alloc_frame and free_frame\<close>

text \<open>The page entry at \<open>p\<close> is a whole word outside the bitmap of \<open>n\<close> words.\<close>

definition entry_outside :: "kstate \<Rightarrow> nat \<Rightarrow> uint32 \<Rightarrow> bool" where
  "entry_outside s n p \<longleftrightarrow> unat p + 4 \<le> 4294967296
     \<and> (unat p + 4 \<le> unat (frames s) \<or> unat (frames s) + 4 * n \<le> unat p)"

lemma bitmap_word_bounds:
  assumes "bitmap_ok s n" "k < n"
  shows "unat (frames s + 4 * of_nat k) = unat (frames s) + 4 * k" "unat (frames s) + 4 * k + 4 \<le> 4294967296"
  using assms unat_word_index [of "frames s" k] by (simp_all add: bitmap_ok_def)

lemma bitmap_store_page:
  assumes "bitmap_ok s n" "entry_outside s n p" "g div 32 < n"
  shows "frame_used (s\<lparr>mem := wr32 (mem s) p w\<rparr>) g = frame_used s g"
proof -
  note b = bitmap_word_bounds [OF assms(1,3)]
  have "rd32 (wr32 (mem s) p w) (frames s + 4 * of_nat (g div 32)) = rd32 (mem s) (frames s + 4 * of_nat (g div 32))"
    using assms(2,3) b by (intro rd32_wr32_disj) (auto simp: entry_outside_def)
  then show ?thesis by (simp add: frame_used_def)
qed

lemma bitmap_write_entry:
  assumes "bitmap_ok s n" "entry_outside s n p" "k < n"
  shows "rd32 (wr32 (mem s) (frames s + 4 * of_nat k) w) p = rd32 (mem s) p"
  using assms bitmap_word_bounds [OF assms(1,3)] by (intro rd32_wr32_disj) (auto simp: entry_outside_def)

text \<open>What alloc_frame writes: a word of the bitmap and the entry.\<close>

lemma alloc_frame_step:
  assumes ok: "bitmap_ok s n" "n = unat (frame_count s) div 32" and p: "entry_outside s n p"
    and none: "frame (load_page (mem s) p) = 0"
    and f: "f < 32 * n" "\<not> frame_used s f" "\<forall>g < f. frame_used s g"
  shows "\<exists>m'. alloc_frame p k w s = Inr (s\<lparr>mem := m'\<rparr>)
    \<and> load_page m' p = (load_page (mem s) p)\<lparr>present := True, rw := (w \<noteq> 0), user := (k = 0), frame := of_nat f\<rparr>
    \<and> (\<forall>g < 32 * n. frame_used (s\<lparr>mem := m'\<rparr>) g \<longleftrightarrow> g = f \<or> frame_used s g)
    \<and> mem_eq_on (- ({unat (frames s) + 4 * (f div 32) ..< unat (frames s) + 4 * (f div 32) + 4} \<union> {unat p ..< unat p + 4})) (mem s) m'"
proof -
  have "find (\<lambda>f. \<not> frame_used s f) [0 ..< 32 * n] = Some f"
    using f by (auto simp: find_Some_iff)
  then have ff: "first_frame s = Inr (of_nat f)" using first_frame_eq [of s] ok by simp
  have fn: "f div 32 < n" using f(1) by (simp add: less_mult_imp_div_less mult.commute)
  note small = frame_small [OF ok(1) fn]
  have u: "unat (of_nat f :: uint32) = f" using small by (intro unat_of_nat32) simp
  have ne: "(of_nat f :: uint32) \<noteq> -1"
  proof
    assume "(of_nat f :: uint32) = -1"
    then have "(of_nat (f + 1) :: uint32) = 0" by simp
    moreover have "unat (of_nat (f + 1) :: uint32) = f + 1" using small by (intro unat_of_nat32) simp
    ultimately show False by simp
  qed
  let ?s1 = "set_frame (frame_address_of f) s"
  have s1: "?s1 = s\<lparr>mem := mem ?s1\<rparr>" "frames ?s1 = frames s"
    by (simp_all add: set_frame_eq [OF small])
  have ld: "load_page (mem ?s1) p = load_page (mem s) p"
    by (simp add: set_frame_eq [OF small] load_page_def bitmap_write_entry [OF ok(1) p fn])
  have uc: "ucast (of_nat f :: uint32) = (of_nat f :: 20 word)"
    using u by (metis of_nat_unat)
  let ?pg = "(load_page (mem s) p)\<lparr>present := True, rw := (w \<noteq> 0), user := (k = 0), frame := of_nat f\<rparr>"
  let ?s' = "?s1\<lparr>mem := store_page (mem ?s1) p ?pg\<rparr>"
  have al: "alloc_frame p k w s = Inr ?s'"
    unfolding alloc_frame_def using none ff ne
    by (simp add: Let_def ld [unfolded frame_address_of_def] uc frame_address_of_def)
  have "load_page (mem ?s') p = ?pg" by (simp add: load_store_page)
  moreover have "frame_used ?s' g \<longleftrightarrow> g = f \<or> frame_used s g" if "g < 32 * n" for g
  proof -
    have gn: "g div 32 < n" using that by (simp add: less_mult_imp_div_less mult.commute)
    have "bitmap_ok ?s1 n" "entry_outside ?s1 n p" using ok(1) p s1(2) by (simp_all add: set_frame_ok entry_outside_def)
    then have "frame_used ?s' g = frame_used ?s1 g" using bitmap_store_page [OF _ _ gn] by (simp add: store_page_def)
    then show ?thesis using set_frame_used [OF ok(1) fn gn] by simp
  qed
  moreover have "?s' = s\<lparr>mem := mem ?s'\<rparr>" by (simp add: set_frame_eq [OF small])
  moreover have "mem_eq_on (- ({unat (frames s) + 4 * (f div 32) ..< unat (frames s) + 4 * (f div 32) + 4}
      \<union> {unat p ..< unat p + 4})) (mem s) (wr32 (wr32 (mem s) (frames s + 4 * of_nat (f div 32)) v) p x)" for v x
    using bitmap_word_bounds [OF ok(1) fn] p unfolding entry_outside_def
    by (intro mem_eq_on_wr32_step mem_eq_on_refl) auto
  then have "mem_eq_on (- ({unat (frames s) + 4 * (f div 32) ..< unat (frames s) + 4 * (f div 32) + 4}
      \<union> {unat p ..< unat p + 4})) (mem s) (mem ?s')"
    by (simp add: set_frame_eq [OF small] store_page_def)
  ultimately show ?thesis using al by (intro exI [of _ "mem ?s'"]) simp
qed

text \<open>
  C22: alloc_frame on an entry without a frame takes the least unmarked frame: the entry
  becomes present, writeable and user-accessible as asked, keeps its other fields, and
  points to that frame; exactly that frame becomes marked.
\<close>

theorem alloc_frame_takes_least:
  assumes ok: "bitmap_ok s n" "n = unat (frame_count s) div 32" and p: "entry_outside s n p"
    and none: "frame (load_page (mem s) p) = 0"
    and f: "f < 32 * n" "\<not> frame_used s f" "\<forall>g < f. frame_used s g"
  shows "\<exists>s'. alloc_frame p k w s = Inr s'
    \<and> load_page (mem s') p = (load_page (mem s) p)\<lparr>present := True, rw := (w \<noteq> 0), user := (k = 0), frame := of_nat f\<rparr>
    \<and> (\<forall>g < 32 * n. frame_used s' g \<longleftrightarrow> g = f \<or> frame_used s g)"
  using alloc_frame_step [OF assms] by fastforce

text \<open>
  C23: free_frame clears the entry's frame field but leaves the entry present, and the frame
  stays marked: the bit it clears is that of frame f / 4096, because it passes the frame
  number to clear_frame, which expects an address. With 16 MiB of memory that is always the
  bit of frame 0, so no frame is ever given back and frame 0 is offered again.
\<close>

theorem free_frame_frees_the_wrong_frame:
  assumes ok: "bitmap_ok s n" and p: "entry_outside s n p" and n: "0 < n"
    and f: "frame (load_page (mem s) p) = of_nat f" "0 < f" "f < 32 * n" "f < 4096"
  shows "load_page (mem (free_frame p s)) p = (load_page (mem s) p)\<lparr>frame := 0\<rparr>
    \<and> frame_used (free_frame p s) f = frame_used s f
    \<and> \<not> frame_used (free_frame p s) 0
    \<and> (\<forall>g. 0 < g \<longrightarrow> g < 32 * n \<longrightarrow> frame_used (free_frame p s) g = frame_used s g)"
proof -
  have uf: "unat (of_nat f :: 20 word) = f" using f(4) by (simp add: unat_of_nat)
  let ?fr = "ucast (of_nat f :: 20 word) :: uint32"
  have fr: "?fr = of_nat f" using uf by (metis of_nat_unat)
  have u: "unat (of_nat f :: uint32) = f" using f(4) by (intro unat_of_nat32) simp
  have fr0: "?fr \<noteq> 0" unfolding fr using u f(2) by (metis unat_0 less_irrefl)
  have "unat ((of_nat f :: uint32) div 0x1000) = 0" using u f(4) by (simp add: unat_div)
  then have "(of_nat f :: uint32) div 0x1000 = 0" by (simp only: unat_eq_zero)
  then have cl: "clear_frame (of_nat f) s = clear_frame (frame_address_of 0) s"
    by (simp add: clear_frame_def frame_address_of_def)
  let ?s1 = "clear_frame (frame_address_of 0) s"
  have n0: "0 div 32 < n" using n by simp
  have s1: "frames ?s1 = frames s" by (simp add: clear_frame_def Let_def)
  have ld: "load_page (mem ?s1) p = load_page (mem s) p"
    using bitmap_write_entry [OF ok p n0] by (simp add: clear_frame_eq load_page_def)
  have fe: "free_frame p s = ?s1\<lparr>mem := store_page (mem ?s1) p ((load_page (mem s) p)\<lparr>frame := 0\<rparr>)\<rparr>"
    using fr0 unfolding free_frame_def f(1) Let_def fr cl by (simp add: ld fr)
  have used: "frame_used (free_frame p s) g \<longleftrightarrow> g \<noteq> 0 \<and> frame_used s g" if "g < 32 * n" for g
  proof -
    have gn: "g div 32 < n" using that by (simp add: less_mult_imp_div_less mult.commute)
    have "bitmap_ok ?s1 n" "entry_outside ?s1 n p" using ok p s1 by (simp_all add: clear_frame_ok entry_outside_def)
    then have "frame_used (free_frame p s) g = frame_used ?s1 g"
      using bitmap_store_page [OF _ _ gn] by (simp add: fe store_page_def)
    then show ?thesis using clear_frame_used [OF ok n0 gn] by simp
  qed
  have "load_page (mem (free_frame p s)) p = (load_page (mem s) p)\<lparr>frame := 0\<rparr>"
    unfolding fe by (simp add: load_store_page)
  then show ?thesis using used f(2,3) n by auto
qed


section \<open>A concrete bitmap\<close>

text \<open>The bitmap at 0x1000 with 128 words, frame 0 marked, and a page entry at 0x8000.\<close>

definition demo_frames :: kstate where
  "demo_frames = (boot_kstate (wr32 (\<lambda>_. 0) 0x1000 1) 0x106000)\<lparr>frames := 0x1000, frame_count := 4096\<rparr>"

lemma demo_frames_ok: "bitmap_ok demo_frames 128" "entry_outside demo_frames 128 0x8000"
  by (simp_all add: demo_frames_def bitmap_ok_def entry_outside_def boot_kstate_def)

lemma demo_frames_used: "frame_used demo_frames 0" "\<not> frame_used demo_frames 1"
  by (simp_all add: demo_frames_def frame_used_def boot_kstate_def)

lemma demo_frames_entry: "load_page (mem demo_frames) 0x8000 = page_of_word 0"
proof -
  have "rd32 (wr32 (\<lambda>_. 0) 0x1000 1) 0x8000 = rd32 (\<lambda>_. 0) (0x8000 :: uint32)"
    by (rule rd32_wr32_disj) simp_all
  then show ?thesis by (simp add: load_page_def demo_frames_def boot_kstate_def rd32_def)
qed

theorem alloc_frame_takes_least_witness:
  "\<exists>s'. alloc_frame 0x8000 0 1 demo_frames = Inr s' \<and> frame (load_page (mem s') 0x8000) = 1 \<and> frame_used s' 1"
proof -
  have "frame (load_page (mem demo_frames) 0x8000) = 0" by (simp add: demo_frames_entry page_of_word_def)
  from alloc_frame_takes_least [OF demo_frames_ok(1) _ demo_frames_ok(2) this, of 1 0 1]
  show ?thesis using demo_frames_used by (auto simp: demo_frames_def boot_kstate_def)
qed

theorem free_frame_frees_the_wrong_frame_witness:
  "\<exists>s. frame (load_page (mem s) 0x8000) = 5 \<and> \<not> frame_used (free_frame 0x8000 s) 0"
proof -
  let ?s = "demo_frames\<lparr>mem := store_page (mem demo_frames) 0x8000 ((page_of_word 0)\<lparr>frame := 5\<rparr>)\<rparr>"
  have f: "frame (load_page (mem ?s) 0x8000) = of_nat 5" by (simp add: load_store_page)
  have "bitmap_ok ?s 128" "entry_outside ?s 128 0x8000"
    using demo_frames_ok by (simp_all add: bitmap_ok_def entry_outside_def)
  from free_frame_frees_the_wrong_frame [OF this _ f] have "\<not> frame_used (free_frame 0x8000 ?s) 0" by simp
  then show ?thesis using f by (intro exI [of _ ?s]) simp
qed

end
