(* ===== verification/DescriptorTables.thy ===== *)
theory DescriptorTables
  imports KState
begin

text \<open>
  src/descriptor_tables/descriptor_tables.c and .h: the global and the interrupt descriptor
  tables, their packed entries, and the initialisation of the interrupt controllers. The
  addresses the linker gives (of the tables and of the assembler stubs) are parameters;
  gdt_flush and idt_flush load the table register from the pointer structure.
\<close>

section \<open>The structures\<close>

record gdt_entry_t =
  limit_low :: uint16
  base_low :: uint16
  base_middle :: uint8
  access :: uint8
  granularity :: uint8
  base_high :: uint8

record gdt_ptr_t =
  gdt_limit :: uint16
  gdt_base :: size_t

record idt_entry_t =
  base_lo :: uint16
  sel :: uint16
  always0 :: uint8
  flags :: uint8
  base_hi :: uint16

record idt_ptr_t =
  idt_limit :: uint16
  idt_base :: size_t

text \<open>
  \<open>gdtr\<close> and \<open>idtr\<close> are what gdt_flush and idt_flush have loaded; \<open>dt_ports\<close> the outb calls.
\<close>

record dt_state =
  gdt_entries :: "gdt_entry_t list"
  gdt_ptr :: gdt_ptr_t
  idt_entries :: "idt_entry_t list"
  idt_ptr :: idt_ptr_t
  gdtr :: "gdt_ptr_t option"
  idtr :: "idt_ptr_t option"
  dt_ports :: "(uint16 \<times> uint8) list"

definition zero_gdt_entry :: gdt_entry_t where
  "zero_gdt_entry = \<lparr>limit_low = 0, base_low = 0, base_middle = 0, access = 0, granularity = 0, base_high = 0\<rparr>"

definition zero_idt_entry :: idt_entry_t where
  "zero_idt_entry = \<lparr>base_lo = 0, sel = 0, always0 = 0, flags = 0, base_hi = 0\<rparr>"

definition initial_dt_state :: dt_state where
  "initial_dt_state = \<lparr>gdt_entries = replicate 5 zero_gdt_entry, gdt_ptr = \<lparr>gdt_limit = 0, gdt_base = 0\<rparr>,
     idt_entries = replicate 256 zero_idt_entry, idt_ptr = \<lparr>idt_limit = 0, idt_base = 0\<rparr>,
     gdtr = None, idtr = None, dt_ports = []\<rparr>"

section \<open>The global descriptor table\<close>

definition make_gdt_entry :: "size_t \<Rightarrow> size_t \<Rightarrow> uint8 \<Rightarrow> uint8 \<Rightarrow> gdt_entry_t" where
  "make_gdt_entry bs limit acc gran =
     \<lparr>limit_low = ucast (limit AND 0xFFFF),
      base_low = ucast (bs AND 0xFFFF),
      base_middle = ucast (drop_bit 16 bs AND 0xFF),
      access = acc,
      granularity = ucast (drop_bit 16 limit AND 0x0F) OR (gran AND 0xF0),
      base_high = ucast (drop_bit 24 bs AND 0xFF)\<rparr>"

definition gdt_set_gate :: "nat \<Rightarrow> size_t \<Rightarrow> size_t \<Rightarrow> uint8 \<Rightarrow> uint8 \<Rightarrow> dt_state \<Rightarrow> dt_state" where
  "gdt_set_gate num bs limit acc gran d =
     d\<lparr>gdt_entries := (gdt_entries d)[num := make_gdt_entry bs limit acc gran]\<rparr>"

definition gdt_flush :: "gdt_ptr_t \<Rightarrow> dt_state \<Rightarrow> dt_state" where
  "gdt_flush p d = d\<lparr>gdtr := Some p\<rparr>"

definition init_gdt :: "size_t \<Rightarrow> dt_state \<Rightarrow> dt_state" where
  "init_gdt gdt_addr d =
     (let d0 = d\<lparr>gdt_ptr := \<lparr>gdt_limit = 8 * 5 - 1, gdt_base = gdt_addr\<rparr>\<rparr>;
          d1 = gdt_set_gate 0 0 0 0 0 d0;
          d2 = gdt_set_gate 1 0 0xFFFFFFFF 0x9A 0xCF d1;
          d3 = gdt_set_gate 2 0 0xFFFFFFFF 0x92 0xCF d2;
          d4 = gdt_set_gate 3 0 0xFFFFFFFF 0xFA 0xCF d3;
          d5 = gdt_set_gate 4 0 0xFFFFFFFF 0xF2 0xCF d4
      in gdt_flush (gdt_ptr d5) d5)"

section \<open>The interrupt descriptor table\<close>

definition make_idt_entry :: "size_t \<Rightarrow> uint16 \<Rightarrow> uint8 \<Rightarrow> idt_entry_t" where
  "make_idt_entry bs sl fl =
     \<lparr>base_lo = ucast (bs AND 0xFFFF), sel = sl, always0 = 0, flags = fl,
      base_hi = ucast (drop_bit 16 bs AND 0xFFFF)\<rparr>"

definition idt_set_gate :: "uint8 \<Rightarrow> size_t \<Rightarrow> uint16 \<Rightarrow> uint8 \<Rightarrow> dt_state \<Rightarrow> dt_state" where
  "idt_set_gate num bs sl fl d =
     d\<lparr>idt_entries := (idt_entries d)[unat num := make_idt_entry bs sl fl]\<rparr>"

definition idt_flush :: "idt_ptr_t \<Rightarrow> dt_state \<Rightarrow> dt_state" where
  "idt_flush p d = d\<lparr>idtr := Some p\<rparr>"

definition dt_outb :: "uint16 \<Rightarrow> uint8 \<Rightarrow> dt_state \<Rightarrow> dt_state" where
  "dt_outb port v d = d\<lparr>dt_ports := dt_ports d @ [(port, v)]\<rparr>"

text \<open>The writes that move the two interrupt controllers to the vectors 0x20 and 0x28.\<close>

definition remap_pic :: "dt_state \<Rightarrow> dt_state" where
  "remap_pic d = fold (\<lambda>(port, v). dt_outb port v)
     [(0x20, 0x11), (0xA0, 0x11), (0x21, 0x20), (0xA1, 0x28), (0x21, 0x04), (0xA1, 0x02),
      (0x21, 0x01), (0xA1, 0x01), (0x21, 0x0), (0xA1, 0x0)] d"

text \<open>
  The assembler stubs: \<open>isr k\<close> is the address of isr0 to isr31, \<open>irq k\<close> that of irq0 to
  irq15. The source writes the 48 calls out, gate k for isr k and gate 32 + k for irq k.
\<close>

definition init_idt :: "(nat \<Rightarrow> size_t) \<Rightarrow> (nat \<Rightarrow> size_t) \<Rightarrow> size_t \<Rightarrow> dt_state \<Rightarrow> dt_state" where
  "init_idt isr irq idt_addr d =
     (let d0 = d\<lparr>idt_ptr := \<lparr>idt_limit = 8 * 256 - 1, idt_base = idt_addr\<rparr>\<rparr>;
          d1 = d0\<lparr>idt_entries := replicate 256 zero_idt_entry\<rparr>;
          d2 = remap_pic d1;
          d3 = fold (\<lambda>k. idt_set_gate (of_nat k) (isr k) 0x08 0x8E) [0..<32] d2;
          d4 = fold (\<lambda>k. idt_set_gate (of_nat (32 + k)) (irq k) 0x08 0x8E) [0..<16] d3
      in idt_flush (idt_ptr d4) d4)"

definition init_descriptor_tables ::
  "(nat \<Rightarrow> size_t) \<Rightarrow> (nat \<Rightarrow> size_t) \<Rightarrow> size_t \<Rightarrow> size_t \<Rightarrow> dt_state \<times> kstate \<Rightarrow> dt_state \<times> kstate" where
  "init_descriptor_tables isr irq gdt_addr idt_addr st =
     (case st of (d, s) \<Rightarrow>
        (init_idt isr irq idt_addr (init_gdt gdt_addr d), s\<lparr>interrupt_handlers := (\<lambda>_. None)\<rparr>))"

section \<open>Decoding, as the processor reads the entries\<close>

definition gdt_entry_base :: "gdt_entry_t \<Rightarrow> uint32" where
  "gdt_entry_base e = ucast (base_low e) OR push_bit 16 (ucast (base_middle e)) OR push_bit 24 (ucast (base_high e))"

definition gdt_entry_limit :: "gdt_entry_t \<Rightarrow> uint32" where
  "gdt_entry_limit e = ucast (limit_low e) OR push_bit 16 (ucast (granularity e AND 0x0F))"

definition idt_entry_base :: "idt_entry_t \<Rightarrow> uint32" where
  "idt_entry_base e = ucast (base_lo e) OR push_bit 16 (ucast (base_hi e))"

text \<open>
  C30: the packed GDT entry decodes to the base, to the low 20 bits of the limit, to the
  access byte and to the high nibble of the granularity it was made from: no field loses
  or overwrites bits of another.
\<close>

theorem gdt_entry_round_trip:
  "gdt_entry_base (make_gdt_entry bs limit acc gran) = bs
    \<and> gdt_entry_limit (make_gdt_entry bs limit acc gran) = take_bit 20 limit
    \<and> access (make_gdt_entry bs limit acc gran) = acc
    \<and> granularity (make_gdt_entry bs limit acc gran) AND 0xF0 = gran AND 0xF0"
proof -
  have m: "(0xFFFF :: uint32) = mask 16" "(0xFF :: uint32) = mask 8" "(0x0F :: uint32) = mask 4"
    "(0x0F :: uint8) = mask 4" "(0xF0 :: uint8) = NOT (mask 4)"
    by (simp_all add: mask_eq_exp_minus_1)
  have "gdt_entry_base (make_gdt_entry bs limit acc gran) = bs"
    unfolding gdt_entry_base_def make_gdt_entry_def m gdt_entry_t.simps
  proof (rule bit_word_eqI)
    fix n assume "n < LENGTH(32)"
    then show "bit (ucast (ucast (bs AND mask 16) :: uint16) OR push_bit 16 (ucast (ucast (drop_bit 16 bs AND mask 8) :: uint8))
        OR push_bit 24 (ucast (ucast (drop_bit 24 bs AND mask 8) :: uint8)) :: uint32) n = bit bs n"
      by (cases "n < 24") (auto simp: bit_simps)
  qed
  moreover have "gdt_entry_limit (make_gdt_entry bs limit acc gran) = take_bit 20 limit"
    unfolding gdt_entry_limit_def make_gdt_entry_def m gdt_entry_t.simps
    by (rule bit_word_eqI) (auto simp: bit_simps)
  moreover have "granularity (make_gdt_entry bs limit acc gran) AND 0xF0 = gran AND 0xF0"
    unfolding make_gdt_entry_def m gdt_entry_t.simps
    by (rule bit_word_eqI) (auto simp: bit_simps)
  ultimately show ?thesis by (simp add: make_gdt_entry_def)
qed

lemma idt_entry_base_make: "idt_entry_base (make_idt_entry bs sl fl) = bs"
proof -
  have m: "(0xFFFF :: uint32) = mask 16" by (simp add: mask_eq_exp_minus_1)
  show ?thesis
    unfolding idt_entry_base_def make_idt_entry_def m idt_entry_t.simps
    by (rule bit_word_eqI) (auto simp: bit_simps)
qed


lemma make_idt_entry_fields:
  "sel (make_idt_entry bs sl fl) = sl" "flags (make_idt_entry bs sl fl) = fl"
  by (simp_all add: make_idt_entry_def)

lemma set_gates:
  assumes "length (idt_entries d) = 256" "b + n \<le> 256"
  shows "idt_entries (fold (\<lambda>k. idt_set_gate (of_nat (b + k)) (f k) sl fl) [0..<n] d) =
    map (\<lambda>i. if b \<le> i \<and> i < b + n then make_idt_entry (f (i - b)) sl fl else idt_entries d ! i) [0..<256]"
  using assms(2)
proof (induction n)
  case 0
  then show ?case using assms(1) by (intro nth_equalityI) auto
next
  case (Suc n)
  have "unat (of_nat (b + n) :: uint8) = b + n" using Suc.prems by (subst unat_of_nat) simp
  then show ?case
    using Suc assms(1) by (intro nth_equalityI) (auto simp: idt_set_gate_def nth_list_update less_Suc_eq)
qed

lemma set_gates_rest:
  "idt_ptr (fold (\<lambda>k. idt_set_gate (g k) (f k) sl fl) ks d) = idt_ptr d"
  "gdt_entries (fold (\<lambda>k. idt_set_gate (g k) (f k) sl fl) ks d) = gdt_entries d"
  "gdtr (fold (\<lambda>k. idt_set_gate (g k) (f k) sl fl) ks d) = gdtr d"
  "dt_ports (fold (\<lambda>k. idt_set_gate (g k) (f k) sl fl) ks d) = dt_ports d"
  by (induction ks arbitrary: d) (simp_all add: idt_set_gate_def)

text \<open>
  C29: after init_descriptor_tables the loaded IDT has 256 entries; vector k below 32 leads
  to isr k and vector 32 + k below 48 to irq k, each a present ring-0 interrupt gate (0x8E)
  in the kernel code segment (selector 8); every other vector is null, and no handler is
  registered.
\<close>

theorem init_descriptor_tables_vectors:
  assumes init: "init_descriptor_tables isr irq gdt_addr idt_addr (d, s) = (d', s')" and i: "i < 256"
  shows "idt_entry_base (idt_entries d' ! i) = (if i < 32 then isr i else if i < 48 then irq (i - 32) else 0)
    \<and> (i < 48 \<longrightarrow> sel (idt_entries d' ! i) = 0x08 \<and> flags (idt_entries d' ! i) = 0x8E)
    \<and> (i \<ge> 48 \<longrightarrow> idt_entries d' ! i = zero_idt_entry)
    \<and> length (idt_entries d') = 256 \<and> idtr d' = Some \<lparr>idt_limit = 2047, idt_base = idt_addr\<rparr>
    \<and> interrupt_handlers s' = (\<lambda>_. None)"
proof -
  let ?d0 = "init_gdt gdt_addr d"
  let ?d2 = "remap_pic (?d0\<lparr>idt_ptr := \<lparr>idt_limit = 2047, idt_base = idt_addr\<rparr>,
    idt_entries := replicate 256 zero_idt_entry\<rparr>)"
  let ?d3 = "fold (\<lambda>k. idt_set_gate (of_nat k) (isr k) 0x08 0x8E) [0..<32] ?d2"
  let ?d4 = "fold (\<lambda>k. idt_set_gate (of_nat (32 + k)) (irq k) 0x08 0x8E) [0..<16] ?d3"
  have d': "d' = idt_flush (idt_ptr ?d4) ?d4" and s': "s' = s\<lparr>interrupt_handlers := (\<lambda>_. None)\<rparr>"
    using init by (auto simp: init_descriptor_tables_def init_idt_def Let_def)
  have e2: "idt_entries ?d2 = replicate 256 zero_idt_entry" "idt_ptr ?d2 = \<lparr>idt_limit = 2047, idt_base = idt_addr\<rparr>"
    by (simp_all add: remap_pic_def dt_outb_def)
  have e3: "idt_entries ?d3 = map (\<lambda>i. if i < 32 then make_idt_entry (isr i) 0x08 0x8E else zero_idt_entry) [0..<256]"
    using set_gates [where d = ?d2 and b = 0 and n = 32 and f = isr and sl = "0x08" and fl = "0x8E"] e2
    by (auto simp: list_eq_iff_nth_eq)
  have e4: "idt_entries ?d4 = map (\<lambda>i. if 32 \<le> i \<and> i < 48 then make_idt_entry (irq (i - 32)) 0x08 0x8E
      else idt_entries ?d3 ! i) [0..<256]"
    using set_gates [where d = ?d3 and b = 32 and n = 16 and f = irq and sl = "0x08" and fl = "0x8E"] e3 by simp
  have z: "idt_entry_base zero_idt_entry = 0" by (simp add: idt_entry_base_def zero_idt_entry_def)
  have "idt_entries d' = idt_entries ?d4" "idtr d' = Some (idt_ptr ?d4)" by (simp_all add: d' idt_flush_def)
  then show ?thesis
    using e4 e3 e2 i s' z by (auto simp: idt_entry_base_make set_gates_rest make_idt_entry_fields)
qed

theorem init_descriptor_tables_vectors_witness:
  "idt_entry_base (idt_entries (fst (init_descriptor_tables (\<lambda>k. 0x100000 + of_nat k) (\<lambda>k. 0x100100 + of_nat k)
      0x104000 0x105000 (initial_dt_state, boot_kstate (\<lambda>_. 0) 0x106000))) ! 33) = 0x100101"
proof -
  let ?r = "init_descriptor_tables (\<lambda>k. 0x100000 + of_nat k) (\<lambda>k. 0x100100 + of_nat k)
      0x104000 0x105000 (initial_dt_state, boot_kstate (\<lambda>_. 0) 0x106000)"
  have "?r = (fst ?r, snd ?r)" by simp
  from init_descriptor_tables_vectors [OF this, of 33] show ?thesis by simp
qed

end
