(* ===== verification/KHeap.thy ===== *)
theory KHeap
  imports Paging
begin

text \<open>
  src/memory/kheap.c: the placement allocator used before paging, and the kernel heap:
  create_heap, alloc, free, expand and contract over headers and footers in memory and an
  ordered index of the holes. alloc, expand, get_page and kmalloc_ap are mutually recursive
  in the source (mapping a new heap page may need a new page table, which comes from the
  heap); here each takes the function it calls back as an argument and \<open>alloc\<close> closes the
  knot, spending one unit of fuel per nested call.
\<close>

section \<open>Headers and footers\<close>

text \<open>
  header_t: magic at 0, is_hole (one byte) at 4, size at 8, 12 bytes in all; footer_t:
  magic at 0, header at 4, 8 bytes in all.
\<close>

definition sizeof_header_t :: size_t where "sizeof_header_t = 12"
definition sizeof_footer_t :: size_t where "sizeof_footer_t = 8"
definition sizeof_heap_t :: size_t where "sizeof_heap_t = 32"
definition sizeof_type_t :: size_t where "sizeof_type_t = 4"

definition hdr_magic :: "memory \<Rightarrow> uint32 \<Rightarrow> size_t" where "hdr_magic m h = rd32 m h"
definition hdr_is_hole :: "memory \<Rightarrow> uint32 \<Rightarrow> uint8" where "hdr_is_hole m h = m (h + 4)"
definition hdr_size :: "memory \<Rightarrow> uint32 \<Rightarrow> size_t" where "hdr_size m h = rd32 m (h + 8)"
definition ftr_magic :: "memory \<Rightarrow> uint32 \<Rightarrow> size_t" where "ftr_magic m f = rd32 m f"
definition ftr_header :: "memory \<Rightarrow> uint32 \<Rightarrow> uint32" where "ftr_header m f = rd32 m (f + 4)"

definition set_hdr_magic :: "uint32 \<Rightarrow> size_t \<Rightarrow> memory \<Rightarrow> memory" where
  "set_hdr_magic h v m = wr32 m h v"
definition set_hdr_is_hole :: "uint32 \<Rightarrow> uint8 \<Rightarrow> memory \<Rightarrow> memory" where
  "set_hdr_is_hole h v m = m(h + 4 := v)"
definition set_hdr_size :: "uint32 \<Rightarrow> size_t \<Rightarrow> memory \<Rightarrow> memory" where
  "set_hdr_size h v m = wr32 m (h + 8) v"
definition set_ftr_magic :: "uint32 \<Rightarrow> size_t \<Rightarrow> memory \<Rightarrow> memory" where
  "set_ftr_magic f v m = wr32 m f v"
definition set_ftr_header :: "uint32 \<Rightarrow> uint32 \<Rightarrow> memory \<Rightarrow> memory" where
  "set_ftr_header f v m = wr32 m (f + 4) v"

definition header_t_less_than :: lessthan_predicate_t where
  "header_t_less_than m a b = (if hdr_size m a < hdr_size m b then 1 else 0)"

section \<open>The heap of the state\<close>

text \<open>The operations receive the heap pointer; the callers pass kheap.\<close>

definition the_heap :: "kstate \<Rightarrow> kerror + heap_t" where
  "the_heap s = (case kheap s of None \<Rightarrow> Inl NullPointer | Some h \<Rightarrow> Inr h)"

definition heap_length :: "heap_t \<Rightarrow> size_t" where
  "heap_length h = end_address h - start_address h"

definition insert_index :: "uint32 \<Rightarrow> kstate \<Rightarrow> kerror + kstate" where
  "insert_index item s =
     res_bind (the_heap s) (\<lambda>h.
     res_bind (insert_ordered_array item (index h) (mem s)) (\<lambda>(ix, m).
       Inr (s\<lparr>mem := m, kheap := Some (h\<lparr>index := ix\<rparr>)\<rparr>)))"

definition remove_index :: "size_t \<Rightarrow> kstate \<Rightarrow> kerror + kstate" where
  "remove_index i s =
     res_bind (the_heap s) (\<lambda>h.
       let (ix, m) = remove_ordered_array i (index h) (mem s)
       in Inr (s\<lparr>mem := m, kheap := Some (h\<lparr>index := ix\<rparr>)\<rparr>))"

definition lookup_index :: "size_t \<Rightarrow> kstate \<Rightarrow> kerror + uint32" where
  "lookup_index i s = res_bind (the_heap s) (\<lambda>h. lookup_ordered_array i (index h) (mem s))"

section \<open>kmalloc_int\<close>

text \<open>
  \<open>alloc_fn\<close> is alloc on kheap. The result is the address, the value stored through phys
  (0 when phys is a null pointer, which \<open>want_phys\<close> tells) and the state.
\<close>

type_synonym alloc_fn = "size_t \<Rightarrow> uint8 \<Rightarrow> kstate \<Rightarrow> kerror + uint32 \<times> kstate"

definition placement_alloc :: "size_t \<Rightarrow> int32 \<Rightarrow> kstate \<Rightarrow> uint32 \<times> kstate" where
  "placement_alloc sz align s =
     (let p = (if align = 1 \<and> placement_address s AND 0x00000FFF \<noteq> 0
               then (placement_address s AND 0xFFFFF000) + PAGE_SIZE
               else placement_address s)
      in (p, s\<lparr>placement_address := p + sz\<rparr>))"

definition kmalloc_int_with ::
  "alloc_fn \<Rightarrow> size_t \<Rightarrow> int32 \<Rightarrow> bool \<Rightarrow> kstate \<Rightarrow> kerror + uint32 \<times> uint32 \<times> kstate" where
  "kmalloc_int_with al sz align want_phys s =
     (case kheap s of
        Some _ \<Rightarrow>
          res_bind (al sz (ucast align) s) (\<lambda>(addr, s1).
            if want_phys then
              res_bind (get_page_with no_alloc addr False (kernel_directory s1) s1) (\<lambda>(page, s2).
                let frame_address = push_bit 12 (ucast (frame (load_page (mem s2) page))) :: size_t;
                    unknown_offset = addr AND 0xFFF
                in Inr (addr, frame_address + unknown_offset, s2))
            else Inr (addr, 0, s1))
      | None \<Rightarrow>
          (let (p, s1) = placement_alloc sz align s
           in Inr (p, if want_phys then p else 0, s1)))"

definition kmalloc_ap_with :: "alloc_fn \<Rightarrow> kmalloc_ap_fn" where
  "kmalloc_ap_with al sz s = kmalloc_int_with al sz 1 True s"

section \<open>expand and contract\<close>

fun expand_loop ::
  "kmalloc_ap_fn \<Rightarrow> nat \<Rightarrow> size_t \<Rightarrow> size_t \<Rightarrow> kstate \<Rightarrow> kerror + kstate" where
  "expand_loop kap 0 i new_size s = Inl OutOfFuel"
| "expand_loop kap (Suc fuel) i new_size s =
     (if i < new_size then
        res_bind (the_heap s) (\<lambda>h.
        res_bind (get_page_with kap (start_address h + i) True (kernel_directory s) s) (\<lambda>(page, s1).
        res_bind (alloc_frame page (if supervisor h \<noteq> 0 then 1 else 0) (if readonly h \<noteq> 0 then 0 else 1) s1)
          (\<lambda>s2. expand_loop kap fuel (i + PAGE_SIZE) new_size s2)))
      else Inr s)"

definition page_round_up :: "size_t \<Rightarrow> size_t" where
  "page_round_up n = (if n AND 0xFFFFF000 \<noteq> 0 then (n AND 0xFFFFF000) + PAGE_SIZE else n)"

text \<open>The number of pages of the address space bounds the loops over pages.\<close>

definition page_fuel :: nat where "page_fuel = 1048577"

definition expand_with :: "alloc_fn \<Rightarrow> size_t \<Rightarrow> kstate \<Rightarrow> kerror + kstate" where
  "expand_with al new_size0 s =
     res_bind (the_heap s) (\<lambda>h.
     res_bind (ASSERT (new_size0 > heap_length h) ''new_size > heap->end_address - heap->start_address'') (\<lambda>_.
       let new_size = page_round_up new_size0
       in res_bind (ASSERT (start_address h + new_size \<le> max_address h)
            ''heap->start_address+new_size <= heap->max_address'') (\<lambda>_.
          res_bind (expand_loop (kmalloc_ap_with al) page_fuel (heap_length h) new_size s) (\<lambda>s1.
          res_bind (the_heap s1) (\<lambda>h1.
            Inr (s1\<lparr>kheap := Some (h1\<lparr>end_address := start_address h1 + new_size\<rparr>)\<rparr>))))))"

fun contract_loop :: "nat \<Rightarrow> size_t \<Rightarrow> size_t \<Rightarrow> kstate \<Rightarrow> kerror + kstate" where
  "contract_loop 0 new_size i s = Inl OutOfFuel"
| "contract_loop (Suc fuel) new_size i s =
     (if new_size < i then
        res_bind (the_heap s) (\<lambda>h.
        res_bind (get_page_with no_alloc (start_address h + i) False (kernel_directory s) s) (\<lambda>(page, s1).
          contract_loop fuel new_size (i - PAGE_SIZE) (free_frame page s1)))
      else Inr s)"

definition contract_size :: "size_t \<Rightarrow> size_t" where
  "contract_size new_size0 =
     (let new_size = (if new_size0 AND PAGE_SIZE \<noteq> 0 then (new_size0 AND PAGE_SIZE) + PAGE_SIZE
                      else new_size0)
      in if new_size < HEAP_MIN_SIZE then HEAP_MIN_SIZE else new_size)"

definition contract :: "size_t \<Rightarrow> kstate \<Rightarrow> kerror + size_t \<times> kstate" where
  "contract new_size0 s =
     res_bind (the_heap s) (\<lambda>h.
     res_bind (ASSERT (new_size0 < heap_length h) ''new_size < heap->end_address-heap->start_address'') (\<lambda>_.
       let new_size = contract_size new_size0
       in res_bind (contract_loop page_fuel new_size (heap_length h - PAGE_SIZE) s) (\<lambda>s1.
          res_bind (the_heap s1) (\<lambda>h1.
            Inr (new_size, s1\<lparr>kheap := Some (h1\<lparr>end_address := start_address h1 + new_size\<rparr>)\<rparr>)))))"

section \<open>find_smallest_hole\<close>

text \<open>
  Whether the hole at \<open>header\<close> takes a request of \<open>size\<close> bytes (headers included). For an
  aligned request the comparison is signed, and the offset is what the data would need to
  start on a page.
\<close>

definition align_offset :: "uint32 \<Rightarrow> int32" where
  "align_offset header =
     (if (header + sizeof_header_t) AND 0x00000FFF \<noteq> 0
      then PAGE_SIZE - ((header + sizeof_header_t) mod PAGE_SIZE) else 0)"

definition hole_fits :: "size_t \<Rightarrow> uint8 \<Rightarrow> memory \<Rightarrow> uint32 \<Rightarrow> bool" where
  "hole_fits sz page_align m header =
     (if page_align > 0 then sint (hdr_size m header - align_offset header) \<ge> sint sz
      else hdr_size m header \<ge> sz)"

function find_loop :: "size_t \<Rightarrow> uint8 \<Rightarrow> ordered_array_t \<Rightarrow> memory \<Rightarrow> size_t \<Rightarrow> kerror + size_t" where
  "find_loop sz page_align ix m iterator =
     (if iterator < oa_size ix then
        res_bind (lookup_ordered_array iterator ix m) (\<lambda>header.
          if hole_fits sz page_align m header then Inr iterator
          else find_loop sz page_align ix m (iterator + 1))
      else Inr iterator)"
  by pat_completeness auto
termination
  by (relation "measure (\<lambda>(sz, p, ix, m, i). unat (oa_size ix - i))") (auto simp: word_loop_measure)

definition find_smallest_hole :: "size_t \<Rightarrow> uint8 \<Rightarrow> kstate \<Rightarrow> kerror + int32" where
  "find_smallest_hole sz page_align s =
     res_bind (the_heap s) (\<lambda>h.
     res_bind (find_loop sz page_align (index h) (mem s) 0) (\<lambda>iterator.
       Inr (if iterator = oa_size (index h) then -1 else iterator)))"

section \<open>create_heap\<close>

definition create_heap_with ::
  "(size_t \<Rightarrow> kstate \<Rightarrow> kerror + uint32 \<times> kstate) \<Rightarrow> size_t \<Rightarrow> size_t \<Rightarrow> size_t \<Rightarrow> uint8 \<Rightarrow> uint8
    \<Rightarrow> kstate \<Rightarrow> kerror + heap_t \<times> kstate" where
  "create_heap_with km start0 end_addr max_addr superv ro s0 =
     res_bind (km sizeof_heap_t s0) (\<lambda>(_, s).
     res_bind (ASSERT (start0 mod PAGE_SIZE = 0) ''start%PAGE_SIZE == 0'') (\<lambda>_.
     res_bind (ASSERT (end_addr mod PAGE_SIZE = 0) ''end_addr%PAGE_SIZE == 0'') (\<lambda>_.
       let (ix, m1) = place_ordered_array start0 HEAP_INDEX_SIZE (Some header_t_less_than) (mem s);
           start1 = start0 + sizeof_type_t * HEAP_INDEX_SIZE;
           start = (if start1 AND 0x00000FFF \<noteq> 0 then (start1 AND 0xFFFFF000) + PAGE_SIZE else start1);
           m2 = set_hdr_is_hole start 1 (set_hdr_magic start HEAP_MAGIC
                  (set_hdr_size start (end_addr - start) m1))
       in res_bind (insert_ordered_array start ix m2) (\<lambda>(ix', m3).
            Inr (\<lparr>index = ix', start_address = start, end_address = end_addr,
                   max_address = max_addr, supervisor = superv, readonly = ro\<rparr>,
                 s\<lparr>mem := m3\<rparr>)))))"

section \<open>alloc\<close>

text \<open>The search for the endmost hole after the heap has grown; -1 when there is none.\<close>

function endmost_loop ::
  "ordered_array_t \<Rightarrow> memory \<Rightarrow> size_t \<Rightarrow> size_t \<Rightarrow> size_t \<Rightarrow> kerror + size_t" where
  "endmost_loop ix m iterator idx value =
     (if iterator < oa_size ix then
        res_bind (lookup_ordered_array iterator ix m) (\<lambda>tmp.
          if tmp > value then endmost_loop ix m (iterator + 1) iterator tmp
          else endmost_loop ix m (iterator + 1) idx value)
      else Inr idx)"
  by pat_completeness auto
termination
  by (relation "measure (\<lambda>(ix, m, i, idx, v). unat (oa_size ix - i))") (auto simp: word_loop_measure)

declare find_loop.simps [simp del] endmost_loop.simps [simp del]

text \<open>The branch of alloc that finds no hole, up to its recursive call.\<close>

definition alloc_grow :: "alloc_fn \<Rightarrow> size_t \<Rightarrow> kstate \<Rightarrow> kerror + kstate" where
  "alloc_grow al new_size s =
     res_bind (the_heap s) (\<lambda>h.
     let old_length = heap_length h; old_end_address = end_address h
     in res_bind (expand_with al (old_length + new_size) s) (\<lambda>s1.
        res_bind (the_heap s1) (\<lambda>h1.
        let new_length = heap_length h1
        in res_bind (endmost_loop (index h1) (mem s1) 0 (-1) 0) (\<lambda>idx.
           if idx = -1 then
             let header = old_end_address;
                 m1 = set_hdr_is_hole header 1 (set_hdr_size header (new_length - old_length)
                        (set_hdr_magic header HEAP_MAGIC (mem s1)));
                 footer = old_end_address + hdr_size m1 header - sizeof_footer_t;
                 m2 = set_ftr_header footer header (set_ftr_magic footer HEAP_MAGIC m1)
             in insert_index header (s1\<lparr>mem := m2\<rparr>)
           else
             res_bind (lookup_index idx s1) (\<lambda>header.
               let m1 = set_hdr_size header (hdr_size (mem s1) header + (new_length - old_length)) (mem s1);
                   footer = header + hdr_size m1 header - sizeof_footer_t;
                   m2 = set_ftr_magic footer HEAP_MAGIC (set_ftr_header footer header m1)
               in Inr (s1\<lparr>mem := m2\<rparr>))))))"

text \<open>The rest of alloc: the block is carved out of the hole at the given index.\<close>

definition write_block :: "uint32 \<Rightarrow> size_t \<Rightarrow> size_t \<Rightarrow> memory \<Rightarrow> memory" where
  "write_block pos sz new_size m =
     (let m1 = set_hdr_size pos new_size (set_hdr_is_hole pos 0 (set_hdr_magic pos HEAP_MAGIC m));
          footer = pos + sizeof_header_t + sz
      in set_ftr_header footer pos (set_ftr_magic footer HEAP_MAGIC m1))"

definition write_rest_hole :: "uint32 \<Rightarrow> size_t \<Rightarrow> size_t \<Rightarrow> memory \<Rightarrow> memory" where
  "write_rest_hole hole rest end_addr m =
     (let m1 = set_hdr_size hole rest (set_hdr_is_hole hole 1 (set_hdr_magic hole HEAP_MAGIC m));
          footer = hole + rest - sizeof_footer_t
      in if footer < end_addr then set_ftr_header footer hole (set_ftr_magic footer HEAP_MAGIC m1)
         else m1)"

text \<open>
  The new position of an aligned block, as the source computes it: + and - bind tighter
  than &, so the mask is 0xFFFFF000 + PAGE_SIZE - sizeof(header_t).
\<close>

definition aligned_location :: "uint32 \<Rightarrow> uint32" where
  "aligned_location orig_hole_pos =
     orig_hole_pos AND (0xFFFFF000 + PAGE_SIZE - sizeof_header_t)"

definition split_for_alignment :: "uint32 \<Rightarrow> memory \<Rightarrow> memory" where
  "split_for_alignment orig_hole_pos m =
     (let new_location = aligned_location orig_hole_pos;
          m1 = set_hdr_is_hole orig_hole_pos 1 (set_hdr_magic orig_hole_pos HEAP_MAGIC
                 (set_hdr_size orig_hole_pos (new_location - orig_hole_pos) m));
          footer = new_location - sizeof_footer_t
      in set_ftr_header footer orig_hole_pos (set_ftr_magic footer HEAP_MAGIC m1))"

definition alloc_place ::
  "size_t \<Rightarrow> size_t \<Rightarrow> uint8 \<Rightarrow> size_t \<Rightarrow> kstate \<Rightarrow> kerror + uint32 \<times> kstate" where
  "alloc_place size0 new_size0 page_align iterator s =
     res_bind (lookup_index iterator s) (\<lambda>orig_hole_header.
     let pos0 = orig_hole_header; hsize0 = hdr_size (mem s) orig_hole_header;
         whole = (hsize0 - new_size0 < sizeof_header_t + sizeof_footer_t);
         sz = (if whole then size0 + (hsize0 - new_size0) else size0);
         new_size = (if whole then hsize0 else new_size0);
         split = (page_align \<noteq> 0 \<and> pos0 AND 0x00000FFF \<noteq> 0)
     in res_bind (if split then Inr (s\<lparr>mem := split_for_alignment pos0 (mem s)\<rparr>)
                  else remove_index iterator s) (\<lambda>s1.
        let pos = (if split then aligned_location pos0 else pos0);
            hsize = (if split then hsize0 - hdr_size (mem s1) pos0 else hsize0);
            s2 = s1\<lparr>mem := write_block pos sz new_size (mem s1)\<rparr>
        in if hsize - new_size > 0 then
             res_bind (the_heap s2) (\<lambda>h.
             let hole = pos + sizeof_header_t + sz + sizeof_footer_t;
                 m = write_rest_hole hole (hsize - new_size) (end_address h) (mem s2)
             in res_bind (insert_index hole (s2\<lparr>mem := m\<rparr>)) (\<lambda>s3.
                  Inr (pos + sizeof_header_t, s3)))
           else Inr (pos + sizeof_header_t, s2)))"

fun alloc :: "nat \<Rightarrow> alloc_fn" where
  "alloc 0 sz page_align s = Inl OutOfFuel"
| "alloc (Suc fuel) sz page_align s =
     (let new_size = sz + sizeof_header_t + sizeof_footer_t
      in res_bind (find_smallest_hole new_size page_align s) (\<lambda>iterator.
         if iterator = -1 then
           res_bind (alloc_grow (alloc fuel) new_size s) (\<lambda>s1. alloc fuel sz page_align s1)
         else alloc_place sz new_size page_align iterator s))"

section \<open>free\<close>

function index_search :: "ordered_array_t \<Rightarrow> memory \<Rightarrow> uint32 \<Rightarrow> size_t \<Rightarrow> kerror + size_t" where
  "index_search ix m item iterator =
     (if iterator < oa_size ix then
        res_bind (lookup_ordered_array iterator ix m) (\<lambda>x.
          if x \<noteq> item then index_search ix m item (iterator + 1) else Inr iterator)
      else Inr iterator)"
  by pat_completeness auto
termination
  by (relation "measure (\<lambda>(ix, m, item, i). unat (oa_size ix - i))") (auto simp: word_loop_measure)

declare index_search.simps [simp del]

text \<open>Unify left: the new header, and whether it must be added to the index (do_add).\<close>

definition unify_left :: "uint32 \<Rightarrow> uint32 \<Rightarrow> memory \<Rightarrow> uint32 \<times> bool \<times> memory" where
  "unify_left header footer m =
     (let test_footer = header - sizeof_footer_t
      in if ftr_magic m test_footer = HEAP_MAGIC \<and> hdr_is_hole m (ftr_header m test_footer) = 1 then
           let cache_size = hdr_size m header;
               header' = ftr_header m test_footer;
               m1 = set_ftr_header footer header' m;
               m2 = set_hdr_size header' (hdr_size m1 header' + cache_size) m1
           in (header', False, m2)
         else (header, True, m))"

text \<open>Unify right: the new footer. The footer's header field is not updated.\<close>

definition unify_right :: "uint32 \<Rightarrow> uint32 \<Rightarrow> kstate \<Rightarrow> kerror + uint32 \<times> kstate" where
  "unify_right header footer s =
     (let test_header = footer + sizeof_footer_t
      in if hdr_magic (mem s) test_header = HEAP_MAGIC \<and> hdr_is_hole (mem s) test_header \<noteq> 0 then
           let m1 = set_hdr_size header (hdr_size (mem s) header + hdr_size (mem s) test_header) (mem s);
               footer' = test_header + hdr_size m1 test_header - sizeof_footer_t;
               s1 = s\<lparr>mem := m1\<rparr>
           in res_bind (the_heap s1) (\<lambda>h.
              res_bind (index_search (index h) (mem s1) test_header 0) (\<lambda>iterator.
              res_bind (ASSERT (iterator < oa_size (index h)) ''iterator < heap->index.size'') (\<lambda>_.
              res_bind (remove_index iterator s1) (\<lambda>s2. Inr (footer', s2)))))
         else Inr (footer, s))"

text \<open>
  When the freed hole ends the heap, the heap is contracted. \<open>test_header\<close> is the header
  after the freed block, which the source searches for in the index.
\<close>

definition free_contract :: "uint32 \<Rightarrow> uint32 \<Rightarrow> uint32 \<Rightarrow> kstate \<Rightarrow> kerror + kstate" where
  "free_contract header footer test_header s =
     res_bind (the_heap s) (\<lambda>h.
     if footer + sizeof_footer_t = end_address h then
       let old_length = heap_length h
       in res_bind (contract (header - start_address h) s) (\<lambda>(new_length, s1).
          if hdr_size (mem s1) header - (old_length - new_length) > 0 then
            let m1 = set_hdr_size header (hdr_size (mem s1) header - (old_length - new_length)) (mem s1);
                footer' = header + hdr_size m1 header - sizeof_footer_t;
                m2 = set_ftr_header footer' header (set_ftr_magic footer' HEAP_MAGIC m1)
            in Inr (s1\<lparr>mem := m2\<rparr>)
          else
            res_bind (the_heap s1) (\<lambda>h1.
            res_bind (index_search (index h1) (mem s1) test_header 0) (\<lambda>iterator.
              if iterator < oa_size (index h1) then remove_index iterator s1 else Inr s1)))
     else Inr s)"

definition free :: "uint32 \<Rightarrow> kstate \<Rightarrow> kerror + kstate" where
  "free p s =
     (if p = 0 then Inr s
      else
        let header = p - sizeof_header_t;
            footer = header + hdr_size (mem s) header - sizeof_footer_t
        in res_bind (ASSERT (hdr_magic (mem s) header = HEAP_MAGIC) ''header->magic == HEAP_MAGIC'') (\<lambda>_.
           res_bind (ASSERT (ftr_magic (mem s) footer = HEAP_MAGIC) ''footer->magic == HEAP_MAGIC'') (\<lambda>_.
             let m1 = set_hdr_is_hole header 1 (mem s);
                 (header1, do_add, m2) = unify_left header footer m1
             in res_bind (unify_right header1 footer (s\<lparr>mem := m2\<rparr>)) (\<lambda>(footer1, s2).
                res_bind (free_contract header1 footer1 (footer + sizeof_footer_t) s2) (\<lambda>s3.
                  if do_add then insert_index header1 s3 else Inr s3)))))"

section \<open>The kmalloc family\<close>

definition kmalloc_int :: "nat \<Rightarrow> size_t \<Rightarrow> int32 \<Rightarrow> bool \<Rightarrow> kstate \<Rightarrow> kerror + uint32 \<times> uint32 \<times> kstate" where
  "kmalloc_int fuel = kmalloc_int_with (alloc fuel)"

definition drop_phys :: "kerror + uint32 \<times> uint32 \<times> kstate \<Rightarrow> kerror + uint32 \<times> kstate" where
  "drop_phys r = res_bind r (\<lambda>(addr, _, s). Inr (addr, s))"

definition kmalloc_a :: "nat \<Rightarrow> size_t \<Rightarrow> kstate \<Rightarrow> kerror + uint32 \<times> kstate" where
  "kmalloc_a fuel sz s = drop_phys (kmalloc_int fuel sz 1 False s)"

definition kmalloc_p :: "nat \<Rightarrow> kmalloc_ap_fn" where
  "kmalloc_p fuel sz s = kmalloc_int fuel sz 0 True s"

definition kmalloc_ap :: "nat \<Rightarrow> kmalloc_ap_fn" where
  "kmalloc_ap fuel sz s = kmalloc_int fuel sz 1 True s"

definition kmalloc :: "nat \<Rightarrow> size_t \<Rightarrow> kstate \<Rightarrow> kerror + uint32 \<times> kstate" where
  "kmalloc fuel sz s = drop_phys (kmalloc_int fuel sz 0 False s)"

definition kfree :: "uint32 \<Rightarrow> kstate \<Rightarrow> kerror + kstate" where
  "kfree p s = free p s"

definition create_heap ::
  "nat \<Rightarrow> size_t \<Rightarrow> size_t \<Rightarrow> size_t \<Rightarrow> uint8 \<Rightarrow> uint8 \<Rightarrow> kstate \<Rightarrow> kerror + heap_t \<times> kstate" where
  "create_heap fuel = create_heap_with (kmalloc fuel)"

text \<open>create_ordered_array of utils/ordered_array.c takes its memory from kmalloc.\<close>

definition create_ordered_array ::
  "nat \<Rightarrow> size_t \<Rightarrow> lessthan_predicate_t option \<Rightarrow> kstate \<Rightarrow> kerror + ordered_array_t \<times> kstate" where
  "create_ordered_array fuel max_sz lt s =
     res_bind (kmalloc fuel (max_sz * sizeof_type_t) s) (\<lambda>(p, s1).
       Inr (\<lparr>array = p, oa_size = 0, max_size = max_sz, less_than = lt\<rparr>,
         s1\<lparr>mem := memset (mem s1) p 0 (max_sz * sizeof_type_t)\<rparr>))"

text \<open>Before create_heap the kmalloc family moves placement_address on.\<close>

lemma kmalloc_before_heap:
  assumes "kheap s = None"
  shows "kmalloc fuel sz s = Inr (placement_address s, s\<lparr>placement_address := placement_address s + sz\<rparr>)"
  using assms by (simp add: kmalloc_def drop_phys_def kmalloc_int_def kmalloc_int_with_def placement_alloc_def Let_def)

lemma kmalloc_ap_before_heap:
  assumes "kheap s = None" "placement_address s AND 0xFFF = 0"
  shows "kmalloc_ap fuel sz s = Inr (placement_address s, placement_address s,
    s\<lparr>placement_address := placement_address s + sz\<rparr>)"
  using assms by (simp add: kmalloc_ap_def kmalloc_int_def kmalloc_int_with_def placement_alloc_def Let_def)

end
