(* ===== verification/PageInit.thy ===== *)
theory PageInit
  imports KHeap
begin

text \<open>
  src/memory/paging.c, the part built on the allocators: get_page with the kernel's own
  kmalloc_ap, switch_page_directory and initialise_paging, which sets up the frame bitmap,
  the kernel directory, the identity mapping, the heap's pages and the heap itself.
\<close>

section \<open>Operations\<close>

definition get_page :: "nat \<Rightarrow> size_t \<Rightarrow> bool \<Rightarrow> uint32 \<Rightarrow> kstate \<Rightarrow> kerror + uint32 \<times> kstate" where
  "get_page fuel = get_page_with (kmalloc_ap fuel)"

definition switch_page_directory :: "uint32 \<Rightarrow> kstate \<Rightarrow> kstate" where
  "switch_page_directory dir s =
     s\<lparr>current_directory := dir, cr3 := rd32 (mem s) (dir + 8192), cr0 := cr0 s OR 0x80000000\<rparr>"

definition register_interrupt_handler :: "uint8 \<Rightarrow> isr_t \<Rightarrow> kstate \<Rightarrow> kstate" where
  "register_interrupt_handler n handler s =
     s\<lparr>interrupt_handlers := (interrupt_handlers s)(n := Some handler)\<rparr>"

text \<open>The loops over pages: \<open>limit\<close> is read again before each iteration.\<close>

fun page_loop ::
  "nat \<Rightarrow> (size_t \<Rightarrow> kstate \<Rightarrow> kerror + kstate) \<Rightarrow> (kstate \<Rightarrow> size_t) \<Rightarrow> size_t \<Rightarrow> kstate \<Rightarrow> kerror + kstate" where
  "page_loop 0 body limit i s = Inl OutOfFuel"
| "page_loop (Suc fuel) body limit i s =
     (if i < limit s then res_bind (body i s) (\<lambda>s1. page_loop fuel body limit (i + 0x1000) s1)
      else Inr s)"

definition touch_page :: "nat \<Rightarrow> size_t \<Rightarrow> kstate \<Rightarrow> kerror + kstate" where
  "touch_page fuel i s =
     res_bind (get_page fuel i True (kernel_directory s) s) (\<lambda>(_, s1). Inr s1)"

definition map_page :: "nat \<Rightarrow> size_t \<Rightarrow> kstate \<Rightarrow> kerror + kstate" where
  "map_page fuel i s =
     res_bind (get_page fuel i True (kernel_directory s) s) (\<lambda>(page, s1). alloc_frame page 0 0 s1)"

definition sizeof_page_directory_t :: size_t where "sizeof_page_directory_t = 8196"

definition alloc_bitmap :: "nat \<Rightarrow> kstate \<Rightarrow> kerror + kstate" where
  "alloc_bitmap fuel s =
     (let mem_end_page = 0x1000000; n = mem_end_page div 0x1000
      in res_bind (kmalloc fuel (INDEX_FROM_BIT n) s) (\<lambda>(p, s1).
           Inr (s1\<lparr>frame_count := n, frames := p,
                   mem := memset (mem s1) p 0 (INDEX_FROM_BIT n)\<rparr>)))"

definition alloc_directory :: "nat \<Rightarrow> kstate \<Rightarrow> kerror + kstate" where
  "alloc_directory fuel s =
     res_bind (kmalloc_a fuel sizeof_page_directory_t s) (\<lambda>(p, s1).
       Inr (s1\<lparr>kernel_directory := p,
               mem := wr32 (memset (mem s1) p 0 sizeof_page_directory_t) (p + 8192) (p + 4096)\<rparr>))"

definition initialise_paging :: "nat \<Rightarrow> kstate \<Rightarrow> kerror + kstate" where
  "initialise_paging fuel s0 =
     res_bind (alloc_bitmap fuel s0) (\<lambda>s1.
     res_bind (alloc_directory fuel s1) (\<lambda>s2.
     res_bind (page_loop page_fuel (touch_page fuel) (\<lambda>_. KHEAP_START + KHEAP_INITIAL_SIZE) KHEAP_START s2) (\<lambda>s3.
     res_bind (page_loop page_fuel (map_page fuel) (\<lambda>s. placement_address s + 0x1000) 0 s3) (\<lambda>s4.
     res_bind (page_loop page_fuel (map_page fuel) (\<lambda>_. KHEAP_START + KHEAP_INITIAL_SIZE) KHEAP_START s4) (\<lambda>s5.
       let s6 = switch_page_directory (kernel_directory s5) (register_interrupt_handler 14 page_fault_isr s5)
       in res_bind (create_heap fuel KHEAP_START (KHEAP_START + KHEAP_INITIAL_SIZE) 0xCFFFF000 0 0 s6) (\<lambda>(h, s7).
            Inr (s7\<lparr>kheap := Some h\<rparr>)))))))"

end
