(* ===== verification/Monitor.thy ===== *)
theory Monitor
  imports Prelude
begin

text \<open>
  src/screen/monitor.c: the 80 x 25 text screen at 0xB8000, its cursor, the attribute byte,
  scrolling, and the functions that write strings and numbers; src/utils/panic.c, which
  prints with it. Video memory is a function from the cell number to the 16-bit cell, and
  the bytes sent to the ports are a list in the order of the outb calls.
\<close>

section \<open>State and operations\<close>

record monitor_t =
  video_memory :: "nat \<Rightarrow> uint16"
  cursor_x :: uint8
  cursor_y :: uint8
  background_color :: uint8
  foreground_color :: uint8
  ports :: "(uint16 \<times> uint8) list"

definition initial_monitor :: "(nat \<Rightarrow> uint16) \<Rightarrow> monitor_t" where
  "initial_monitor vm = \<lparr>video_memory = vm, cursor_x = 0, cursor_y = 0,
     background_color = 3, foreground_color = 15, ports = []\<rparr>"

definition mon_outb :: "uint16 \<Rightarrow> uint8 \<Rightarrow> monitor_t \<Rightarrow> monitor_t" where
  "mon_outb port v s = s\<lparr>ports := ports s @ [(port, v)]\<rparr>"

definition get_attribute_byte :: "monitor_t \<Rightarrow> uint8" where
  "get_attribute_byte s = push_bit 4 (background_color s) OR (foreground_color s AND 0x0F)"

definition blank_cell :: "monitor_t \<Rightarrow> uint16" where
  "blank_cell s = 0x20 OR push_bit 8 (ucast (get_attribute_byte s))"

definition cursor_cell :: "monitor_t \<Rightarrow> nat" where
  "cursor_cell s = unat (cursor_y s) * 80 + unat (cursor_x s)"

definition move_cursor :: "monitor_t \<Rightarrow> monitor_t" where
  "move_cursor s =
     (let cursor_loc = (ucast (cursor_y s) * 80 + ucast (cursor_x s) :: uint16)
      in mon_outb 0x3D5 (ucast cursor_loc) (mon_outb 0x3D4 15
           (mon_outb 0x3D5 (ucast (drop_bit 8 cursor_loc)) (mon_outb 0x3D4 14 s))))"

text \<open>The loops over video memory: copy each cell from 80 cells further on, and fill.\<close>

function copy_up :: "nat \<Rightarrow> nat \<Rightarrow> (nat \<Rightarrow> uint16) \<Rightarrow> nat \<Rightarrow> uint16" where
  "copy_up i n vm = (if i < n then copy_up (Suc i) n (vm(i := vm (i + 80))) else vm)"
  by pat_completeness auto
termination by (relation "measure (\<lambda>(i, n, vm). n - i)") auto

function fill_cells :: "nat \<Rightarrow> nat \<Rightarrow> uint16 \<Rightarrow> (nat \<Rightarrow> uint16) \<Rightarrow> nat \<Rightarrow> uint16" where
  "fill_cells i n v vm = (if i < n then fill_cells (Suc i) n v (vm(i := v)) else vm)"
  by pat_completeness auto
termination by (relation "measure (\<lambda>(i, n, v, vm). n - i)") auto

declare copy_up.simps [simp del] fill_cells.simps [simp del]

definition scroll :: "monitor_t \<Rightarrow> monitor_t" where
  "scroll s =
     (let blank = blank_cell s
      in if cursor_y s \<ge> 25 then
           s\<lparr>video_memory := fill_cells (24*80) (25*80) blank (copy_up 0 (24*80) (video_memory s)),
             cursor_y := 24\<rparr>
         else s)"

text \<open>char is signed: bytes from 0x80 on are below the space.\<close>

definition monitor_put :: "uint8 \<Rightarrow> monitor_t \<Rightarrow> monitor_t" where
  "monitor_put c s =
     (let attribute_byte = get_attribute_byte s;
          attribute = (push_bit 8 (ucast attribute_byte) :: uint16);
          blank = 0x20 OR push_bit 8 (ucast attribute_byte);
          s1 = (if c = 0x08 \<and> cursor_x s \<noteq> 0 then
                  let s' = s\<lparr>cursor_x := cursor_x s - 1\<rparr>
                  in s'\<lparr>video_memory := (video_memory s')(cursor_cell s' := blank)\<rparr>
                else if c = 0x09 then s\<lparr>cursor_x := (cursor_x s + 8) AND NOT 7\<rparr>
                else if c = 10 \<or> c = 13 then s\<lparr>cursor_x := 0, cursor_y := cursor_y s + 1\<rparr>
                else if sint c \<ge> 32 then
                  s\<lparr>video_memory := (video_memory s)(cursor_cell s := ucast c OR attribute),
                    cursor_x := cursor_x s + 1\<rparr>
                else s);
          s2 = (if cursor_x s1 \<ge> 80 then s1\<lparr>cursor_x := 0, cursor_y := cursor_y s1 + 1\<rparr> else s1)
      in move_cursor (scroll s2))"

definition monitor_clear :: "monitor_t \<Rightarrow> monitor_t" where
  "monitor_clear s =
     move_cursor (s\<lparr>video_memory := fill_cells 0 (80*25) (blank_cell s) (video_memory s),
       cursor_x := 0, cursor_y := 0\<rparr>)"

text \<open>A string is the list of its bytes; writing stops at a zero byte or the list's end.\<close>

fun monitor_write :: "uint8 list \<Rightarrow> monitor_t \<Rightarrow> monitor_t" where
  "monitor_write [] s = s"
| "monitor_write (c # cs) s = (if c \<noteq> 0 then monitor_write cs (monitor_put c s) else s)"

definition monitor_write_color :: "uint8 list \<Rightarrow> uint8 \<Rightarrow> monitor_t \<Rightarrow> monitor_t" where
  "monitor_write_color c color s =
     (let temp = foreground_color s
      in (monitor_write c (s\<lparr>foreground_color := color\<rparr>))\<lparr>foreground_color := temp\<rparr>)"

definition monitor_write_sys :: "uint8 list \<Rightarrow> monitor_t \<Rightarrow> monitor_t" where
  "monitor_write_sys c s = monitor_write_color c 4 s"

definition hex_char :: "uint32 \<Rightarrow> uint8" where
  "hex_char tmp = (if tmp \<ge> 0xA then ucast (tmp - 0xA + 97) else ucast (tmp + 48))"

text \<open>The bytes of a string literal.\<close>

definition cstr :: "string \<Rightarrow> uint8 list" where
  "cstr cs = map of_char cs"

fun hex_loop :: "size_t \<Rightarrow> nat \<Rightarrow> bool \<Rightarrow> monitor_t \<Rightarrow> monitor_t" where
  "hex_loop n 0 no_zeroes s = s"
| "hex_loop n (Suc k) no_zeroes s =
     (let i = 4 * Suc k; tmp = drop_bit i n AND 0xF
      in if tmp = 0 \<and> no_zeroes then hex_loop n k no_zeroes s
         else hex_loop n k False (monitor_put (hex_char tmp) s))"

definition monitor_write_hex :: "size_t \<Rightarrow> monitor_t \<Rightarrow> monitor_t" where
  "monitor_write_hex n s =
     monitor_put (hex_char (n AND 0xF)) (hex_loop n 7 True (monitor_write (cstr ''0x'') s))"

text \<open>
  The digits of a number, last one first, into c, then reversed into c2. The number is
  a signed int; for positive numbers / and % are div and mod.
\<close>

function dec_loop :: "int \<Rightarrow> nat \<Rightarrow> (nat \<Rightarrow> uint8) \<Rightarrow> nat \<times> (nat \<Rightarrow> uint8)" where
  "dec_loop acc i c =
     (if acc > 0 then dec_loop (acc div 10) (i + 1) (c(i := 48 + of_int (acc mod 10))) else (i, c))"
  by pat_completeness auto
termination by (relation "measure (\<lambda>(acc, i, c). nat acc)") auto

declare dec_loop.simps [simp del]

fun reverse_loop :: "nat \<Rightarrow> nat \<Rightarrow> (nat \<Rightarrow> uint8) \<Rightarrow> (nat \<Rightarrow> uint8) \<Rightarrow> nat \<Rightarrow> uint8" where
  "reverse_loop 0 j c c2 = c2"
| "reverse_loop (Suc i) j c c2 = reverse_loop i (j + 1) c (c2(i := c j))"

definition char_array :: "nat \<Rightarrow> (nat \<Rightarrow> uint8) \<Rightarrow> uint8 list" where
  "char_array n c = map c [0..<n]"

definition monitor_write_dec :: "size_t \<Rightarrow> monitor_t \<Rightarrow> monitor_t" where
  "monitor_write_dec n s =
     (if n = 0 then monitor_put 48 s
      else let (i, c) = dec_loop (sint n) 0 (\<lambda>_. 0);
               c' = c(i := 0);
               c2 = reverse_loop i 0 c' ((\<lambda>_. 0)(i := 0))
           in monitor_write (char_array 32 c2) s)"

text \<open>What panic and panic_assert have printed when they start to loop forever.\<close>

definition panic_output :: "uint8 list \<Rightarrow> uint8 list \<Rightarrow> size_t \<Rightarrow> monitor_t \<Rightarrow> monitor_t" where
  "panic_output message file line s =
     monitor_write_sys (cstr [CHR 0x0A]) (monitor_write_dec line (monitor_write_sys (cstr '':'')
       (monitor_write_sys file (monitor_write_sys (cstr '') at '')
         (monitor_write_sys message (monitor_write_sys (cstr ''PANIC('') s))))))"

definition panic_assert_output :: "uint8 list \<Rightarrow> size_t \<Rightarrow> uint8 list \<Rightarrow> monitor_t \<Rightarrow> monitor_t" where
  "panic_assert_output file line desc s =
     monitor_write_sys (cstr [CHR 0x0A]) (monitor_write_dec line (monitor_write_sys (cstr '':'')
       (monitor_write_sys file (monitor_write_sys (cstr '') at '')
         (monitor_write_sys desc (monitor_write_sys (cstr ''ASSERTION-FAILED('') s))))))"

end
