(* ===== verification/Keyboard.thy ===== *)
theory Keyboard
  imports Monitor
begin

text \<open>
  src/drivers/keyboard: the scan codes and key maps of keyboard_mapping.h and .c, the
  modifier flags, and the handler of IRQ1, whose scan code (the byte read from port 0x60) is
  an argument.
\<close>

named_theorems key_codes "the scan codes of the keys"

section \<open>Keys and key maps\<close>

definition KEY_ESCAPE :: uint32 where [key_codes]: "KEY_ESCAPE = 0x1"
definition KEY_ONE :: uint32 where [key_codes]: "KEY_ONE = 0x2"
definition KEY_TWO :: uint32 where [key_codes]: "KEY_TWO = 0x3"
definition KEY_THREE :: uint32 where [key_codes]: "KEY_THREE = 0x4"
definition KEY_FOUR :: uint32 where [key_codes]: "KEY_FOUR = 0x5"
definition KEY_FIVE :: uint32 where [key_codes]: "KEY_FIVE = 0x6"
definition KEY_SIX :: uint32 where [key_codes]: "KEY_SIX = 0x7"
definition KEY_SEVEN :: uint32 where [key_codes]: "KEY_SEVEN = 0x8"
definition KEY_EIGHT :: uint32 where [key_codes]: "KEY_EIGHT = 0x9"
definition KEY_NINE :: uint32 where [key_codes]: "KEY_NINE = 0xA"
definition KEY_ZERO :: uint32 where [key_codes]: "KEY_ZERO = 0xB"
definition KEY_APOSTROPHE :: uint32 where [key_codes]: "KEY_APOSTROPHE = 0xC"
definition KEY_I_ACC :: uint32 where [key_codes]: "KEY_I_ACC = 0xD"
definition KEY_BACKSPACE :: uint32 where [key_codes]: "KEY_BACKSPACE = 0xE"
definition KEY_TAB :: uint32 where [key_codes]: "KEY_TAB = 0xF"
definition KEY_Q :: uint32 where [key_codes]: "KEY_Q = 0x10"
definition KEY_W :: uint32 where [key_codes]: "KEY_W = 0x11"
definition KEY_E :: uint32 where [key_codes]: "KEY_E = 0x12"
definition KEY_R :: uint32 where [key_codes]: "KEY_R = 0x13"
definition KEY_T :: uint32 where [key_codes]: "KEY_T = 0x14"
definition KEY_Y :: uint32 where [key_codes]: "KEY_Y = 0x15"
definition KEY_U :: uint32 where [key_codes]: "KEY_U = 0x16"
definition KEY_I :: uint32 where [key_codes]: "KEY_I = 0x17"
definition KEY_O :: uint32 where [key_codes]: "KEY_O = 0x18"
definition KEY_P :: uint32 where [key_codes]: "KEY_P = 0x19"
definition KEY_LEFT_BRAKET :: uint32 where [key_codes]: "KEY_LEFT_BRAKET = 0x1A"
definition KEY_RIGHT_BRAKET :: uint32 where [key_codes]: "KEY_RIGHT_BRAKET = 0x1B"
definition KEY_ENTER :: uint32 where [key_codes]: "KEY_ENTER = 0x1C"
definition KEY_LEFT_CONTROL :: uint32 where [key_codes]: "KEY_LEFT_CONTROL = 0x1D"
definition KEY_A :: uint32 where [key_codes]: "KEY_A = 0x1E"
definition KEY_S :: uint32 where [key_codes]: "KEY_S = 0x1F"
definition KEY_D :: uint32 where [key_codes]: "KEY_D = 0x20"
definition KEY_F :: uint32 where [key_codes]: "KEY_F = 0x21"
definition KEY_G :: uint32 where [key_codes]: "KEY_G = 0x22"
definition KEY_H :: uint32 where [key_codes]: "KEY_H = 0x23"
definition KEY_J :: uint32 where [key_codes]: "KEY_J = 0x24"
definition KEY_K :: uint32 where [key_codes]: "KEY_K = 0x25"
definition KEY_L :: uint32 where [key_codes]: "KEY_L = 0x26"
definition KEY_SEMICOLON :: uint32 where [key_codes]: "KEY_SEMICOLON = 0x27"
definition KEY_DOUBLE_QUOTES :: uint32 where [key_codes]: "KEY_DOUBLE_QUOTES = 0x28"
definition KEY_GRAVE :: uint32 where [key_codes]: "KEY_GRAVE = 0x29"
definition KEY_LEFT_SHIFT :: uint32 where [key_codes]: "KEY_LEFT_SHIFT = 0x2A"
definition KEY_BACKSLASH :: uint32 where [key_codes]: "KEY_BACKSLASH = 0x2B"
definition KEY_Z :: uint32 where [key_codes]: "KEY_Z = 0x2C"
definition KEY_X :: uint32 where [key_codes]: "KEY_X = 0x2D"
definition KEY_C :: uint32 where [key_codes]: "KEY_C = 0x2E"
definition KEY_V :: uint32 where [key_codes]: "KEY_V = 0x2F"
definition KEY_B :: uint32 where [key_codes]: "KEY_B = 0x30"
definition KEY_N :: uint32 where [key_codes]: "KEY_N = 0x31"
definition KEY_M :: uint32 where [key_codes]: "KEY_M = 0x32"
definition KEY_COMMA :: uint32 where [key_codes]: "KEY_COMMA = 0x33"
definition KEY_PERIOD :: uint32 where [key_codes]: "KEY_PERIOD = 0x34"
definition KEY_MINUS :: uint32 where [key_codes]: "KEY_MINUS = 0x35"
definition KEY_RIGHT_SHIFT :: uint32 where [key_codes]: "KEY_RIGHT_SHIFT = 0x36"
definition KEY_KP_MUL :: uint32 where [key_codes]: "KEY_KP_MUL = 0x37"
definition KEY_LEFT_ALT :: uint32 where [key_codes]: "KEY_LEFT_ALT = 0x38"
definition KEY_SPACE :: uint32 where [key_codes]: "KEY_SPACE = 0x39"
definition KEY_CAPS_LOCK :: uint32 where [key_codes]: "KEY_CAPS_LOCK = 0x3A"
definition KEY_F1 :: uint32 where [key_codes]: "KEY_F1 = 0x3B"
definition KEY_F2 :: uint32 where [key_codes]: "KEY_F2 = 0x3C"
definition KEY_F3 :: uint32 where [key_codes]: "KEY_F3 = 0x3D"
definition KEY_F4 :: uint32 where [key_codes]: "KEY_F4 = 0x3E"
definition KEY_F5 :: uint32 where [key_codes]: "KEY_F5 = 0x3F"
definition KEY_F6 :: uint32 where [key_codes]: "KEY_F6 = 0x40"
definition KEY_F7 :: uint32 where [key_codes]: "KEY_F7 = 0x41"
definition KEY_F8 :: uint32 where [key_codes]: "KEY_F8 = 0x42"
definition KEY_F9 :: uint32 where [key_codes]: "KEY_F9 = 0x43"
definition KEY_F10 :: uint32 where [key_codes]: "KEY_F10 = 0x44"
definition KEY_NUM_LOCK :: uint32 where [key_codes]: "KEY_NUM_LOCK = 0x45"
definition KEY_SCROLL_LOCK :: uint32 where [key_codes]: "KEY_SCROLL_LOCK = 0x46"
definition KEY_KP7 :: uint32 where [key_codes]: "KEY_KP7 = 0x47"
definition KEY_KP8 :: uint32 where [key_codes]: "KEY_KP8 = 0x48"
definition KEY_KP9 :: uint32 where [key_codes]: "KEY_KP9 = 0x49"
definition KEY_KP_SUB :: uint32 where [key_codes]: "KEY_KP_SUB = 0x4A"
definition KEY_KP4 :: uint32 where [key_codes]: "KEY_KP4 = 0x4B"
definition KEY_KP5 :: uint32 where [key_codes]: "KEY_KP5 = 0x4C"
definition KEY_KP6 :: uint32 where [key_codes]: "KEY_KP6 = 0x4D"
definition KEY_KP_ADD :: uint32 where [key_codes]: "KEY_KP_ADD = 0x4E"
definition KEY_KP1 :: uint32 where [key_codes]: "KEY_KP1 = 0x4F"
definition KEY_KP2 :: uint32 where [key_codes]: "KEY_KP2 = 0x50"
definition KEY_KP3 :: uint32 where [key_codes]: "KEY_KP3 = 0x51"
definition KEY_KP0 :: uint32 where [key_codes]: "KEY_KP0 = 0x52"
definition KEY_KP_DEC :: uint32 where [key_codes]: "KEY_KP_DEC = 0x53"
definition KEY_KP_LESS :: uint32 where [key_codes]: "KEY_KP_LESS = 0x56"
definition KEY_KP_RETURN :: uint32 where [key_codes]: "KEY_KP_RETURN = 0xE01C"
definition KEY_RIGHT_CONTROL :: uint32 where [key_codes]: "KEY_RIGHT_CONTROL = 0xE01D"
definition KEY_KP_DIV :: uint32 where [key_codes]: "KEY_KP_DIV = 0xE035"
definition KEY_RIGHT_ALT :: uint32 where [key_codes]: "KEY_RIGHT_ALT = 0xE038"
definition KEY_F11 :: uint32 where [key_codes]: "KEY_F11 = 0xE057"
definition KEY_F12 :: uint32 where [key_codes]: "KEY_F12 = 0xE058"
definition KEY_LEFT_WIN :: uint32 where [key_codes]: "KEY_LEFT_WIN = 0xE05B"
definition KEY_RIGHT_WIN :: uint32 where [key_codes]: "KEY_RIGHT_WIN = 0xE05C"
definition KEY_INSERT :: uint32 where [key_codes]: "KEY_INSERT = 0xE052"
definition KEY_HOME :: uint32 where [key_codes]: "KEY_HOME = 0xE047"
definition KEY_UP_ARROW :: uint32 where [key_codes]: "KEY_UP_ARROW = 0xE048"
definition KEY_PAGE_UP :: uint32 where [key_codes]: "KEY_PAGE_UP = 0xE049"
definition KEY_LEFT_ARROW :: uint32 where [key_codes]: "KEY_LEFT_ARROW = 0xE04B"
definition KEY_DELETE :: uint32 where [key_codes]: "KEY_DELETE = 0xE053"
definition KEY_END :: uint32 where [key_codes]: "KEY_END = 0xE04F"
definition KEY_PAGE_DOWN :: uint32 where [key_codes]: "KEY_PAGE_DOWN = 0xE051"
definition KEY_RIGHT_ARROW :: uint32 where [key_codes]: "KEY_RIGHT_ARROW = 0xE04D"
definition KEY_DOWN_ARROW :: uint32 where [key_codes]: "KEY_DOWN_ARROW = 0xE050"

definition keymap_base_entries :: "(uint32 \<times> size_t) list" where
  "keymap_base_entries = [
     (0, -1), (KEY_ESCAPE, 27), (KEY_ONE, 49), (KEY_TWO, 50), (KEY_THREE, 51), (KEY_FOUR, 52),
     (KEY_FIVE, 53), (KEY_SIX, 54), (KEY_SEVEN, 55), (KEY_EIGHT, 56), (KEY_NINE, 57),
     (KEY_ZERO, 48), (KEY_APOSTROPHE, 39), (KEY_I_ACC, 141), (KEY_BACKSPACE, 8), (KEY_TAB, 9),
     (KEY_Q, 113), (KEY_W, 119), (KEY_E, 101), (KEY_R, 114), (KEY_T, 116), (KEY_Y, 121),
     (KEY_U, 117), (KEY_I, 105), (KEY_O, 111), (KEY_P, 112), (KEY_LEFT_BRAKET, 138),
     (KEY_RIGHT_BRAKET, 43), (KEY_ENTER, 13), (KEY_LEFT_CONTROL, -1), (KEY_A, 97), (KEY_S, 115),
     (KEY_D, 100), (KEY_F, 102), (KEY_G, 103), (KEY_H, 104), (KEY_J, 106), (KEY_K, 107),
     (KEY_L, 108), (KEY_SEMICOLON, 149), (KEY_DOUBLE_QUOTES, 133), (KEY_GRAVE, 92),
     (KEY_LEFT_SHIFT, -1), (KEY_BACKSLASH, 151), (KEY_Z, 122), (KEY_X, 120), (KEY_C, 99),
     (KEY_V, 118), (KEY_B, 98), (KEY_N, 110), (KEY_M, 109), (KEY_COMMA, 44), (KEY_PERIOD, 46),
     (KEY_MINUS, 45), (KEY_RIGHT_SHIFT, -1), (KEY_KP_MUL, 42), (KEY_LEFT_ALT, -1),
     (KEY_SPACE, 32), (KEY_CAPS_LOCK, -1), (KEY_F1, -1), (KEY_F2, -1), (KEY_F3, -1),
     (KEY_F4, -1), (KEY_F5, -1), (KEY_F6, -1), (KEY_F7, -1), (KEY_F8, -1), (KEY_F9, -1),
     (KEY_F10, -1), (KEY_NUM_LOCK, -1), (KEY_SCROLL_LOCK, -1), (KEY_KP7, -1), (KEY_KP8, -1),
     (KEY_KP9, -1), (KEY_KP_SUB, 45), (KEY_KP4, -1), (KEY_KP5, -1), (KEY_KP6, -1),
     (KEY_KP_ADD, 43), (KEY_KP1, -1), (KEY_KP2, -1), (KEY_KP3, -1), (KEY_KP0, -1),
     (KEY_KP_DEC, -1), (84, -1), (85, -1), (KEY_KP_LESS, 60), (87, -1), (88, -1), (KEY_KP_DIV, 47)]"

definition keymap_shift_entries :: "(uint32 \<times> size_t) list" where
  "keymap_shift_entries = [
     (0, -1), (KEY_ESCAPE, -1), (KEY_ONE, 33), (KEY_TWO, 34), (KEY_THREE, 156), (KEY_FOUR, 36),
     (KEY_FIVE, 37), (KEY_SIX, 38), (KEY_SEVEN, 47), (KEY_EIGHT, 40), (KEY_NINE, 41),
     (KEY_ZERO, 61), (KEY_APOSTROPHE, 63), (KEY_I_ACC, 94), (KEY_BACKSPACE, -1), (KEY_TAB, -1),
     (KEY_Q, 81), (KEY_W, 87), (KEY_E, 69), (KEY_R, 82), (KEY_T, 84), (KEY_Y, 89), (KEY_U, 85),
     (KEY_I, 73), (KEY_O, 79), (KEY_P, 80), (KEY_LEFT_BRAKET, 130), (KEY_RIGHT_BRAKET, 42),
     (KEY_ENTER, -1), (KEY_LEFT_CONTROL, -1), (KEY_A, 65), (KEY_S, 83), (KEY_D, 68), (KEY_F, 70),
     (KEY_G, 71), (KEY_H, 72), (KEY_J, 74), (KEY_K, 75), (KEY_L, 76), (KEY_SEMICOLON, 128),
     (KEY_DOUBLE_QUOTES, 167), (KEY_GRAVE, 124), (KEY_LEFT_SHIFT, -1), (KEY_BACKSLASH, -1),
     (KEY_Z, 90), (KEY_X, 88), (KEY_C, 67), (KEY_V, 86), (KEY_B, 66), (KEY_N, 78), (KEY_M, 77),
     (KEY_COMMA, 59), (KEY_PERIOD, 58), (KEY_MINUS, 95), (KEY_RIGHT_SHIFT, -1), (KEY_KP_MUL, 42),
     (KEY_LEFT_ALT, -1), (KEY_SPACE, 32), (KEY_CAPS_LOCK, -1), (KEY_F1, -1), (KEY_F2, -1),
     (KEY_F3, -1), (KEY_F4, -1), (KEY_F5, -1), (KEY_F6, -1), (KEY_F7, -1), (KEY_F8, -1),
     (KEY_F9, -1), (KEY_F10, -1), (KEY_NUM_LOCK, -1), (KEY_SCROLL_LOCK, -1), (KEY_KP7, -1),
     (KEY_KP8, -1), (KEY_KP9, -1), (KEY_KP_SUB, 45), (KEY_KP4, -1), (KEY_KP5, -1), (KEY_KP6, -1),
     (KEY_KP_ADD, 43), (KEY_KP1, -1), (KEY_KP2, -1), (KEY_KP3, -1), (KEY_KP0, -1),
     (KEY_KP_DEC, -1), (84, -1), (85, -1), (KEY_KP_LESS, 62), (87, -1), (88, -1), (KEY_KP_DIV, 47)]"

definition keymap_numlock_entries :: "(uint32 \<times> size_t) list" where
  "keymap_numlock_entries = [
     (KEY_KP_DEC, 46), (KEY_KP0, 48), (KEY_KP1, 49), (KEY_KP2, 50), (KEY_KP3, 51), (KEY_KP4, 52),
     (KEY_KP5, 53), (KEY_KP6, 54), (KEY_KP7, 55), (KEY_KP8, 56), (KEY_KP9, 57)]"

text \<open>
  The three arrays have 65536 entries of size_t; the entries without an initialiser are 0.
\<close>

record keymap_t =
  base :: "uint32 \<Rightarrow> size_t"
  shift :: "uint32 \<Rightarrow> size_t"
  numlock :: "uint32 \<Rightarrow> size_t"

definition entry_of :: "(uint32 \<times> size_t) list \<Rightarrow> uint32 \<Rightarrow> size_t" where
  "entry_of es i = (case map_of es i of Some v \<Rightarrow> v | None \<Rightarrow> 0)"

definition keymap :: keymap_t where
  "keymap = \<lparr>base = entry_of keymap_base_entries, shift = entry_of keymap_shift_entries,
     numlock = entry_of keymap_numlock_entries\<rparr>"

section \<open>The driver\<close>

definition SHIFT :: uint8 where "SHIFT = 1"
definition CAPS_LOCK :: uint8 where "CAPS_LOCK = 2"
definition CTRL :: uint8 where "CTRL = 4"

text \<open>A scan code is one byte; the comparisons are made in int, so 0xE01D never matches.\<close>

definition is_key :: "uint8 \<Rightarrow> uint32 \<Rightarrow> bool" where
  "is_key scan_code k \<longleftrightarrow> ucast scan_code = k"

definition is_break_of :: "uint8 \<Rightarrow> uint32 \<Rightarrow> bool" where
  "is_break_of scan_code k \<longleftrightarrow> ucast scan_code = k OR 0x80"

definition update_keyboard_flags_on_press :: "uint8 \<Rightarrow> uint8 \<Rightarrow> uint8" where
  "update_keyboard_flags_on_press scan_code keyboard_flags =
     (if is_key scan_code KEY_LEFT_SHIFT \<or> is_key scan_code KEY_RIGHT_SHIFT
      then keyboard_flags OR SHIFT
      else if is_key scan_code KEY_LEFT_CONTROL \<or> is_key scan_code KEY_RIGHT_CONTROL
      then keyboard_flags OR CTRL
      else if is_key scan_code KEY_CAPS_LOCK then keyboard_flags OR CAPS_LOCK
      else keyboard_flags)"

definition update_keyboard_flags_on_release :: "uint8 \<Rightarrow> uint8 \<Rightarrow> uint8" where
  "update_keyboard_flags_on_release scan_code keyboard_flags =
     (if is_break_of scan_code KEY_LEFT_SHIFT \<or> is_break_of scan_code KEY_RIGHT_SHIFT
      then keyboard_flags AND NOT SHIFT
      else if is_break_of scan_code KEY_CAPS_LOCK then keyboard_flags AND NOT CAPS_LOCK
      else if is_break_of scan_code KEY_LEFT_CONTROL \<or> is_break_of scan_code KEY_RIGHT_CONTROL
      then keyboard_flags AND NOT CTRL
      else keyboard_flags)"

definition get_char_for_scan_code :: "uint8 \<Rightarrow> uint8 \<Rightarrow> uint8" where
  "get_char_for_scan_code keyboard_flags scan_code =
     (if keyboard_flags AND SHIFT \<noteq> 0 then ucast (shift keymap (ucast scan_code))
      else if keyboard_flags AND CAPS_LOCK \<noteq> 0 then
        (let c = ucast (base keymap (ucast scan_code))
         in if sint c \<ge> 97 \<and> sint c \<le> 122 then ucast (shift keymap (ucast scan_code)) else c)
      else ucast (base keymap (ucast scan_code)))"

definition keyboard_handler :: "uint8 \<Rightarrow> uint8 \<times> monitor_t \<Rightarrow> uint8 \<times> monitor_t" where
  "keyboard_handler scan_code st =
     (case st of (keyboard_flags, mon) \<Rightarrow>
        if scan_code AND 0x80 \<noteq> 0 then (update_keyboard_flags_on_release scan_code keyboard_flags, mon)
        else let flags = update_keyboard_flags_on_press scan_code keyboard_flags;
                 key_pressed = get_char_for_scan_code flags scan_code
             in (flags, monitor_put key_pressed mon))"

end
