(* ===== verification/Task.thy ===== *)
theory Task
  imports PageInit Keyboard
begin

text \<open>
  src/process/task.c and .h: the tasks, a linked list in memory, and switch_task; with it
  the state of the whole machine, which the timer and the interrupt handlers share. fork,
  initialise_tasking and move_stack are in the theory Fork.
\<close>

section \<open>The machine\<close>

text \<open>
  \<open>ks\<close>: memory, paging and heap; \<open>mon\<close>: the screen; then the globals of keyboard.c,
  timer.c and task.c, the interrupt flag and the bytes that timer.c and isr.c send to ports.
\<close>

record machine =
  ks :: kstate
  mon :: monitor_t
  keyboard_flags :: uint8
  tick :: size_t
  current_task :: uint32
  ready_queue :: uint32
  next_pid :: int32
  interrupts_on :: bool
  m_ports :: "(uint16 \<times> uint8) list"

definition initial_machine :: "kstate \<Rightarrow> machine" where
  "initial_machine s = \<lparr>ks = s, mon = initial_monitor (\<lambda>_. 0), keyboard_flags = 0, tick = 0,
     current_task = 0, ready_queue = 0, next_pid = 1, interrupts_on = False, m_ports = []\<rparr>"

definition m_write :: "string \<Rightarrow> machine \<Rightarrow> machine" where
  "m_write str m = m\<lparr>mon := monitor_write (cstr str) (mon m)\<rparr>"

section \<open>Tasks\<close>

text \<open>
  task_t: id at 0, esp at 4, ebp at 8, eip at 12, page_directory at 16, next at 20; 24 bytes.
\<close>

definition sizeof_task_t :: size_t where "sizeof_task_t = 24"

definition task_id :: "memory \<Rightarrow> uint32 \<Rightarrow> int32" where "task_id m t = rd32 m t"
definition task_esp :: "memory \<Rightarrow> uint32 \<Rightarrow> size_t" where "task_esp m t = rd32 m (t + 4)"
definition task_ebp :: "memory \<Rightarrow> uint32 \<Rightarrow> size_t" where "task_ebp m t = rd32 m (t + 8)"
definition task_eip :: "memory \<Rightarrow> uint32 \<Rightarrow> size_t" where "task_eip m t = rd32 m (t + 12)"
definition task_page_directory :: "memory \<Rightarrow> uint32 \<Rightarrow> uint32" where
  "task_page_directory m t = rd32 m (t + 16)"
definition task_next :: "memory \<Rightarrow> uint32 \<Rightarrow> uint32" where "task_next m t = rd32 m (t + 20)"

definition save_task :: "uint32 \<Rightarrow> size_t \<Rightarrow> size_t \<Rightarrow> size_t \<Rightarrow> memory \<Rightarrow> memory" where
  "save_task t eip esp ebp m = wr32 (wr32 (wr32 m (t + 12) eip) (t + 4) esp) (t + 8) ebp"

text \<open>
  What the processor gives and takes at a switch: the stack and base pointer read before
  read_eip and the value read_eip returns; then the registers loaded before the final jump.
\<close>

record cpu_regs =
  r_eip :: size_t
  r_esp :: size_t
  r_ebp :: size_t

definition switch_task :: "cpu_regs \<Rightarrow> machine \<Rightarrow> machine \<times> cpu_regs option" where
  "switch_task cpu m =
     (if current_task m = 0 then
        (m_write (''Error: attempted to switch tasks before enabling tasking'' @ [CHR 0x0A]) m, None)
      else if current_task m = ready_queue m \<and> task_next (mem (ks m)) (current_task m) = 0 then
        (m_write (''only one task found, not going to switch'' @ [CHR 0x0A]) m, None)
      else if r_eip cpu = 0x12345 then (m_write (''parent task found, return'' @ [CHR 0x0A]) m, None)
      else
        let mem1 = save_task (current_task m) (r_eip cpu) (r_esp cpu) (r_ebp cpu) (mem (ks m));
            nxt = task_next mem1 (current_task m);
            t = (if nxt = 0 then ready_queue m else nxt);
            dir = task_page_directory mem1 t
        in (m\<lparr>ks := (ks m)\<lparr>mem := mem1, current_directory := dir, cr3 := rd32 mem1 (dir + 8192)\<rparr>,
              current_task := t, interrupts_on := True\<rparr>,
            Some \<lparr>r_eip = task_eip mem1 t, r_esp = task_esp mem1 t, r_ebp = task_ebp mem1 t\<rparr>))"

definition getpid :: "machine \<Rightarrow> int32" where
  "getpid m = task_id (mem (ks m)) (current_task m)"

section \<open>The ready queue\<close>

text \<open>The list of the tasks from a pointer on, and that no two of them overlap.\<close>

fun task_list :: "memory \<Rightarrow> uint32 \<Rightarrow> uint32 list \<Rightarrow> bool" where
  "task_list m p [] \<longleftrightarrow> p = 0"
| "task_list m p (t # ts) \<longleftrightarrow> p = t \<and> t \<noteq> 0 \<and> unat t + 24 \<le> 4294967296 \<and> task_list m (task_next m t) ts"

definition apart :: "uint32 \<Rightarrow> uint32 \<Rightarrow> bool" where
  "apart t u \<longleftrightarrow> unat t + 24 \<le> unat u \<or> unat u + 24 \<le> unat t"

definition task_queue :: "machine \<Rightarrow> uint32 list \<Rightarrow> bool" where
  "task_queue m ts \<longleftrightarrow> task_list (mem (ks m)) (ready_queue m) ts
     \<and> (\<forall>i < length ts. \<forall>j < i. apart (ts ! i) (ts ! j))"

lemma task_field:
  fixes t :: uint32
  assumes "unat t + 24 \<le> 4294967296" "k \<le> 20"
  shows "unat (t + of_nat k) = unat t + k"
  using assms by (intro unat_plus_of_nat) simp

lemma task_fields:
  fixes t :: uint32
  assumes "unat t + 24 \<le> 4294967296"
  shows "unat (t + 4) = unat t + 4" "unat (t + 8) = unat t + 8" "unat (t + 12) = unat t + 12"
    "unat (t + 16) = unat t + 16" "unat (t + 20) = unat t + 20"
  using task_field [OF assms, of 4] task_field [OF assms, of 8] task_field [OF assms, of 12]
    task_field [OF assms, of 16] task_field [OF assms, of 20] by simp_all

lemma save_task_same:
  assumes "unat t + 24 \<le> 4294967296"
  shows "task_eip (save_task t eip esp ebp m) t = eip" "task_esp (save_task t eip esp ebp m) t = esp"
    "task_ebp (save_task t eip esp ebp m) t = ebp" "task_next (save_task t eip esp ebp m) t = task_next m t"
    "task_id (save_task t eip esp ebp m) t = task_id m t"
    "task_page_directory (save_task t eip esp ebp m) t = task_page_directory m t"
  using assms task_fields [OF assms]
  by (simp_all add: save_task_def task_eip_def task_esp_def task_ebp_def task_next_def task_id_def
      task_page_directory_def mem_simps)

lemma save_task_eq_on:
  assumes "unat t + 24 \<le> 4294967296"
  shows "mem_eq_on (- {unat t + 4 ..< unat t + 16}) m (save_task t eip esp ebp m)"
proof -
  note u = task_fields [OF assms]
  have "mem_eq_on (- {unat t + 4 ..< unat t + 16}) m' (wr32 m' (t + of_nat k) v)" if "k \<in> {4, 8, 12}" for m' k v
    using that assms u by (intro mem_eq_on_wr32) auto
  from this [of 12 m eip] this [of 4 "wr32 m (t + 12) eip" esp] this [of 8 "wr32 (wr32 m (t + 12) eip) (t + 4) esp" ebp]
  show ?thesis unfolding save_task_def by (simp, blast intro: mem_eq_on_trans)
qed

lemma save_task_other:
  assumes "unat t + 24 \<le> 4294967296" "unat u + 24 \<le> 4294967296" "apart t u"
  shows "task_eip (save_task t eip esp ebp m) u = task_eip m u" "task_esp (save_task t eip esp ebp m) u = task_esp m u"
    "task_ebp (save_task t eip esp ebp m) u = task_ebp m u" "task_next (save_task t eip esp ebp m) u = task_next m u"
    "task_id (save_task t eip esp ebp m) u = task_id m u"
    "task_page_directory (save_task t eip esp ebp m) u = task_page_directory m u"
proof -
  note u = task_fields [OF assms(2)]
  have "rd32 (save_task t eip esp ebp m) a = rd32 m a" if "unat u \<le> unat a" "unat a + 4 \<le> unat u + 24" for a
    using that assms by (intro mem_eq_on_rd32 [OF save_task_eq_on [OF assms(1)]]) (auto simp: apart_def)
  then show "task_eip (save_task t eip esp ebp m) u = task_eip m u" "task_esp (save_task t eip esp ebp m) u = task_esp m u"
    "task_ebp (save_task t eip esp ebp m) u = task_ebp m u" "task_next (save_task t eip esp ebp m) u = task_next m u"
    "task_id (save_task t eip esp ebp m) u = task_id m u"
    "task_page_directory (save_task t eip esp ebp m) u = task_page_directory m u"
    by (simp_all add: task_eip_def task_esp_def task_ebp_def task_next_def task_id_def task_page_directory_def u)
qed


lemma task_list_nth:
  "task_list m p ts \<Longrightarrow> i < length ts \<Longrightarrow> ts ! i \<noteq> 0 \<and> unat (ts ! i) + 24 \<le> 4294967296
    \<and> task_next m (ts ! i) = (if Suc i < length ts then ts ! Suc i else 0)"
proof (induction m p ts arbitrary: i rule: task_list.induct)
  case (2 m p t ts)
  show ?case
  proof (cases i)
    case 0
    then show ?thesis using 2 by (cases ts) auto
  next
    case (Suc j)
    then show ?thesis using 2 by auto
  qed
qed simp

lemma task_list_head: "task_list m p ts \<Longrightarrow> ts \<noteq> [] \<Longrightarrow> p = ts ! 0"
  by (cases ts) auto

lemma task_list_cong:
  "task_list m p ts \<Longrightarrow> (\<And>t. t \<in> set ts \<Longrightarrow> task_next m' t = task_next m t) \<Longrightarrow> task_list m' p ts"
  by (induction m p ts rule: task_list.induct) auto

lemma queue_apart:
  assumes "task_queue m ts" "i < length ts" "j < length ts" "i \<noteq> j"
  shows "apart (ts ! i) (ts ! j)"
  using assms unfolding task_queue_def by (metis apart_def linorder_neq_iff)

lemma queue_nth:
  assumes "task_queue m ts" "i < length ts"
  shows "ts ! i \<noteq> 0" "unat (ts ! i) + 24 \<le> 4294967296" "ready_queue m = ts ! 0"
    "task_next (mem (ks m)) (ts ! i) = (if Suc i < length ts then ts ! Suc i else 0)"
proof -
  have l: "task_list (mem (ks m)) (ready_queue m) ts" using assms(1) by (simp add: task_queue_def)
  have "ts \<noteq> []" using assms(2) by auto
  from task_list_head [OF l this] show "ready_queue m = ts ! 0" .
qed (use task_list_nth [of _ _ ts i] assms in \<open>auto simp: task_queue_def\<close>)

lemma queue_distinct:
  assumes "task_queue m ts" "i < length ts" "j < length ts" "ts ! i = ts ! j"
  shows "i = j"
proof (rule ccontr)
  assume "i \<noteq> j"
  from queue_apart [OF assms(1-3) this] show False using assms(4) by (simp add: apart_def)
qed

text \<open>The registers of a task.\<close>

definition regs_of :: "machine \<Rightarrow> uint32 \<Rightarrow> cpu_regs" where
  "regs_of m t = \<lparr>r_eip = task_eip (mem (ks m)) t, r_esp = task_esp (mem (ks m)) t, r_ebp = task_ebp (mem (ks m)) t\<rparr>"

lemma switch_task_next:
  assumes q: "task_queue m ts" and i: "i < length ts" "1 < length ts" "current_task m = ts ! i"
    and cpu: "r_eip cpu \<noteq> 0x12345"
  defines "j \<equiv> Suc i mod length ts"
  shows "\<exists>m'. switch_task cpu m = (m', Some (regs_of m (ts ! j)))
    \<and> current_task m' = ts ! j \<and> task_queue m' ts \<and> regs_of m' (ts ! i) = cpu
    \<and> (\<forall>k < length ts. k \<noteq> i \<longrightarrow> regs_of m' (ts ! k) = regs_of m (ts ! k))
    \<and> current_directory (ks m') = task_page_directory (mem (ks m)) (ts ! j)
    \<and> tick m' = tick m \<and> mon m' = mon m"
proof -
  let ?t = "ts ! i" and ?u = "ts ! j"
  let ?m1 = "save_task ?t (r_eip cpu) (r_esp cpu) (r_ebp cpu) (mem (ks m))"
  have j: "j < length ts" unfolding j_def using i by (intro mod_less_divisor) linarith
  have ji: "j \<noteq> i" using i by (cases "Suc i < length ts") (auto simp: j_def mod_if le_Suc_eq not_less)
  note t = queue_nth [OF q i(1)] and u = queue_nth [OF q j]
  note same = save_task_same [OF t(2)]
  have other: "\<And>k. k < length ts \<Longrightarrow> k \<noteq> i \<Longrightarrow>
      task_eip ?m1 (ts ! k) = task_eip (mem (ks m)) (ts ! k) \<and> task_esp ?m1 (ts ! k) = task_esp (mem (ks m)) (ts ! k)
    \<and> task_ebp ?m1 (ts ! k) = task_ebp (mem (ks m)) (ts ! k) \<and> task_next ?m1 (ts ! k) = task_next (mem (ks m)) (ts ! k)
    \<and> task_page_directory ?m1 (ts ! k) = task_page_directory (mem (ks m)) (ts ! k)"
    using save_task_other [OF t(2) queue_nth(2) [OF q]] queue_apart [OF q i(1)] by metis
  have nxt: "(if task_next ?m1 ?t = 0 then ready_queue m else task_next ?m1 ?t) = ?u"
  proof (cases "Suc i < length ts")
    case True
    then show ?thesis using t same queue_nth(1) [OF q True] by (simp add: j_def)
  next
    case False
    then have "Suc i = length ts" using i by simp
    then show ?thesis using t same by (simp add: j_def)
  qed
  have "\<not> (?t = ready_queue m \<and> task_next (mem (ks m)) ?t = 0)"
  proof
    assume a: "?t = ready_queue m \<and> task_next (mem (ks m)) ?t = 0"
    then have "?t = ts ! 0" using t(3) by simp
    moreover have "0 < length ts" using i(2) by linarith
    ultimately have "i = 0" using queue_distinct [OF q i(1)] by blast
    then have "task_next (mem (ks m)) ?t = ts ! 1" using t(4) i(2) by simp
    then have "ts ! 1 = 0" using a by argo
    then show False using queue_nth(1) [OF q i(2)] by contradiction
  qed
  moreover have "?t \<noteq> 0" using t(1) .
  ultimately have sw: "switch_task cpu m = (m\<lparr>ks := (ks m)\<lparr>mem := ?m1, current_directory := task_page_directory ?m1 ?u,
        cr3 := rd32 ?m1 (task_page_directory ?m1 ?u + 8192)\<rparr>, current_task := ?u, interrupts_on := True\<rparr>,
      Some \<lparr>r_eip = task_eip ?m1 ?u, r_esp = task_esp ?m1 ?u, r_ebp = task_ebp ?m1 ?u\<rparr>)"
    unfolding switch_task_def i(3) Let_def nxt using cpu by simp
  have next_same: "task_next ?m1 v = task_next (mem (ks m)) v" if v: "v \<in> set ts" for v
  proof -
    from v obtain k where "k < length ts" "v = ts ! k" by (auto simp: in_set_conv_nth)
    then show ?thesis using same other [of k] by (cases "k = i") auto
  qed
  have "task_list (mem (ks m)) (ready_queue m) ts" using q by (simp add: task_queue_def)
  from task_list_cong [OF this next_same] have "task_list ?m1 (ready_queue m) ts" by blast
  then show ?thesis
    using sw q same other [OF j ji] other by (auto simp: task_queue_def regs_of_def)
qed


text \<open>
  C18: switch_task is round robin: it saves the registers in the current task, makes the
  next task of the ready queue current (the first one after the last), returns that task's
  saved registers for the jump and its directory for CR3, and changes no other task.
\<close>

theorem switch_task_round_robin:
  assumes "task_queue m ts" "i < length ts" "1 < length ts" "current_task m = ts ! i"
    and "r_eip cpu \<noteq> 0x12345"
  shows "\<exists>m'. switch_task cpu m = (m', Some (regs_of m (ts ! (Suc i mod length ts))))
    \<and> current_task m' = ts ! (Suc i mod length ts) \<and> task_queue m' ts \<and> regs_of m' (ts ! i) = cpu
    \<and> (\<forall>k < length ts. k \<noteq> i \<longrightarrow> regs_of m' (ts ! k) = regs_of m (ts ! k))
    \<and> current_directory (ks m') = task_page_directory (mem (ks m)) (ts ! (Suc i mod length ts))"
  using switch_task_next [OF assms] by blast

text \<open>Several switches in a row, and the registers of the last jump.\<close>

fun switch_tasks :: "cpu_regs list \<Rightarrow> machine \<Rightarrow> machine \<times> cpu_regs option" where
  "switch_tasks [] m = (m, None)"
| "switch_tasks [cpu] m = switch_task cpu m"
| "switch_tasks (cpu # cpus) m = switch_tasks cpus (fst (switch_task cpu m))"

lemma switch_tasks_run:
  assumes "task_queue m ts" "j < length ts" "1 < length ts" "current_task m = ts ! j"
    and "\<forall>c \<in> set cpus. r_eip c \<noteq> 0x12345" "cpus \<noteq> []"
    and "i < length ts" "i \<noteq> j" "(j + length cpus) mod length ts = i" "length cpus < length ts"
  shows "\<exists>m'. switch_tasks cpus m = (m', Some (regs_of m (ts ! i))) \<and> current_task m' = ts ! i
    \<and> task_queue m' ts"
  using assms
proof (induction cpus m arbitrary: j rule: switch_tasks.induct)
  case (2 cpu m)
  from switch_task_next [OF 2(1-4), of cpu] 2(5,9) show ?case by auto
next
  case (3 cpu c2 cs m)
  let ?j = "Suc j mod length ts"
  have cpu: "r_eip cpu \<noteq> 0x12345" using 3(6) by simp
  from switch_task_next [OF 3(2-5) cpu] obtain m' where m': "switch_task cpu m = (m', Some (regs_of m (ts ! ?j)))"
    "current_task m' = ts ! ?j" "task_queue m' ts"
    "\<forall>k < length ts. k \<noteq> j \<longrightarrow> regs_of m' (ts ! k) = regs_of m (ts ! k)" by blast
  have jl: "?j < length ts" using 3(3) by (intro mod_less_divisor) linarith
  have pos: "(?j + length (c2 # cs)) mod length ts = i"
  proof -
    have "(?j + length (c2 # cs)) mod length ts = (Suc j + length (c2 # cs)) mod length ts"
      by (rule mod_add_left_eq)
    then show ?thesis using 3(10) by simp
  qed
  have "i \<noteq> ?j"
  proof
    assume "i = ?j"
    then have *: "(?j + length (c2 # cs)) mod length ts = ?j" using pos by simp
    have "(?j + length (c2 # cs)) mod length ts \<noteq> ?j"
    proof (cases "?j + length (c2 # cs) < length ts")
      case False
      then have "(?j + length (c2 # cs)) mod length ts = ?j + length (c2 # cs) - length ts"
        using jl 3(11) by (subst le_mod_geq) simp_all
      moreover have "?j + length (c2 # cs) - length ts \<noteq> ?j" using 3(11) False by auto
      ultimately show ?thesis by argo
    qed simp
    then show False using * by contradiction
  qed
  from 3(1) [OF _ jl 3(4) _ _ _ 3(8) this pos] 3(6,11) m' have
    "\<exists>m''. switch_tasks (c2 # cs) m' = (m'', Some (regs_of m' (ts ! i))) \<and> current_task m'' = ts ! i \<and> task_queue m'' ts"
    by simp
  moreover have "regs_of m' (ts ! i) = regs_of m (ts ! i)" using m'(4) 3(8,9) by blast
  ultimately show ?case using m'(1) by simp
qed simp


text \<open>
  C19: with n tasks in the ready queue, a task that is switched away runs again after n
  switches, with exactly the instruction, stack and base pointer it was switched away with.
\<close>

theorem task_resumes_after_a_round:
  assumes q: "task_queue m ts" "i < length ts" "1 < length ts" "current_task m = ts ! i"
    and cpus: "length cpus = length ts" "\<forall>c \<in> set cpus. r_eip c \<noteq> 0x12345"
  shows "\<exists>m'. switch_tasks cpus m = (m', Some (hd cpus)) \<and> current_task m' = ts ! i"
proof -
  let ?n = "length ts" and ?j = "Suc i mod length ts"
  obtain c d cs where cs: "cpus = c # d # cs"
    using cpus(1) q(3) by (cases cpus; cases "tl cpus") auto
  have "r_eip c \<noteq> 0x12345" using cpus(2) cs by simp
  from switch_task_next [OF q this] obtain m1 where m1: "fst (switch_task c m) = m1"
    "current_task m1 = ts ! ?j" "task_queue m1 ts" "regs_of m1 (ts ! i) = c" by auto
  have j: "?j < ?n" using q by (intro mod_less_divisor) linarith
  have "i \<noteq> ?j" using q by (cases "Suc i < ?n") (auto simp: mod_if le_Suc_eq not_less)
  moreover have "(?j + length (d # cs)) mod ?n = i"
  proof -
    have "length (d # cs) = ?n - 1" using cs cpus(1) by simp
    moreover have "(?j + (?n - 1)) mod ?n = (Suc i + (?n - 1)) mod ?n" by (rule mod_add_left_eq)
    moreover have "Suc i + (?n - 1) = i + ?n" using q(3) by linarith
    then have "(Suc i + (?n - 1)) mod ?n = i" using q(2) by simp
    ultimately show ?thesis by simp
  qed
  moreover have "length (d # cs) < ?n" "\<forall>c \<in> set (d # cs). r_eip c \<noteq> 0x12345" using cs cpus by auto
  ultimately show ?thesis
    using switch_tasks_run [OF m1(3) j q(3) m1(2), of "d # cs" i] q(2) m1 cs by auto
qed

section \<open>A concrete queue\<close>

text \<open>Two tasks at 0x1000 and 0x2000, the first one current.\<close>

definition two_tasks :: machine where
  "two_tasks = (initial_machine (boot_kstate (wr32 (\<lambda>_. 0) 0x1014 0x2000) 0x106000))
     \<lparr>current_task := 0x1000, ready_queue := 0x1000\<rparr>"

lemma two_tasks_queue: "task_queue two_tasks [0x1000, 0x2000]"
proof -
  have "rd32 (wr32 (\<lambda>_. 0) 0x1014 0x2000) 0x2014 = rd32 (\<lambda>_. 0) (0x2014 :: uint32)"
    by (rule rd32_wr32_disj) simp_all
  also have "\<dots> = 0" by (simp add: rd32_def)
  finally have "task_list (mem (ks two_tasks)) (ready_queue two_tasks) [0x1000, 0x2000]"
    by (simp add: two_tasks_def initial_machine_def boot_kstate_def task_next_def)
  moreover have "j = 0 \<and> i = Suc 0" if "i < Suc (Suc 0)" "j < i" for i j :: nat using that by linarith
  then have "\<forall>i < length [0x1000, 0x2000 :: uint32]. \<forall>j < i. apart ([0x1000, 0x2000] ! i) ([0x1000, 0x2000] ! j)"
    by (fastforce simp: apart_def)
  ultimately show ?thesis unfolding task_queue_def by blast
qed

theorem switch_task_round_robin_witness:
  "\<exists>m'. current_task m' = 0x2000 \<and> regs_of m' 0x1000 = \<lparr>r_eip = 1, r_esp = 2, r_ebp = 3\<rparr>
    \<and> fst (switch_task \<lparr>r_eip = 1, r_esp = 2, r_ebp = 3\<rparr> two_tasks) = m'"
proof -
  have "current_task two_tasks = [0x1000, 0x2000] ! 0" by (simp add: two_tasks_def)
  from switch_task_round_robin [OF two_tasks_queue _ _ this, of "\<lparr>r_eip = 1, r_esp = 2, r_ebp = 3\<rparr>"]
  show ?thesis by auto
qed

theorem task_resumes_after_a_round_witness:
  "\<exists>m'. switch_tasks [\<lparr>r_eip = 1, r_esp = 2, r_ebp = 3\<rparr>, \<lparr>r_eip = 4, r_esp = 5, r_ebp = 6\<rparr>] two_tasks
    = (m', Some \<lparr>r_eip = 1, r_esp = 2, r_ebp = 3\<rparr>) \<and> current_task m' = 0x1000"
proof -
  have "current_task two_tasks = [0x1000, 0x2000] ! 0" by (simp add: two_tasks_def)
  from task_resumes_after_a_round [OF two_tasks_queue _ _ this,
      of "[\<lparr>r_eip = 1, r_esp = 2, r_ebp = 3\<rparr>, \<lparr>r_eip = 4, r_esp = 5, r_ebp = 6\<rparr>]"]
  show ?thesis by simp
qed

end
