(* ===== verification/Clone.thy ===== *)
theory Clone
  imports PageInit
begin

text \<open>
  src/memory/paging.c: clone_table and clone_directory. copy_page_physical (process.s) runs
  with paging off and works on physical memory, which is not the flat memory of the model:
  its effect on the state is the argument \<open>copy\<close>.
\<close>

section \<open>Operations\<close>

type_synonym copy_fn = "size_t \<Rightarrow> size_t \<Rightarrow> kstate \<Rightarrow> kstate"

definition frame_address :: "memory \<Rightarrow> uint32 \<Rightarrow> size_t" where
  "frame_address m page = ucast (frame (load_page m page)) * 0x1000"

text \<open>The flags of a source entry that are set are set in the copy too.\<close>

definition copy_flags :: "page_t \<Rightarrow> page_t \<Rightarrow> page_t" where
  "copy_flags src dst = dst\<lparr>present := present dst \<or> present src, rw := rw dst \<or> rw src,
     user := user dst \<or> user src, accessed := accessed dst \<or> accessed src, dirty := dirty dst \<or> dirty src\<rparr>"

definition clone_page :: "copy_fn \<Rightarrow> uint32 \<Rightarrow> uint32 \<Rightarrow> kstate \<Rightarrow> kerror + kstate" where
  "clone_page copy src dst s =
     (if frame (load_page (mem s) src) \<noteq> 0 then
        res_bind (alloc_frame dst 0 0 s) (\<lambda>s1.
          let s2 = s1\<lparr>mem := store_page (mem s1) dst (copy_flags (load_page (mem s1) src) (load_page (mem s1) dst))\<rparr>
          in Inr (copy (frame_address (mem s2) src) (frame_address (mem s2) dst) s2))
      else Inr s)"

text \<open>Both loops run over the 1024 entries from index \<open>i\<close> on; \<open>k\<close> entries remain.\<close>

fun clone_pages :: "copy_fn \<Rightarrow> nat \<Rightarrow> size_t \<Rightarrow> uint32 \<Rightarrow> uint32 \<Rightarrow> kstate \<Rightarrow> kerror + kstate" where
  "clone_pages copy 0 i src table s = Inr s"
| "clone_pages copy (Suc k) i src table s =
     res_bind (clone_page copy (src + 4 * i) (table + 4 * i) s) (clone_pages copy k (i + 1) src table)"

text \<open>The memset clears the size of a page directory, 8196 bytes, not the 4096 of the table.\<close>

definition clone_table :: "kmalloc_ap_fn \<Rightarrow> copy_fn \<Rightarrow> uint32 \<Rightarrow> kstate \<Rightarrow> kerror + uint32 \<times> uint32 \<times> kstate" where
  "clone_table kap copy src s =
     res_bind (kap 4096 s) (\<lambda>(table, physical_address, s1).
       let s2 = s1\<lparr>mem := memset (mem s1) table 0 sizeof_page_directory_t\<rparr>
       in res_bind (clone_pages copy 1024 0 src table s2) (\<lambda>s3. Inr (table, physical_address, s3)))"

definition set_table :: "uint32 \<Rightarrow> size_t \<Rightarrow> uint32 \<Rightarrow> uint32 \<Rightarrow> kstate \<Rightarrow> kstate" where
  "set_table dir i table phys s =
     s\<lparr>mem := wr32 (wr32 (mem s) (tables_entry dir i) table) (tables_physical_entry dir i) phys\<rparr>"

fun clone_tables :: "kmalloc_ap_fn \<Rightarrow> copy_fn \<Rightarrow> nat \<Rightarrow> size_t \<Rightarrow> uint32 \<Rightarrow> uint32 \<Rightarrow> kstate \<Rightarrow> kerror + kstate" where
  "clone_tables kap copy 0 i src dir s = Inr s"
| "clone_tables kap copy (Suc k) i src dir s =
     (let table = rd32 (mem s) (tables_entry src i)
      in res_bind
           (if table = 0 then Inr s
            else if rd32 (mem s) (tables_entry (kernel_directory s) i) = table then
              Inr (set_table dir i table (rd32 (mem s) (tables_physical_entry src i)) s)
            else
              res_bind (clone_table kap copy table s) (\<lambda>(new_table, physical_address, s1).
                Inr (set_table dir i new_table (physical_address OR 0x07) s1)))
           (clone_tables kap copy k (i + 1) src dir))"

definition clone_directory_with :: "kmalloc_ap_fn \<Rightarrow> copy_fn \<Rightarrow> uint32 \<Rightarrow> kstate \<Rightarrow> kerror + uint32 \<times> kstate" where
  "clone_directory_with kap copy src s =
     res_bind (kap sizeof_page_directory_t s) (\<lambda>(dir, physical_address, s1).
       let m1 = memset (mem s1) dir 0 sizeof_page_directory_t;
           offset = tables_physical_entry dir 0 - dir;
           m2 = wr32 m1 (dir + 8192) (physical_address + offset)
       in res_bind (clone_tables kap copy 1024 0 src dir (s1\<lparr>mem := m2\<rparr>)) (\<lambda>s2. Inr (dir, s2)))"

definition clone_directory :: "nat \<Rightarrow> copy_fn \<Rightarrow> uint32 \<Rightarrow> kstate \<Rightarrow> kerror + uint32 \<times> kstate" where
  "clone_directory fuel = clone_directory_with (kmalloc_ap fuel)"

section \<open>Directories that share all their tables with the kernel\<close>

definition tables_of :: "memory \<Rightarrow> uint32 \<Rightarrow> uint32 list" where
  "tables_of m dir = words m dir 1024"

definition tables_physical_of :: "memory \<Rightarrow> uint32 \<Rightarrow> uint32 list" where
  "tables_physical_of m dir = words m (dir + 4096) 1024"

text \<open>Every table that the directory has is the kernel's one.\<close>

definition kernel_tables_only :: "memory \<Rightarrow> uint32 \<Rightarrow> uint32 \<Rightarrow> bool" where
  "kernel_tables_only m kdir src \<longleftrightarrow>
     (\<forall>i < 1024. tables_of m src ! i = 0 \<or> tables_of m kdir ! i = tables_of m src ! i)"

definition directory_fits :: "uint32 \<Rightarrow> bool" where
  "directory_fits dir \<longleftrightarrow> unat dir + 8196 \<le> 4294967296"

lemma table_entries:
  assumes "directory_fits dir" "i < 1024"
  shows "unat (tables_entry dir (of_nat i)) = unat dir + 4 * i"
    and "unat (tables_physical_entry dir (of_nat i)) = unat dir + 4096 + 4 * i"
    and "tables_of m dir ! i = rd32 m (tables_entry dir (of_nat i))"
    and "tables_physical_of m dir ! i = rd32 m (tables_physical_entry dir (of_nat i))"
proof -
  show "unat (tables_entry dir (of_nat i)) = unat dir + 4 * i"
    unfolding tables_entry_def using assms by (intro unat_word_index) (simp add: directory_fits_def)
  have "unat (dir + of_nat (4096 + 4 * i)) = unat dir + (4096 + 4 * i)"
    using assms by (intro unat_plus_of_nat) (simp add: directory_fits_def)
  then show "unat (tables_physical_entry dir (of_nat i)) = unat dir + 4096 + 4 * i"
    by (simp add: tables_physical_entry_def add.assoc)
  show "tables_of m dir ! i = rd32 m (tables_entry dir (of_nat i))"
    "tables_physical_of m dir ! i = rd32 m (tables_physical_entry dir (of_nat i))"
    using assms(2) by (simp_all add: tables_of_def tables_physical_of_def tables_entry_def tables_physical_entry_def)
qed

lemma directory_eq_on:
  assumes "directory_fits dir" "mem_eq_on S m m'" "{unat dir ..< unat dir + 8192} \<subseteq> S"
  shows "tables_of m' dir = tables_of m dir" "tables_physical_of m' dir = tables_physical_of m dir"
proof -
  have "unat (dir + 4096) = unat dir + 4096"
    using assms(1) unat_plus_of_nat [of dir 4096] by (simp add: directory_fits_def)
  then show "tables_of m' dir = tables_of m dir" "tables_physical_of m' dir = tables_physical_of m dir"
    unfolding tables_of_def tables_physical_of_def using assms(1,3)
    by (auto intro!: words_eq_on [OF assms(2)] simp: directory_fits_def)
qed

text \<open>Linking one table changes that entry of the new directory alone.\<close>

lemma set_table_entries:
  assumes "directory_fits dir" "i < 1024"
  shows "mem_eq_on (- {unat dir ..< unat dir + 8192}) (mem s) (mem (set_table dir (of_nat i) t p s))"
    and "tables_of (mem (set_table dir (of_nat i) t p s)) dir = (tables_of (mem s) dir)[i := t]"
    and "tables_physical_of (mem (set_table dir (of_nat i) t p s)) dir = (tables_physical_of (mem s) dir)[i := p]"
proof -
  note e = table_entries [OF assms]
  let ?te = "tables_entry dir (of_nat i)" and ?pe = "tables_physical_entry dir (of_nat i)"
  have f: "unat dir + 8196 \<le> 4294967296" using assms(1) by (simp add: directory_fits_def)
  have u: "unat (dir + 4096) = unat dir + 4096" using f unat_plus_of_nat [of dir 4096] by simp
  have m1: "mem_eq_on (- {unat ?te ..< unat ?te + 4}) m (wr32 m ?te t)"
    "mem_eq_on (- {unat ?pe ..< unat ?pe + 4}) m (wr32 m ?pe p)" for m
    using f assms(2) by (auto intro!: mem_eq_on_wr32 simp: e)
  have mm: "mem (set_table dir (of_nat i) t p s) = wr32 (wr32 (mem s) ?te t) ?pe p" by (simp add: set_table_def)
  have te: "?te = dir + 4 * of_nat i" and pe: "?pe = (dir + 4096) + 4 * of_nat i"
    by (simp_all add: tables_entry_def tables_physical_entry_def)
  show "mem_eq_on (- {unat dir ..< unat dir + 8192}) (mem s) (mem (set_table dir (of_nat i) t p s))"
    unfolding mm
    by (rule mem_eq_on_trans [OF mem_eq_on_mono [OF m1(1)] mem_eq_on_mono [OF m1(2)]])
      (use assms(2) in \<open>auto simp: e\<close>)
  have "tables_of (wr32 (wr32 (mem s) ?te t) ?pe p) dir = tables_of (wr32 (mem s) ?te t) dir"
    unfolding tables_of_def using f by (intro words_eq_on [OF m1(2)]) (auto simp: e)
  then show "tables_of (mem (set_table dir (of_nat i) t p s)) dir = (tables_of (mem s) dir)[i := t]"
    using words_wr32 [OF assms(2), of dir "mem s" t] f by (simp add: set_table_def tables_of_def te)
  have "tables_physical_of (wr32 (mem s) ?te t) dir = tables_physical_of (mem s) dir"
    unfolding tables_physical_of_def using f assms(2) by (intro words_eq_on [OF m1(1)]) (auto simp: e u)
  then show "tables_physical_of (mem (set_table dir (of_nat i) t p s)) dir = (tables_physical_of (mem s) dir)[i := p]"
    using words_wr32 [OF assms(2), of "dir + 4096" "wr32 (mem s) ?te t" p] f
    by (simp add: set_table_def tables_physical_of_def pe u)
qed

lemma apart_directories:
  "apart_regions dir 8196 d 8196 \<Longrightarrow> {unat d ..< unat d + 8192} \<subseteq> - {unat dir ..< unat dir + 8192}"
  by (auto simp: apart_regions_def)

text \<open>The entries that the loop sets from index \<open>i\<close> on: those of the tables that exist.\<close>

definition linked_from :: "nat \<Rightarrow> uint32 list \<Rightarrow> uint32 list \<Rightarrow> uint32 list \<Rightarrow> uint32 list" where
  "linked_from i tables new old = map (\<lambda>j. if i \<le> j \<and> tables ! j \<noteq> 0 then new ! j else old ! j) [0..<1024]"

lemma clone_tables_link:
  assumes fits: "directory_fits src" "directory_fits dir" "directory_fits kdir"
    and apart: "apart_regions dir 8196 src 8196" "apart_regions dir 8196 kdir 8196"
  shows "k + i = 1024 \<Longrightarrow> kernel_directory s = kdir \<Longrightarrow> kernel_tables_only (mem s) kdir src \<Longrightarrow>
    \<exists>m'. clone_tables kap copy k (of_nat i) src dir s = Inr (s\<lparr>mem := m'\<rparr>)
      \<and> mem_eq_on (- {unat dir ..< unat dir + 8192}) (mem s) m'
      \<and> tables_of m' dir = linked_from i (tables_of (mem s) src) (tables_of (mem s) src) (tables_of (mem s) dir)
      \<and> tables_physical_of m' dir =
          linked_from i (tables_of (mem s) src) (tables_physical_of (mem s) src) (tables_physical_of (mem s) dir)"
proof (induction k arbitrary: i s)
  case 0
  have "xs = linked_from i ts ns xs" if "length xs = 1024" for xs ts ns
    using 0 that by (intro nth_equalityI) (simp_all add: linked_from_def)
  then show ?case
    by (intro exI [of _ "mem s"]) (simp add: tables_of_def tables_physical_of_def)
next
  case (Suc k)
  have i: "i < 1024" using Suc.prems(1) by simp
  let ?T = "tables_of (mem s) src" and ?P = "tables_physical_of (mem s) src"
  note se = table_entries [OF fits(1) i] and ke = table_entries [OF fits(3) i]
  define s1 where "s1 = (if ?T ! i = 0 then s else set_table dir (of_nat i) (?T ! i) (?P ! i) s)"
  have "?T ! i = 0 \<or> tables_of (mem s) kdir ! i = ?T ! i"
    using Suc.prems(3) i by (simp add: kernel_tables_only_def)
  then have step: "clone_tables kap copy (Suc k) (of_nat i) src dir s = clone_tables kap copy k (of_nat (Suc i)) src dir s1"
    using Suc.prems(2) by (auto simp: s1_def se(3,4) ke(3) Let_def add.commute)
  have eq1: "mem_eq_on (- {unat dir ..< unat dir + 8192}) (mem s) (mem s1)"
    using set_table_entries(1) [OF fits(2) i] by (simp add: s1_def)
  have s1: "s1 = s\<lparr>mem := mem s1\<rparr>" by (simp add: s1_def set_table_def)
  have keep: "tables_of (mem s1) src = ?T" "tables_physical_of (mem s1) src = ?P"
    "tables_of (mem s1) kdir = tables_of (mem s) kdir"
    using directory_eq_on [OF fits(1) eq1 apart_directories [OF apart(1)]]
      directory_eq_on [OF fits(3) eq1 apart_directories [OF apart(2)]] by simp_all
  have new: "tables_of (mem s1) dir = (if ?T ! i = 0 then tables_of (mem s) dir else (tables_of (mem s) dir)[i := ?T ! i])"
    "tables_physical_of (mem s1) dir =
      (if ?T ! i = 0 then tables_physical_of (mem s) dir else (tables_physical_of (mem s) dir)[i := ?P ! i])"
    using set_table_entries(2,3) [OF fits(2) i] by (simp_all add: s1_def)
  have "kernel_directory s1 = kdir" using Suc.prems(2) by (simp add: s1_def set_table_def)
  moreover have "kernel_tables_only (mem s1) kdir src" using Suc.prems(3) keep by (simp add: kernel_tables_only_def)
  ultimately obtain m' where m': "clone_tables kap copy k (of_nat (Suc i)) src dir s1 = Inr (s1\<lparr>mem := m'\<rparr>)"
      "mem_eq_on (- {unat dir ..< unat dir + 8192}) (mem s1) m'"
      "tables_of m' dir = linked_from (Suc i) ?T ?T (tables_of (mem s1) dir)"
      "tables_physical_of m' dir = linked_from (Suc i) ?T ?P (tables_physical_of (mem s1) dir)"
    using Suc.IH [of "Suc i" s1] Suc.prems(1) keep by auto
  have link: "linked_from (Suc i) ?T ns (if ?T ! i = 0 then xs else xs[i := ns ! i]) = linked_from i ?T ns xs"
    if "length xs = 1024" for ns xs
  proof (rule nth_equalityI)
    fix j assume "j < length (linked_from (Suc i) ?T ns (if ?T ! i = 0 then xs else xs[i := ns ! i]))"
    then have "j < 1024" by (simp add: linked_from_def)
    then show "linked_from (Suc i) ?T ns (if ?T ! i = 0 then xs else xs[i := ns ! i]) ! j = linked_from i ?T ns xs ! j"
      using that i by (cases "j = i"; cases "?T ! i = 0") (auto simp: linked_from_def nth_list_update Suc_le_eq le_less)
  qed (simp add: linked_from_def)
  have "tables_of m' dir = linked_from i ?T ?T (tables_of (mem s) dir)"
    "tables_physical_of m' dir = linked_from i ?T ?P (tables_physical_of (mem s) dir)"
    unfolding m'(3,4) new by (rule link; simp add: tables_of_def tables_physical_of_def)+
  moreover have "s1\<lparr>mem := m'\<rparr> = s\<lparr>mem := m'\<rparr>" by (simp add: s1_def set_table_def)
  ultimately show ?case
    using step m'(1) mem_eq_on_trans [OF eq1 m'(2)] by (intro exI [of _ m']) simp
qed

lemma zero_directory:
  assumes "directory_fits dir"
  shows "tables_of (memset m dir 0 8196) dir = replicate 1024 0"
    and "tables_physical_of (memset m dir 0 8196) dir = replicate 1024 0"
proof -
  have z: "rd32 (memset m dir 0 8196) a = 0" if "unat dir \<le> unat a" "unat a + 4 \<le> unat dir + 8196" for a
    using that assms by (intro memset_zero_rd32) (simp_all add: directory_fits_def)
  have l: "length (tables_of m' dir) = 1024" "length (tables_physical_of m' dir) = 1024" for m'
    by (simp_all add: tables_of_def tables_physical_of_def)
  have e: "tables_of (memset m dir 0 8196) dir ! i = 0" "tables_physical_of (memset m dir 0 8196) dir ! i = 0"
    if "i < 1024" for i
    unfolding table_entries(3,4) [OF assms that] using that by (auto intro!: z simp: table_entries(1,2) [OF assms that])
  show "tables_of (memset m dir 0 8196) dir = replicate 1024 0"
    "tables_physical_of (memset m dir 0 8196) dir = replicate 1024 0"
    by (rule nth_equalityI; simp add: l e)+
qed

text \<open>The directory of a clone: cleared, with its physical address, then linked.\<close>

lemma clone_directory_links:
  assumes "kmalloc_ap fuel 8196 s = Inr (dir, phys, s1)" "kernel_directory s1 = kernel_directory s"
    and "directory_fits src" "directory_fits dir" "directory_fits (kernel_directory s)"
    and "apart_regions dir 8196 src 8196" "apart_regions dir 8196 (kernel_directory s) 8196"
    and "kernel_tables_only (mem s1) (kernel_directory s) src"
  shows "\<exists>m'. clone_directory fuel copy src s = Inr (dir, s1\<lparr>mem := m'\<rparr>)
    \<and> tables_of m' dir = tables_of (mem s1) src
    \<and> (\<forall>i < 1024. tables_physical_of m' dir ! i =
         (if tables_of (mem s1) src ! i = 0 then 0 else tables_physical_of (mem s1) src ! i))
    \<and> rd32 m' (dir + 8192) = phys + 4096
    \<and> mem_eq_on (- {unat dir ..< unat dir + 8196}) (mem s1) m'"
proof -
  let ?m1 = "memset (mem s1) dir 0 8196"
  let ?m2 = "wr32 ?m1 (dir + 8192) (phys + 4096)"
  have f: "unat dir + 8196 \<le> 4294967296" using assms(4) by (simp add: directory_fits_def)
  have u: "unat (dir + 8192) = unat dir + 8192" using f unat_plus_of_nat [of dir 8192] by simp
  have e1: "mem_eq_on (- {unat dir ..< unat dir + 8196}) (mem s1) ?m1"
    using memset_outside [of dir 8196 "mem s1" 0] f by simp
  have e2: "mem_eq_on (- {unat dir + 8192 ..< unat dir + 8196}) ?m1 ?m2"
    using f by (intro mem_eq_on_wr32) (auto simp: u)
  have e12: "mem_eq_on (- {unat dir ..< unat dir + 8196}) (mem s1) ?m2"
    by (rule mem_eq_on_trans [OF e1 mem_eq_on_mono [OF e2]]) auto
  have keep: "tables_of ?m2 d = tables_of (mem s1) d" "tables_physical_of ?m2 d = tables_physical_of (mem s1) d"
    if "directory_fits d" "apart_regions dir 8196 d 8196" for d
  proof -
    have "{unat d ..< unat d + 8192} \<subseteq> - {unat dir ..< unat dir + 8196}"
      using that(2) by (auto simp: apart_regions_def)
    then show "tables_of ?m2 d = tables_of (mem s1) d" "tables_physical_of ?m2 d = tables_physical_of (mem s1) d"
      using directory_eq_on [OF that(1) e12] by blast+
  qed
  have zero: "tables_of ?m2 dir = replicate 1024 0" "tables_physical_of ?m2 dir = replicate 1024 0"
  proof -
    have "{unat dir ..< unat dir + 8192} \<subseteq> - {unat dir + 8192 ..< unat dir + 8196}" by auto
    from directory_eq_on [OF assms(4) e2 this] show "tables_of ?m2 dir = replicate 1024 0"
      "tables_physical_of ?m2 dir = replicate 1024 0"
      using zero_directory [OF assms(4), of "mem s1"] by simp_all
  qed
  have "kernel_tables_only ?m2 (kernel_directory s) src"
    using assms(8) keep [OF assms(3,6)] keep [OF assms(5,7)] by (simp add: kernel_tables_only_def)
  then have "\<exists>m'. clone_tables (kmalloc_ap fuel) copy 1024 0 src dir (s1\<lparr>mem := ?m2\<rparr>) = Inr (s1\<lparr>mem := m'\<rparr>)
      \<and> mem_eq_on (- {unat dir ..< unat dir + 8192}) ?m2 m'
      \<and> tables_of m' dir = linked_from 0 (tables_of ?m2 src) (tables_of ?m2 src) (tables_of ?m2 dir)
      \<and> tables_physical_of m' dir =
          linked_from 0 (tables_of ?m2 src) (tables_physical_of ?m2 src) (tables_physical_of ?m2 dir)"
    using clone_tables_link [OF assms(3-7), of 1024 0 "s1\<lparr>mem := ?m2\<rparr>" "kmalloc_ap fuel" copy] assms(2) by simp
  then obtain m' where m': "clone_tables (kmalloc_ap fuel) copy 1024 0 src dir (s1\<lparr>mem := ?m2\<rparr>) = Inr (s1\<lparr>mem := m'\<rparr>)"
    "mem_eq_on (- {unat dir ..< unat dir + 8192}) ?m2 m'"
    "tables_of m' dir = linked_from 0 (tables_of ?m2 src) (tables_of ?m2 src) (tables_of ?m2 dir)"
    "tables_physical_of m' dir = linked_from 0 (tables_of ?m2 src) (tables_physical_of ?m2 src) (tables_physical_of ?m2 dir)"
    by blast
  have "tables_physical_entry dir 0 - dir = 4096" by (simp add: tables_physical_entry_def)
  then have "clone_directory fuel copy src s = Inr (dir, s1\<lparr>mem := m'\<rparr>)"
    using m'(1) assms(1) by (simp add: clone_directory_def clone_directory_with_def sizeof_page_directory_t_def Let_def)
  moreover have "tables_of m' dir = tables_of (mem s1) src"
    unfolding m'(3) keep(1) [OF assms(3,6)] zero
    by (intro nth_equalityI) (simp_all add: linked_from_def tables_of_def)
  moreover have "\<forall>i < 1024. tables_physical_of m' dir ! i =
      (if tables_of (mem s1) src ! i = 0 then 0 else tables_physical_of (mem s1) src ! i)"
    unfolding m'(4) keep [OF assms(3,6)] zero by (simp add: linked_from_def)
  moreover have "rd32 m' (dir + 8192) = rd32 ?m2 (dir + 8192)"
    using f by (intro mem_eq_on_rd32 [OF m'(2)]) (auto simp: u)
  moreover have "mem_eq_on (- {unat dir ..< unat dir + 8196}) (mem s1) m'"
    by (rule mem_eq_on_trans [OF e12 mem_eq_on_mono [OF m'(2)]]) auto
  ultimately show ?thesis by auto
qed

end
