(* ===== verification/Fork.thy ===== *)
theory Fork
  imports Task Clone
begin

text \<open>
  src/process/task.c: move_stack, initialise_tasking and fork. fork returns twice: once in
  the parent, which called it, and once in the child, when switch_task first jumps to the
  instruction after read_eip; \<open>fork_return\<close> is what runs from there on.
\<close>

section \<open>move_stack\<close>

text \<open>
  The loop that gives the new stack its pages, from the top down (it ends when the page
  below new_stack_start - size is reached).
\<close>

fun stack_pages :: "nat \<Rightarrow> nat \<Rightarrow> size_t \<Rightarrow> size_t \<Rightarrow> kstate \<Rightarrow> kerror + kstate" where
  "stack_pages fuel 0 i low s = Inl OutOfFuel"
| "stack_pages fuel (Suc k) i low s =
     (if i \<ge> low then
        res_bind (get_page fuel i True (current_directory s) s) (\<lambda>(page, s1).
        res_bind (alloc_frame page 0 1 s1) (stack_pages fuel k (i - 0x1000) low))
      else Inr s)"

text \<open>The words that look like pointers into the old stack are moved with it.\<close>

fun relocate_words :: "nat \<Rightarrow> size_t \<Rightarrow> size_t \<Rightarrow> size_t \<Rightarrow> size_t \<Rightarrow> size_t \<Rightarrow> memory \<Rightarrow> kerror + memory" where
  "relocate_words 0 i low old_sp old_top offset m = Inl OutOfFuel"
| "relocate_words (Suc k) i low old_sp old_top offset m =
     (if i > low then
        let tmp = rd32 m i;
            m1 = (if old_sp < tmp \<and> tmp < old_top then wr32 m i (tmp + offset) else m)
        in relocate_words k (i - 4) low old_sp old_top offset m1
      else Inr m)"

text \<open>
  \<open>initial_esp\<close> is the global of kernel.c; the stack and base pointer come from and go to
  the processor (\<open>cpu_regs\<close>); cr3 is read and written back.
\<close>

definition move_stack :: "nat \<Rightarrow> size_t \<Rightarrow> size_t \<Rightarrow> size_t \<Rightarrow> cpu_regs \<Rightarrow> kstate \<Rightarrow> kerror + cpu_regs \<times> kstate" where
  "move_stack fuel initial_esp new_stack_start sz cpu s =
     res_bind (stack_pages fuel page_fuel new_stack_start (new_stack_start - sz) s) (\<lambda>s1.
     let offset = new_stack_start - initial_esp;
         new_sp = r_esp cpu + offset;
         new_bp = r_ebp cpu + offset;
         m1 = memcpy (mem s1) new_sp (r_esp cpu) (initial_esp - r_esp cpu)
     in res_bind (relocate_words (1024 * page_fuel) new_stack_start (new_stack_start - sz) (r_esp cpu) initial_esp offset m1)
          (\<lambda>m2. Inr (cpu\<lparr>r_esp := new_sp, r_ebp := new_bp\<rparr>, s1\<lparr>mem := m2\<rparr>)))"

section \<open>Creating tasks\<close>

definition new_task_struct :: "uint32 \<Rightarrow> int32 \<Rightarrow> uint32 \<Rightarrow> memory \<Rightarrow> memory" where
  "new_task_struct t pid dir m =
     wr32 (wr32 (wr32 (wr32 (wr32 (wr32 m t pid) (t + 8) 0) (t + 4) 0) (t + 12) 0) (t + 16) dir) (t + 20) 0"

definition initialise_tasking :: "nat \<Rightarrow> size_t \<Rightarrow> cpu_regs \<Rightarrow> machine \<Rightarrow> kerror + cpu_regs \<times> machine" where
  "initialise_tasking fuel initial_esp cpu m =
     res_bind (move_stack fuel initial_esp 0xE0000000 0x2000 cpu (ks m)) (\<lambda>(cpu1, s1).
     res_bind (kmalloc fuel sizeof_task_t s1) (\<lambda>(t, s2).
       Inr (cpu1, m\<lparr>ks := s2\<lparr>mem := new_task_struct t (next_pid m) (current_directory s2) (mem s2)\<rparr>,
         current_task := t, ready_queue := t, next_pid := next_pid m + 1, interrupts_on := True\<rparr>)))"

section \<open>fork\<close>

text \<open>The end of the list of tasks: the loop does not end when the list is circular.\<close>

partial_function (option) last_task :: "memory \<Rightarrow> uint32 \<Rightarrow> uint32 option" where
  "last_task m t = (if task_next m t \<noteq> 0 then last_task m (task_next m t) else Some t)"

text \<open>fork up to the call of read_eip: the new task and the machine.\<close>

definition fork_setup :: "nat \<Rightarrow> copy_fn \<Rightarrow> machine \<Rightarrow> kerror + uint32 \<times> machine" where
  "fork_setup fuel copy m =
     res_bind (clone_directory fuel copy (current_directory (ks m)) (ks m)) (\<lambda>(dir, s1).
     res_bind (kmalloc fuel sizeof_task_t s1) (\<lambda>(new_task, s2).
     let m1 = new_task_struct new_task (next_pid m) dir (mem s2)
     in res_bind (returns (last_task m1 (ready_queue m))) (\<lambda>tmp_task.
          Inr (new_task, m\<lparr>ks := s2\<lparr>mem := wr32 m1 (tmp_task + 20) new_task\<rparr>,
            next_pid := next_pid m + 1, interrupts_on := False\<rparr>))))"

text \<open>
  From the return of read_eip on, with the locals parent_task and new_task: the registers
  that the processor has then, and the value that fork returns.
\<close>

definition fork_return :: "uint32 \<Rightarrow> uint32 \<Rightarrow> cpu_regs \<Rightarrow> machine \<Rightarrow> int32 \<times> machine" where
  "fork_return parent_task new_task cpu m =
     (if current_task m = parent_task then
        let mem1 = wr32 (wr32 (wr32 (mem (ks m)) (new_task + 4) (r_esp cpu)) (new_task + 8) (r_ebp cpu))
              (new_task + 12) (r_eip cpu)
        in (task_id mem1 new_task, m\<lparr>ks := (ks m)\<lparr>mem := mem1\<rparr>, interrupts_on := True\<rparr>)
      else (0, m))"

definition fork :: "nat \<Rightarrow> copy_fn \<Rightarrow> cpu_regs \<Rightarrow> machine \<Rightarrow> kerror + int32 \<times> machine" where
  "fork fuel copy cpu m =
     res_bind (fork_setup fuel copy m) (\<lambda>(new_task, m1).
       Inr (fork_return (current_task m) new_task cpu m1))"

section \<open>The queue after a fork\<close>

lemma new_task_fields:
  assumes "unat t + 24 \<le> 4294967296"
  shows "task_id (new_task_struct t pid dir m) t = pid" "task_next (new_task_struct t pid dir m) t = 0"
    "task_page_directory (new_task_struct t pid dir m) t = dir"
    "mem_eq_on (- {unat t ..< unat t + 24}) m (new_task_struct t pid dir m)"
proof -
  note u = task_fields [OF assms]
  show "task_id (new_task_struct t pid dir m) t = pid" "task_next (new_task_struct t pid dir m) t = 0"
    "task_page_directory (new_task_struct t pid dir m) t = dir"
    using assms by (simp_all add: new_task_struct_def task_id_def task_next_def task_page_directory_def mem_simps u)
  show "mem_eq_on (- {unat t ..< unat t + 24}) m (new_task_struct t pid dir m)"
    unfolding new_task_struct_def using assms
    by (intro mem_eq_on_wr32_step mem_eq_on_refl) (auto simp: u)
qed

text \<open>The fields of a task elsewhere.\<close>

definition task_same :: "memory \<Rightarrow> memory \<Rightarrow> uint32 \<Rightarrow> bool" where
  "task_same m m' u \<longleftrightarrow> task_id m' u = task_id m u \<and> task_esp m' u = task_esp m u \<and> task_ebp m' u = task_ebp m u
     \<and> task_eip m' u = task_eip m u \<and> task_page_directory m' u = task_page_directory m u"

lemma task_eq_on:
  assumes "unat u + 24 \<le> 4294967296" "mem_eq_on S m m'" "{unat u ..< unat u + 24} \<subseteq> S"
  shows "task_same m m' u" "task_next m' u = task_next m u"
proof -
  note u = task_fields [OF assms(1)]
  have "rd32 m' (u + of_nat k) = rd32 m (u + of_nat k)" if "k \<in> {0, 4, 8, 12, 16, 20}" for k
    using that assms(1,3) u by (intro mem_eq_on_rd32 [OF assms(2)]) auto
  from this [of 0] this [of 4] this [of 8] this [of 12] this [of 16] this [of 20]
  show "task_same m m' u" "task_next m' u = task_next m u"
    by (simp_all add: task_same_def task_id_def task_esp_def task_ebp_def task_eip_def task_page_directory_def task_next_def)
qed

lemma last_task_list: "task_list m p ts \<Longrightarrow> ts \<noteq> [] \<Longrightarrow> last_task m p = Some (last ts)"
proof (induction m p ts rule: task_list.induct)
  case (2 m p t ts)
  show ?case
  proof (cases ts)
    case Nil
    then show ?thesis using 2 by (simp add: last_task.simps [of m t])
  next
    case (Cons u us)
    then have "task_next m t \<noteq> 0" using "2.prems"(1) by simp
    then show ?thesis using 2 Cons by (simp add: last_task.simps [of m t])
  qed
qed simp

lemma task_list_link:
  "task_list m p ts \<Longrightarrow> ts \<noteq> [] \<Longrightarrow> distinct ts \<Longrightarrow> \<forall>u \<in> set ts. u \<noteq> last ts \<longrightarrow> task_next m' u = task_next m u
    \<Longrightarrow> task_next m' (last ts) = t \<Longrightarrow> task_list m' t [t] \<Longrightarrow> task_list m' p (ts @ [t])"
proof (induction m p ts rule: task_list.induct)
  case (2 m p u us)
  show ?case
  proof (cases us)
    case Nil
    then show ?thesis using "2.prems" by simp
  next
    case (Cons v vs)
    then have l: "us \<noteq> []" "last (u # us) = last us" "last us \<in> set us" by auto
    then have "u \<noteq> last us" using "2.prems"(3) by auto
    then have "task_next m' u = task_next m u" using "2.prems"(4) l(2) by simp
    moreover have "task_list m' (task_next m u) (us @ [t])"
      using "2.prems" l by (intro "2.IH") simp_all
    ultimately show ?thesis using "2.prems"(1) by simp
  qed
qed simp

text \<open>The memory after fork: the new structure, its registers, and the link from the last task.\<close>

lemma fork_memory:
  assumes ts: "task_list m0 p ts" "ts \<noteq> []" "\<forall>u \<in> set ts. apart u t" "\<forall>i < length ts. \<forall>j < i. apart (ts ! i) (ts ! j)"
    and t: "t \<noteq> 0" "unat t + 24 \<le> 4294967296"
    and m1: "m1 = new_task_struct t pid dir m0" and m2: "m2 = wr32 m1 (last ts + 20) t"
    and m3: "m3 = wr32 (wr32 (wr32 m2 (t + 4) sp) (t + 8) bp) (t + 12) ip"
  shows "last_task m1 p = Some (last ts)" "task_list m3 p (ts @ [t])" "\<forall>u \<in> set ts. task_same m0 m3 u"
    "task_id m3 t = pid" "task_page_directory m3 t = dir" "task_eip m3 t = ip" "task_esp m3 t = sp" "task_ebp m3 t = bp"
proof -
  note ut = task_fields [OF t(2)] and nt = new_task_fields [OF t(2), where pid = pid and dir = dir and m = m0, folded m1]
  let ?l = "last ts"
  have bound: "unat u + 24 \<le> 4294967296" if "u \<in> set ts" for u
    using task_list_nth [OF ts(1)] that by (auto simp: in_set_conv_nth)
  have l: "?l \<in> set ts" using ts(2) by simp
  note ul = task_fields [OF bound [OF l]]
  have dist: "apart u v" if "u \<in> set ts" "v \<in> set ts" "u \<noteq> v" for u v
  proof -
    from that obtain i j where "i < length ts" "j < length ts" "u = ts ! i" "v = ts ! j" "i \<noteq> j"
      by (metis in_set_conv_nth)
    then show ?thesis using ts(4) by (metis apart_def linorder_neq_iff)
  qed
  have "distinct ts"
  proof (unfold distinct_conv_nth, intro allI impI)
    fix i j assume ij: "i < length ts" "j < length ts" "i \<noteq> j"
    show "ts ! i \<noteq> ts ! j"
      using ts(4) ij by (metis apart_def linorder_neq_iff le_add1 add_le_same_cancel1 not_numeral_le_zero)
  qed
  have below: "{unat u ..< unat u + 24} \<subseteq> - {unat t ..< unat t + 24}" if "u \<in> set ts" for u
    using bspec [OF ts(3) that] by (auto simp: apart_def)
  have below3: "{unat u ..< unat u + 24} \<subseteq> - {unat t + 4 ..< unat t + 16}" if "u \<in> set ts" for u
    using bspec [OF ts(3) that] by (auto simp: apart_def)
  have keep1: "task_same m0 m1 u" "task_next m1 u = task_next m0 u" if "u \<in> set ts" for u
    using task_eq_on [OF bound [OF that] nt(4) below [OF that]] by simp_all
  then have l1: "task_list m1 p ts" using task_list_cong [OF ts(1), of m1] by blast
  then show "last_task m1 p = Some ?l" using ts(2) by (rule last_task_list)
  have e2: "mem_eq_on (- {unat ?l + 20 ..< unat ?l + 24}) m1 m2"
    unfolding m2 using bound [OF l] ul by (intro mem_eq_on_wr32) auto
  have e3: "mem_eq_on (- {unat t + 4 ..< unat t + 16}) m2 m3"
    unfolding m3 using t(2) by (intro mem_eq_on_wr32_step mem_eq_on_refl) (auto simp: ut)
  have rd: "rd32 m3 a = rd32 m2 a" if "unat a + 4 \<le> unat t + 4 \<or> unat t + 16 \<le> unat a" "unat a + 4 \<le> 4294967296" for a
    using that by (intro mem_eq_on_rd32 [OF e3]) auto
  have rd2: "rd32 m2 a = rd32 m1 a" if "unat a + 4 \<le> unat ?l + 20 \<or> unat ?l + 24 \<le> unat a" "unat a + 4 \<le> 4294967296" for a
    using that by (intro mem_eq_on_rd32 [OF e2]) auto
  have lt: "apart ?l t" using ts(3) l by blast
  have keep3: "task_same m2 m3 u" "task_next m3 u = task_next m2 u" if "u \<in> set ts" for u
    using task_eq_on [OF bound [OF that] e3 below3 [OF that]] by simp_all
  have next2: "task_next m2 u = (if u = ?l then t else task_next m1 u)" if u: "u \<in> set ts" for u
  proof (cases "u = ?l")
    case True
    then show ?thesis by (simp add: task_next_def m2)
  next
    case False
    then have "{unat u ..< unat u + 24} \<subseteq> - {unat ?l + 20 ..< unat ?l + 24}"
      using dist [OF u l False] by (auto simp: apart_def)
    from task_eq_on(2) [OF bound [OF u] e2 this] False show ?thesis by simp
  qed
  have same2: "task_same m1 m2 u" if u: "u \<in> set ts" for u
  proof -
    have "rd32 m2 (u + of_nat k) = rd32 m1 (u + of_nat k)" if "k \<le> 16" for k
    proof -
      have "unat (u + of_nat k) = unat u + k" using bound [OF u] that by (intro unat_plus_of_nat) simp
      then show ?thesis using dist [OF u l] bound [OF u] that by (cases "u = ?l") (auto intro!: rd2 simp: apart_def)
    qed
    from this [of 0] this [of 4] this [of 8] this [of 12] this [of 16] show ?thesis
      by (simp add: task_same_def task_id_def task_esp_def task_ebp_def task_eip_def task_page_directory_def)
  qed
  show "\<forall>u \<in> set ts. task_same m0 m3 u"
    using keep1(1) same2 keep3(1) by (simp add: task_same_def)
  have rd2t: "rd32 m2 a = rd32 m1 a" if "unat t \<le> unat a" "unat a + 4 \<le> unat t + 24" for a
    using lt that t(2) by (intro rd2) (auto simp: apart_def)
  have "task_next m3 t = task_next m1 t"
    using t(2) by (simp add: task_next_def rd rd2t ut)
  then have "task_list m3 t [t]" using nt(2) t by simp
  moreover have "\<forall>u \<in> set ts. u \<noteq> ?l \<longrightarrow> task_next m3 u = task_next m1 u" "task_next m3 ?l = t"
    using keep3(2) next2 l by simp_all
  ultimately show "task_list m3 p (ts @ [t])"
    using task_list_link [OF l1 ts(2) \<open>distinct ts\<close>] by blast
  show "task_id m3 t = pid" "task_page_directory m3 t = dir"
    using nt(1,3) t(2) by (simp_all add: task_id_def task_page_directory_def rd rd2t ut)
  show "task_eip m3 t = ip" "task_esp m3 t = sp" "task_ebp m3 t = bp"
    using t(2) by (simp_all add: task_eip_def task_esp_def task_ebp_def m3 mem_simps ut)
qed

text \<open>
  C20: fork, called by a task of the queue, appends one task to it: the new task has the next
  pid, the cloned directory and the registers that the parent had when read_eip returned, so
  that switch_task continues it there; the other tasks keep their fields; the parent gets
  the pid, and the child, once it is the current task, returns 0 from the same place.
\<close>

theorem fork_adds_child:
  assumes q: "task_queue m ts" and cur: "current_task m \<in> set ts"
    and clone: "clone_directory fuel copy (current_directory (ks m)) (ks m) = Inr (dir, s1)"
    and new: "kmalloc fuel 24 s1 = Inr (t, s2)"
    and kept: "mem_eq_on (\<Union>u \<in> set ts. {unat u ..< unat u + 24}) (mem (ks m)) (mem s2)"
    and t: "t \<noteq> 0" "unat t + 24 \<le> 4294967296" "\<forall>u \<in> set ts. apart u t"
  shows "\<exists>m'. fork fuel copy cpu m = Inr (next_pid m, m') \<and> task_queue m' (ts @ [t])
    \<and> regs_of m' t = cpu \<and> task_id (mem (ks m')) t = next_pid m \<and> task_page_directory (mem (ks m')) t = dir
    \<and> (\<forall>u \<in> set ts. task_same (mem (ks m)) (mem (ks m')) u)
    \<and> next_pid m' = next_pid m + 1 \<and> current_task m' = current_task m \<and> interrupts_on m'
    \<and> fst (fork_return (current_task m) t cpu2 (m'\<lparr>current_task := t\<rparr>)) = 0"
proof -
  have l: "task_list (mem (ks m)) (ready_queue m) ts" and ap: "\<forall>i < length ts. \<forall>j < i. apart (ts ! i) (ts ! j)"
    using q by (simp_all add: task_queue_def)
  have ne: "ts \<noteq> []" using cur by auto
  have bound: "unat u + 24 \<le> 4294967296" if "u \<in> set ts" for u
    using task_list_nth [OF l] that by (auto simp: in_set_conv_nth)
  have same0: "task_same (mem (ks m)) (mem s2) u" "task_next (mem s2) u = task_next (mem (ks m)) u" if "u \<in> set ts" for u
    using task_eq_on [OF bound [OF that] kept] that by blast+
  have l0: "task_list (mem s2) (ready_queue m) ts"
    using task_list_cong [OF l, of "mem s2"] same0(2) by blast
  define m1 where "m1 = new_task_struct t (next_pid m) dir (mem s2)"
  define m2 where "m2 = wr32 m1 (last ts + 20) t"
  define m3 where "m3 = wr32 (wr32 (wr32 m2 (t + 4) (r_esp cpu)) (t + 8) (r_ebp cpu)) (t + 12) (r_eip cpu)"
  note fm = fork_memory [OF l0 ne t(3) ap t(1,2) m1_def m2_def m3_def]
  define m' where "m' = m\<lparr>ks := s2\<lparr>mem := m3\<rparr>, next_pid := next_pid m + 1, interrupts_on := True\<rparr>"
  have "fork fuel copy cpu m = Inr (next_pid m, m')"
    using fm(1,4) by (simp add: fork_def fork_setup_def clone new sizeof_task_t_def Let_def returns_def
      fork_return_def m'_def flip: m1_def m2_def m3_def)
  moreover have "task_queue m' (ts @ [t])"
  proof -
    have "apart ((ts @ [t]) ! i) ((ts @ [t]) ! j)" if "i < length (ts @ [t])" "j < i" for i j
    proof (cases "i < length ts")
      case True
      then show ?thesis using ap that by (simp add: nth_append)
    next
      case False
      then have "i = length ts" "j < length ts" using that by simp_all
      then show ?thesis using t(3) nth_mem [of j ts] by (auto simp: nth_append apart_def)
    qed
    then show ?thesis using fm(2) by (simp add: task_queue_def m'_def)
  qed
  moreover have "regs_of m' t = cpu" using fm(6-8) by (simp add: regs_of_def m'_def)
  moreover have "\<forall>u \<in> set ts. task_same (mem (ks m)) m3 u"
    using same0(1) fm(3) by (simp add: task_same_def)
  moreover have "t \<noteq> current_task m"
    using t(3) cur by (auto simp: apart_def)
  ultimately show ?thesis using fm(4,5) by (simp add: m'_def fork_return_def)
qed

text \<open>The first of two tasks forks before the heap is set up; the new task is at 0x108004.\<close>

definition forking :: machine where
  "forking = two_tasks\<lparr>ks := (ks two_tasks)\<lparr>kernel_directory := 0x10000, current_directory := 0x10000\<rparr>\<rparr>"

theorem fork_adds_child_witness:
  "\<exists>m'. fork 1 (\<lambda>_ _ s. s) \<lparr>r_eip = 1, r_esp = 2, r_ebp = 3\<rparr> forking = Inr (1, m')
    \<and> task_queue m' [0x1000, 0x2000, 0x108004] \<and> regs_of m' 0x108004 = \<lparr>r_eip = 1, r_esp = 2, r_ebp = 3\<rparr>
    \<and> next_pid m' = 2"
proof -
  let ?s = "ks forking" and ?cpu = "\<lparr>r_eip = 1, r_esp = 2, r_ebp = 3\<rparr>"
  let ?s1 = "?s\<lparr>placement_address := 0x108004\<rparr>"
  have f: "kheap ?s = None" "placement_address ?s = 0x106000" "current_directory ?s = 0x10000"
    "kernel_directory ?s = 0x10000" "mem ?s = wr32 (\<lambda>_. 0) 0x1014 0x2000"
    by (simp_all add: forking_def two_tasks_def initial_machine_def boot_kstate_def)
  have ap: "kmalloc_ap 1 8196 ?s = Inr (0x106000, 0x106000, ?s1)"
    using kmalloc_ap_before_heap [of ?s 1 8196] f by simp
  have kt: "kernel_tables_only (mem ?s1) (kernel_directory ?s) 0x10000"
    by (simp add: kernel_tables_only_def f)
  obtain m' where c: "clone_directory 1 (\<lambda>_ _ s. s) 0x10000 ?s = Inr (0x106000, ?s1\<lparr>mem := m'\<rparr>)"
    "mem_eq_on (- {unat (0x106000 :: uint32) ..< unat (0x106000 :: uint32) + 8196}) (mem ?s) m'"
    using clone_directory_links [OF ap _ _ _ _ _ _ kt, of "\<lambda>_ _ s. s"]
    by (auto simp: directory_fits_def apart_regions_def f)
  have "kheap (?s1\<lparr>mem := m'\<rparr>) = None" by (simp add: f)
  from kmalloc_before_heap [OF this, of 1 24]
  have k: "kmalloc 1 24 (?s1\<lparr>mem := m'\<rparr>) = Inr (0x108004, ?s1\<lparr>mem := m', placement_address := 0x10801C\<rparr>)" by simp
  have q: "task_queue forking [0x1000, 0x2000]"
    using two_tasks_queue by (simp add: task_queue_def forking_def)
  have kept: "mem_eq_on (\<Union>u \<in> set [0x1000, 0x2000 :: uint32]. {unat u ..< unat u + 24}) (mem ?s)
      (mem (?s1\<lparr>mem := m', placement_address := 0x10801C\<rparr>))"
  proof (rule mem_eq_on_mono)
    show "mem_eq_on (- {unat (0x106000 :: uint32) ..< unat (0x106000 :: uint32) + 8196}) (mem ?s)
        (mem (?s1\<lparr>mem := m', placement_address := 0x10801C\<rparr>))" using c(2) by simp
  qed auto
  have "current_task forking = 0x1000" "next_pid forking = 1"
    by (simp_all add: forking_def two_tasks_def initial_machine_def)
  then show ?thesis
    using fork_adds_child [OF q _ c(1) [folded f(3)] k kept, of ?cpu] by (auto simp: apart_def)
qed

end
