(* ===== verification/Terminal.thy ===== *)
theory Terminal
  imports Monitor
begin

text \<open>
  The contract of the screen: monitor_put implements an abstract terminal of 2000 cells and
  one position, and the number writers print the usual digits of their argument.
\<close>

section \<open>The loops over video memory\<close>

lemma copy_up_eq: "copy_up i n vm = (\<lambda>k. if i \<le> k \<and> k < n then vm (k + 80) else vm k)"
proof (induction i n vm rule: copy_up.induct)
  case (1 i n vm)
  show ?case
    by (cases "i < n") (auto simp: copy_up.simps [of i n vm] 1 intro!: ext)
qed

lemma fill_cells_eq: "fill_cells i n v vm = (\<lambda>k. if i \<le> k \<and> k < n then v else vm k)"
proof (induction i n v vm rule: fill_cells.induct)
  case (1 i n v vm)
  show ?case
    by (cases "i < n") (auto simp: fill_cells.simps [of i n v vm] 1 intro!: ext)
qed

lemma monitor_write_fold: "monitor_write cs s = fold monitor_put (takeWhile (\<lambda>c. c \<noteq> 0) cs) s"
  by (induction cs arbitrary: s) auto

section \<open>The abstract terminal\<close>

type_synonym terminal = "uint16 list \<times> nat"

definition term_advance :: "uint16 \<Rightarrow> terminal \<Rightarrow> terminal" where
  "term_advance blank t =
     (case t of (cells, pos) \<Rightarrow>
        if pos \<ge> 2000 then (drop 80 cells @ replicate 80 blank, 1920 + pos mod 80) else (cells, pos))"

definition term_put :: "uint16 \<Rightarrow> uint16 \<Rightarrow> uint8 \<Rightarrow> terminal \<Rightarrow> terminal" where
  "term_put attribute blank c t =
     (case t of (cells, pos) \<Rightarrow>
        if c = 8 \<and> pos mod 80 \<noteq> 0 then (cells[pos - 1 := blank], pos - 1)
        else if c = 9 then term_advance blank (cells, (pos + 8) div 8 * 8)
        else if c = 10 \<or> c = 13 then term_advance blank (cells, (pos div 80 + 1) * 80)
        else if sint c \<ge> 32 then term_advance blank (cells[pos := ucast c OR attribute], pos + 1)
        else (cells, pos))"

definition term_of :: "monitor_t \<Rightarrow> terminal" where
  "term_of s = (map (video_memory s) [0..<2000], cursor_cell s)"

definition on_screen :: "monitor_t \<Rightarrow> bool" where
  "on_screen s \<longleftrightarrow> cursor_x s < 80 \<and> cursor_y s < 25"

section \<open>monitor_put refines the terminal\<close>

lemma move_cursor_simps [simp]:
  "video_memory (move_cursor s) = video_memory s" "cursor_x (move_cursor s) = cursor_x s"
  "cursor_y (move_cursor s) = cursor_y s" "background_color (move_cursor s) = background_color s"
  "foreground_color (move_cursor s) = foreground_color s"
  by (simp_all add: move_cursor_def mon_outb_def Let_def)

lemma term_of_move_cursor [simp]: "term_of (move_cursor s) = term_of s"
  by (simp add: term_of_def cursor_cell_def)

lemma on_screen_move_cursor [simp]: "on_screen (move_cursor s) = on_screen s"
  by (simp add: on_screen_def)

lemma tab_stop:
  fixes x :: uint8
  assumes "x < 80"
  shows "unat ((x + 8) AND NOT 7) = (unat x + 8) div 8 * 8"
proof -
  let ?w = "x + 8"
  have x8: "unat ?w = unat x + 8"
    using assms by (subst unat_plus_no_wrap) (simp_all add: word_less_nat_alt)
  have "(7 :: uint8) = mask 3" by (simp add: mask_eq_exp_minus_1)
  then have "?w AND NOT 7 = push_bit 3 (drop_bit 3 ?w)"
    by (auto simp: bit_eq_iff bit_simps)
  also have "unat \<dots> = unat (drop_bit 3 ?w) * 8"
  proof -
    have "unat (drop_bit 3 ?w) = (unat x + 8) div 8" by (simp add: x8 unat_div drop_bit_eq_div)
    moreover have "unat x < 80" using assms by (simp add: word_less_nat_alt)
    ultimately show ?thesis by (simp add: push_bit_eq_mult unat_word_ariths)
  qed
  also have "unat (drop_bit 3 ?w) = (unat x + 8) div 8" by (simp add: x8 unat_div drop_bit_eq_div)
  finally show ?thesis .
qed

text \<open>The end of monitor_put: wrap the line, then scroll.\<close>

definition finish_put :: "monitor_t \<Rightarrow> monitor_t" where
  "finish_put s1 = move_cursor (scroll
     (if cursor_x s1 \<ge> 80 then s1\<lparr>cursor_x := 0, cursor_y := cursor_y s1 + 1\<rparr> else s1))"

lemma scroll_term:
  assumes "cursor_x s < 80" "cursor_y s \<le> 25"
  shows "on_screen (scroll s)" "term_of (scroll s) = term_advance (blank_cell s) (term_of s)"
    "\<forall>k \<ge> 2000. video_memory (scroll s) k = video_memory s k"
proof -
  show "on_screen (scroll s)" using assms
    by (auto simp: scroll_def Let_def on_screen_def not_le order.strict_iff_order)
  show "\<forall>k \<ge> 2000. video_memory (scroll s) k = video_memory s k"
    by (simp add: scroll_def Let_def fill_cells_eq copy_up_eq)
  have x: "unat (cursor_x s) < 80" using assms(1) by (simp add: word_less_nat_alt)
  show "term_of (scroll s) = term_advance (blank_cell s) (term_of s)"
  proof (cases "cursor_y s \<ge> 25")
    case True
    then have y: "cursor_y s = 25" using assms(2) by simp
    have "map (fill_cells 1920 2000 (blank_cell s) (copy_up 0 1920 (video_memory s))) [0..<2000]
      = drop 80 (map (video_memory s) [0..<2000]) @ replicate 80 (blank_cell s)"
      by (rule nth_equalityI) (auto simp: fill_cells_eq copy_up_eq nth_append add.commute)
    moreover have "(2000 + unat (cursor_x s)) mod 80 = unat (cursor_x s)"
      using x mod_mult_self3 [of 25 80 "unat (cursor_x s)"] by simp
    ultimately show ?thesis
      using y by (simp add: scroll_def Let_def term_of_def cursor_cell_def term_advance_def)
  next
    case False
    then have "unat (cursor_y s) < 25" by (simp add: not_le word_less_nat_alt)
    then have "cursor_cell s < 2000" using x unfolding cursor_cell_def by linarith
    then show ?thesis using False by (simp add: scroll_def Let_def term_of_def term_advance_def)
  qed
qed


lemma blank_cell_cong:
  "background_color s' = background_color s \<Longrightarrow> foreground_color s' = foreground_color s
    \<Longrightarrow> blank_cell s' = blank_cell s"
  by (simp add: blank_cell_def get_attribute_byte_def)

lemma scroll_simps [simp]:
  "background_color (scroll s) = background_color s" "foreground_color (scroll s) = foreground_color s"
  by (simp_all add: scroll_def Let_def)

lemma finish_put_term:
  assumes "cursor_x s1 \<le> 80" "cursor_y s1 < 25 \<or> cursor_x s1 = 0 \<and> cursor_y s1 = 25"
  shows "on_screen (finish_put s1)"
    "term_of (finish_put s1) = term_advance (blank_cell s1) (term_of s1)"
    "\<forall>k \<ge> 2000. video_memory (finish_put s1) k = video_memory s1 k"
    "background_color (finish_put s1) = background_color s1" "foreground_color (finish_put s1) = foreground_color s1"
proof -
  let ?s2 = "if cursor_x s1 \<ge> 80 then s1\<lparr>cursor_x := 0, cursor_y := cursor_y s1 + 1\<rparr> else s1"
  have y: "unat (cursor_y s1 + 1) = unat (cursor_y s1) + 1" if "cursor_y s1 < 25"
    using that by (subst unat_plus_no_wrap) (simp_all add: word_less_nat_alt)
  have b: "cursor_x ?s2 < 80" "cursor_y ?s2 \<le> 25"
    using assms y by (auto simp: word_less_nat_alt word_le_nat_alt)
  have v: "video_memory ?s2 = video_memory s1" "blank_cell ?s2 = blank_cell s1"
    by (simp_all add: blank_cell_def get_attribute_byte_def)
  have "term_of ?s2 = term_of s1"
    using assms y by (auto simp: term_of_def cursor_cell_def word_le_nat_alt word_less_nat_alt)
  then show "term_of (finish_put s1) = term_advance (blank_cell s1) (term_of s1)"
    using scroll_term(2) [OF b] v by (simp add: finish_put_def)
  show "on_screen (finish_put s1)" using scroll_term(1) [OF b] by (simp add: finish_put_def)
  show "\<forall>k \<ge> 2000. video_memory (finish_put s1) k = video_memory s1 k"
    using scroll_term(3) [OF b] v by (simp add: finish_put_def)
qed (simp_all add: finish_put_def)

lemma map_upd_cell:
  "k < n \<Longrightarrow> map (vm(k := v)) [0..<n] = (map vm [0..<n])[k := v]"
  by (rule nth_equalityI) (auto simp: nth_list_update)

lemma put_term:
  assumes on: "on_screen s"
  shows "on_screen (monitor_put c s)
    \<and> term_of (monitor_put c s) = term_put (push_bit 8 (ucast (get_attribute_byte s))) (blank_cell s) c (term_of s)
    \<and> (\<forall>k \<ge> 2000. video_memory (monitor_put c s) k = video_memory s k)
    \<and> background_color (monitor_put c s) = background_color s
    \<and> foreground_color (monitor_put c s) = foreground_color s"
proof -
  let ?x = "unat (cursor_x s)" and ?y = "unat (cursor_y s)"
  have x: "?x < 80" and y: "?y < 25" using on by (simp_all add: on_screen_def word_less_nat_alt)
  then have cc: "cursor_cell s < 2000" "cursor_cell s mod 80 = ?x" "cursor_cell s div 80 = ?y"
    unfolding cursor_cell_def by (linarith, simp, simp)
  have xb: "cursor_x s < 80" and yb: "cursor_y s < 25" using on by (simp_all add: on_screen_def)
  have y1: "unat (cursor_y s + 1) = ?y + 1"
    using y by (subst unat_plus_no_wrap) simp_all
  have x1: "unat (cursor_x s + 1) = ?x + 1"
    using x by (subst unat_plus_no_wrap) simp_all
  consider (bs) "c = 8" "cursor_x s \<noteq> 0" | (bs0) "c = 8" "cursor_x s = 0" | (tab) "c = 9"
    | (nl) "c = 10 \<or> c = 13" | (ch) "sint c \<ge> 32" "c \<noteq> 8" "c \<noteq> 9" "c \<noteq> 10" "c \<noteq> 13"
    | (other) "\<not> sint c \<ge> 32" "c \<noteq> 8" "c \<noteq> 9" "c \<noteq> 10" "c \<noteq> 13" by blast
  then show ?thesis
  proof cases
    case bs
    let ?s1 = "s\<lparr>cursor_x := cursor_x s - 1, video_memory := (video_memory s)(cursor_cell s - 1 := blank_cell s)\<rparr>"
    have x0: "?x \<noteq> 0" using bs by (simp add: unat_eq_zero)
    then have xm: "unat (cursor_x s - 1) = ?x - 1" by (subst unat_minus_le) simp_all
    have pos: "cursor_cell (s\<lparr>cursor_x := cursor_x s - 1\<rparr>) = cursor_cell s - 1"
      using x0 by (simp add: cursor_cell_def xm)
    have put: "monitor_put c s = finish_put ?s1"
      using bs by (simp add: monitor_put_def finish_put_def Let_def pos blank_cell_def)
    have "cursor_x ?s1 \<le> 80" "cursor_y ?s1 < 25" using x xm yb by (simp_all add: word_le_nat_alt)
    note f = finish_put_term [of ?s1, OF this(1) disjI1, OF this(2), folded put]
    have "term_of ?s1 = ((map (video_memory s) [0..<2000])[cursor_cell s - 1 := blank_cell s], cursor_cell s - 1)"
      using cc(1) pos by (simp add: term_of_def map_upd_cell cursor_cell_def)
    then show ?thesis
      using f bs cc x0 by (simp add: term_put_def term_of_def term_advance_def)
  next
    case bs0
    have put: "monitor_put c s = finish_put s"
      using bs0 by (simp add: monitor_put_def finish_put_def Let_def)
    have "cursor_x s \<le> 80" using xb by simp
    note f = finish_put_term [of s, OF this disjI1, OF yb, folded put]
    then show ?thesis
      using bs0 cc by (simp add: term_put_def term_of_def term_advance_def)
  next
    case tab
    let ?s1 = "s\<lparr>cursor_x := (cursor_x s + 8) AND NOT 7\<rparr>"
    have put: "monitor_put c s = finish_put ?s1"
      using tab by (simp add: monitor_put_def finish_put_def Let_def)
    have t: "unat ((cursor_x s + 8) AND NOT 7) = (?x + 8) div 8 * 8" using tab_stop [OF xb] .
    then have "cursor_x ?s1 \<le> 80" "cursor_y ?s1 < 25" using x yb by (simp_all add: word_le_nat_alt)
    note f = finish_put_term [of ?s1, OF this(1) disjI1, OF this(2), folded put]
    have "cursor_cell ?s1 = (cursor_cell s + 8) div 8 * 8"
      unfolding cursor_cell_def using t div_mult_self3 [of 8 "?y * 10" "?x + 8"] by (simp add: add.assoc mult.commute)
    then show ?thesis
      using f tab by (simp add: term_put_def term_of_def blank_cell_def get_attribute_byte_def)
  next
    case nl
    let ?s1 = "s\<lparr>cursor_x := 0, cursor_y := cursor_y s + 1\<rparr>"
    have put: "monitor_put c s = finish_put ?s1"
      using nl by (auto simp: monitor_put_def finish_put_def Let_def)
    have "cursor_x ?s1 \<le> 80" "cursor_y ?s1 < 25 \<or> cursor_x ?s1 = 0 \<and> cursor_y ?s1 = 25"
      using y y1 by (auto simp: word_less_nat_alt word_unat_eq_iff)
    note f = finish_put_term [of ?s1, OF this, folded put]
    have "cursor_cell ?s1 = (cursor_cell s div 80 + 1) * 80"
      using y1 cc(3) by (simp add: cursor_cell_def)
    then show ?thesis
      using f nl by (auto simp: term_put_def term_of_def blank_cell_def get_attribute_byte_def)
  next
    case ch
    let ?v = "ucast c OR push_bit 8 (ucast (get_attribute_byte s))"
    let ?s1 = "s\<lparr>video_memory := (video_memory s)(cursor_cell s := ?v), cursor_x := cursor_x s + 1\<rparr>"
    have put: "monitor_put c s = finish_put ?s1"
      using ch by (simp add: monitor_put_def finish_put_def Let_def)
    have "cursor_x ?s1 \<le> 80" "cursor_y ?s1 < 25" using x x1 yb by (simp_all add: word_le_nat_alt)
    note f = finish_put_term [of ?s1, OF this(1) disjI1, OF this(2), folded put]
    have "term_of ?s1 = ((map (video_memory s) [0..<2000])[cursor_cell s := ?v], cursor_cell s + 1)"
      using cc(1) x1 by (simp add: term_of_def map_upd_cell cursor_cell_def)
    then show ?thesis
      using f ch cc(1) by (simp add: term_put_def term_of_def blank_cell_def get_attribute_byte_def)
  next
    case other
    have put: "monitor_put c s = finish_put s"
      using other by (simp add: monitor_put_def finish_put_def Let_def)
    have "cursor_x s \<le> 80" using xb by simp
    note f = finish_put_term [of s, OF this disjI1, OF yb, folded put]
    then show ?thesis
      using other cc by (simp add: term_put_def term_of_def term_advance_def)
  qed
qed


text \<open>
  C25: monitor_put keeps the cursor on the screen and implements the abstract terminal:
  printable characters fill the next cell, backspace blanks the previous one, tab goes to
  the next multiple of eight, new lines to the next line, and past the last cell the rows
  move up by one. Nothing outside the 2000 cells is written.
\<close>

theorem monitor_put_refines_terminal:
  assumes "on_screen s"
  shows "on_screen (monitor_put c s)
    \<and> term_of (monitor_put c s) = term_put (push_bit 8 (ucast (get_attribute_byte s))) (blank_cell s) c (term_of s)
    \<and> (\<forall>k \<ge> 2000. video_memory (monitor_put c s) k = video_memory s k)"
  using put_term [OF assms, of c] by blast

theorem monitor_put_refines_terminal_witness:
  "term_of (monitor_put 65 (initial_monitor (\<lambda>_. 0))) = (0x3F41 # replicate 1999 0, 1)"
proof -
  let ?s = "initial_monitor (\<lambda>_. 0)"
  have "on_screen ?s" by (simp add: on_screen_def initial_monitor_def)
  from monitor_put_refines_terminal [OF this, of 65]
  have "term_of (monitor_put 65 ?s) = term_put (push_bit 8 (ucast (get_attribute_byte ?s))) (blank_cell ?s) 65 (term_of ?s)"
    by blast
  moreover have "map (\<lambda>_. 0) [0..<2000] = (replicate 2000 0 :: uint16 list)"
    by (simp only: map_replicate_const length_upt diff_zero)
  moreover have "(replicate 2000 0 :: uint16 list) = 0 # replicate 1999 0"
    by (metis numeral_nat(7) replicate_Suc numeral_eq_Suc pred_numeral_simps(2) Num.arith_simps(18) pred_numeral_simps(3) BitM.simps)
  ultimately show ?thesis
    by (simp add: term_put_def term_of_def term_advance_def cursor_cell_def initial_monitor_def get_attribute_byte_def)
qed

section \<open>Strings\<close>

text \<open>
  What a driver of a screen promises: each put implements the abstract put, and does not
  change the colours, so a string implements the abstract puts of its characters.
\<close>

locale terminal_driver =
  fixes put :: "'c \<Rightarrow> 's \<Rightarrow> 's"
    and ok :: "'s \<Rightarrow> bool"
    and abs :: "'s \<Rightarrow> 'a"
    and colours :: "'s \<Rightarrow> 'k"
    and aput :: "'k \<Rightarrow> 'c \<Rightarrow> 'a \<Rightarrow> 'a"
  assumes put_ok: "ok s \<Longrightarrow> ok (put c s)"
    and put_abs: "ok s \<Longrightarrow> abs (put c s) = aput (colours s) c (abs s)"
    and put_colours: "ok s \<Longrightarrow> colours (put c s) = colours s"
begin

lemma run_ok: "ok s \<Longrightarrow> ok (fold put cs s)"
  by (induction cs arbitrary: s) (auto simp: put_ok)

lemma run_colours: "ok s \<Longrightarrow> colours (fold put cs s) = colours s"
  by (induction cs arbitrary: s) (auto simp: put_ok put_colours)

lemma run_abs: "ok s \<Longrightarrow> abs (fold put cs s) = fold (aput (colours s)) cs (abs s)"
  by (induction cs arbitrary: s) (auto simp: put_ok put_abs put_colours)

end

interpretation screen: terminal_driver monitor_put on_screen term_of
  "\<lambda>s. (background_color s, foreground_color s)"
  "\<lambda>(bg, fg). term_put (push_bit 8 (ucast (push_bit 4 bg OR (fg AND 0x0F))))
     (0x20 OR push_bit 8 (ucast (push_bit 4 bg OR (fg AND 0x0F))))"
  by unfold_locales (use put_term in \<open>auto simp: get_attribute_byte_def blank_cell_def\<close>)

text \<open>The abstract put in the colours of a monitor whose foreground is \<open>fg\<close>.\<close>

definition colour_put :: "monitor_t \<Rightarrow> uint8 \<Rightarrow> uint8 \<Rightarrow> terminal \<Rightarrow> terminal" where
  "colour_put s fg =
     (let s' = s\<lparr>foreground_color := fg\<rparr>
      in term_put (push_bit 8 (ucast (get_attribute_byte s'))) (blank_cell s'))"

text \<open>
  monitor_write_sys prints the string up to its zero byte in red (4) on the terminal,
  keeps the cursor on the screen, and restores the foreground colour.
\<close>

lemma monitor_write_sys_red:
  assumes "on_screen s"
  shows "on_screen (monitor_write_sys cs s)
    \<and> term_of (monitor_write_sys cs s) = fold (colour_put s 4) (takeWhile (\<lambda>c. c \<noteq> 0) cs) (term_of s)
    \<and> foreground_color (monitor_write_sys cs s) = foreground_color s
    \<and> background_color (monitor_write_sys cs s) = background_color s"
proof -
  let ?s = "s\<lparr>foreground_color := 4\<rparr>" and ?cs = "takeWhile (\<lambda>c. c \<noteq> 0) cs"
  have on: "on_screen ?s" using assms by (simp add: on_screen_def)
  have t: "term_of (u\<lparr>foreground_color := f\<rparr>) = term_of u" "on_screen (u\<lparr>foreground_color := f\<rparr>) = on_screen u" for u f
    by (simp_all add: term_of_def on_screen_def cursor_cell_def)
  show ?thesis
    using screen.run_ok [OF on, of ?cs] screen.run_abs [OF on, of ?cs] screen.run_colours [OF on, of ?cs]
    by (simp add: monitor_write_sys_def monitor_write_color_def Let_def monitor_write_fold t colour_put_def
        get_attribute_byte_def blank_cell_def)
qed

section \<open>Numbers\<close>

text \<open>The digits of a number in base \<open>b\<close>, without leading zeroes.\<close>

function digits :: "nat \<Rightarrow> nat \<Rightarrow> nat list" where
  "digits b n = (if b < 2 \<or> n < b then [n] else digits b (n div b) @ [n mod b])"
  by pat_completeness auto
termination by (relation "measure snd") auto

declare digits.simps [simp del]

definition dec_char :: "nat \<Rightarrow> uint8" where "dec_char d = 48 + of_nat d"

definition hex_digit_char :: "nat \<Rightarrow> uint8" where
  "hex_digit_char d = (if d < 10 then of_nat (48 + d) else of_nat (97 + (d - 10)))"

lemma digits_unfold: "b \<ge> 2 \<Longrightarrow> n \<ge> b \<Longrightarrow> digits b n = digits b (n div b) @ [n mod b]"
  by (subst digits.simps) simp

lemma digits_single: "n < b \<Longrightarrow> digits b n = [n]"
  by (subst digits.simps) simp

text \<open>The digits from the given position down, zeroes included.\<close>

fun fixed_digits :: "nat \<Rightarrow> nat \<Rightarrow> nat \<Rightarrow> nat list" where
  "fixed_digits b 0 n = []"
| "fixed_digits b (Suc k) n = (n div b ^ k mod b) # fixed_digits b k n"

lemma fixed_digits_snoc: "fixed_digits b (Suc k) n = fixed_digits b k (n div b) @ [n mod b]"
  by (induction k) (simp_all add: div_mult2_eq [symmetric] mult.commute)

lemma digits_fixed:
  assumes "b \<ge> 2" "b ^ k \<le> n" "n < b ^ Suc k"
  shows "digits b n = fixed_digits b (Suc k) n"
  using assms(2,3)
proof (induction k arbitrary: n)
  case 0
  then show ?case by (simp add: digits_single)
next
  case (Suc k)
  have "b ^ k \<le> n div b" "n div b < b ^ Suc k"
    using Suc.prems assms(1) by (auto simp: less_eq_div_iff_mult_less_eq div_less_iff_less_mult mult.commute)
  from Suc.IH [OF this] have IH: "digits b (n div b) = fixed_digits b (Suc k) (n div b)" .
  have "b \<le> b ^ Suc k" using assms(1) by simp
  then have "n \<ge> b" using Suc.prems(1) by linarith
  then show ?case
    using digits_unfold [OF assms(1)] IH fixed_digits_snoc [of b "Suc k" n] by metis
qed

lemma nibble: "unat (drop_bit (4 * k) n AND 0xF :: uint32) = unat n div 16 ^ k mod 16"
proof -
  have "(0xF :: uint32) = mask 4" by (simp add: mask_eq_exp_minus_1)
  then have "drop_bit (4 * k) n AND 0xF = take_bit 4 (drop_bit (4 * k) n)" by (simp add: take_bit_eq_mask)
  then have "unat (drop_bit (4 * k) n AND 0xF) = take_bit 4 (unat (drop_bit (4 * k) n))"
    by (simp add: unsigned_take_bit_eq)
  also have "\<dots> = unat n div 16 ^ k mod 16"
    by (subst unat_drop_bit_eq) (simp add: drop_bit_eq_div [where 'a = nat] take_bit_eq_mod power_mult)
  finally show ?thesis .
qed

lemma hex_char_digit: "hex_char w = hex_digit_char (unat w)" if "unat w < 16"
proof -
  have "w = of_nat (unat w)" by simp
  moreover have "[0..<16] = [0, 1, 2, 3, 4, 5, 6, 7, 8, 9, 10, 11, 12, 13, 14, 15 :: nat]"
    by code_simp
  then have "unat w \<in> set [0, 1, 2, 3, 4, 5, 6, 7, 8, 9, 10, 11, 12, 13, 14, 15]"
    using that by (metis atLeastLessThan_upt atLeastLessThan_iff zero_le)
  then have "w \<in> {0, 1, 2, 3, 4, 5, 6, 7, 8, 9, 10, 11, 12, 13, 14, 15}"
    by (auto simp: word_unat_eq_iff)
  ultimately show ?thesis by (auto simp: hex_char_def hex_digit_char_def word_le_nat_alt)
qed

lemma hex_loop_fixed:
  "hex_loop n k False s = fold monitor_put (map hex_digit_char (butlast (fixed_digits 16 (Suc k) (unat n)))) s"
proof (induction k arbitrary: s)
  case (Suc k)
  have "hex_loop n (Suc k) False s = hex_loop n k False (monitor_put (hex_char (drop_bit (4 * Suc k) n AND 0xF)) s)"
    by (simp add: Let_def)
  also have "hex_char (drop_bit (4 * Suc k) n AND 0xF) = hex_digit_char (unat n div 16 ^ Suc k mod 16)"
    using nibble [of "Suc k" n] hex_char_digit [of "drop_bit (4 * Suc k) n AND 0xF"] by simp
  finally show ?case using Suc by simp
qed simp


lemma hex_loop_digits:
  assumes "unat n < 16 ^ Suc k"
  shows "hex_loop n k True s = fold monitor_put (map hex_digit_char (butlast (digits 16 (unat n)))) s"
  using assms
proof (induction k arbitrary: s)
  case 0
  then show ?case by (simp add: digits_single)
next
  case (Suc k)
  let ?d = "unat n div 16 ^ Suc k"
  have d: "?d < 16" using Suc.prems by (simp add: div_less_iff_less_mult mult.commute)
  let ?w = "drop_bit (4 * Suc k) n AND 0xF"
  have w: "unat ?w = ?d" using nibble [of "Suc k" n] d by simp
  show ?case
  proof (cases "?d = 0")
    case True
    then have "unat n < 16 ^ Suc k" by (simp add: div_eq_0_iff)
    moreover have "?w = 0" using w True by (simp add: unat_eq_zero)
    then have "hex_loop n (Suc k) True s = hex_loop n k True s" by (simp add: Let_def)
    ultimately show ?thesis using Suc.IH by simp
  next
    case False
    have wn: "?w \<noteq> 0"
    proof
      assume "?w = 0"
      then have "unat ?w = 0" by (simp only: unat_0)
      with w False show False by simp
    qed
    have "16 ^ Suc k \<le> unat n" using False by (metis div_less not_le)
    then have dg: "digits 16 (unat n) = fixed_digits 16 (Suc (Suc k)) (unat n)"
      using digits_fixed [of 16 "Suc k" "unat n"] Suc.prems by simp
    have "hex_loop n (Suc k) True s = hex_loop n k False (monitor_put (hex_char ?w) s)"
      using wn by (simp add: Let_def)
    also have "hex_char ?w = hex_digit_char (?d mod 16)" using hex_char_digit [of ?w] w d by simp
    finally show ?thesis using dg hex_loop_fixed by simp
  qed
qed

text \<open>
  C26: monitor_write_hex prints 0x and then the hexadecimal digits of its argument, lower
  case, most significant first and without leading zeroes (a single 0 for zero).
\<close>

theorem monitor_write_hex_digits:
  "monitor_write_hex n s =
    fold monitor_put (map hex_digit_char (digits 16 (unat n))) (monitor_put 120 (monitor_put 48 s))"
proof -
  have n: "unat n < 16 ^ Suc 7" by simp
  have "hex_char (n AND 0xF) = hex_digit_char (unat n mod 16)"
    using nibble [of 0 n] hex_char_digit [of "n AND 0xF"] by simp
  moreover have "last (digits 16 (unat n)) = unat n mod 16"
    by (subst digits.simps) simp
  moreover have "digits 16 (unat n) \<noteq> []" by (subst digits.simps) simp
  ultimately have "digits 16 (unat n) = butlast (digits 16 (unat n)) @ [unat n mod 16]"
    by (metis append_butlast_last_id)
  then have "map hex_digit_char (digits 16 (unat n)) =
      map hex_digit_char (butlast (digits 16 (unat n))) @ [hex_digit_char (unat n mod 16)]"
    by (metis list.map(1) list.map(2) map_append)
  then show ?thesis
    using hex_loop_digits [OF n] \<open>hex_char (n AND 0xF) = _\<close>
    by (simp add: monitor_write_hex_def cstr_def)
qed


lemma length_digits:
  assumes "b \<ge> 2" "n < b ^ Suc k"
  shows "length (digits b n) \<le> Suc k"
  using assms(2)
proof (induction k arbitrary: n)
  case (Suc k)
  have "n div b < b ^ Suc k" using Suc.prems assms(1) by (simp add: div_less_iff_less_mult mult.commute)
  then show ?case using Suc.IH by (subst digits.simps) simp
qed (simp add: digits_single)

lemma digits_less: "b \<ge> 2 \<Longrightarrow> d \<in> set (digits b n) \<Longrightarrow> d < b"
proof (induction b n rule: digits.induct)
  case (1 b n)
  show ?case
  proof (cases "n < b")
    case False
    then have "d \<in> set (digits b (n div b)) \<or> d = n mod b"
      using 1(3) digits_unfold [OF 1(2), of n] by auto
    then show ?thesis using 1 False by auto
  qed (use 1(3) in \<open>simp add: digits_single\<close>)
qed

lemma dec_loop_digits:
  assumes "acc > 0"
  shows "dec_loop acc i c = (i + length (digits 10 (nat acc)),
    \<lambda>j. if i \<le> j \<and> j < i + length (digits 10 (nat acc))
        then dec_char (rev (digits 10 (nat acc)) ! (j - i)) else c j)"
  using assms
proof (induction acc i c rule: dec_loop.induct)
  case (1 acc i c)
  let ?c = "c(i := 48 + of_int (acc mod 10))"
  have ch: "48 + of_int (acc mod 10) = dec_char (nat acc mod 10)"
  proof -
    have "acc mod 10 = int (nat acc mod 10)" using 1(2) by (simp add: zmod_int)
    then show ?thesis by (metis dec_char_def of_int_of_nat_eq)
  qed
  have step: "dec_loop acc i c = dec_loop (acc div 10) (i + 1) ?c" using 1(2) by (subst dec_loop.simps) simp
  show ?case
  proof (cases "acc < 10")
    case True
    then have "acc div 10 = 0" "nat acc < 10" using 1(2) by simp_all
    then show ?thesis
      using step ch 1(2) by (subst (asm) dec_loop.simps [of "acc div 10"]) (auto simp: digits_single)
  next
    case False
    then have q: "acc div 10 > 0" "nat (acc div 10) = nat acc div 10" "nat acc \<ge> 10"
      using 1(2) by (auto simp: nat_div_distrib)
    have ds: "digits 10 (nat acc) = digits 10 (nat acc div 10) @ [nat acc mod 10]"
      using q(3) by (intro digits_unfold) simp_all
    show ?thesis
      unfolding step 1(1) [OF 1(2) q(1)] unfolding q(2) ds ch
      by (auto simp: nth_Cons' fun_eq_iff)
  qed
qed

lemma reverse_loop_eq:
  "reverse_loop i j c c2 = (\<lambda>m. if m < i then c (j + (i - 1 - m)) else c2 m)"
proof (induction i j c c2 rule: reverse_loop.induct)
  case (2 i j c c2)
  show ?case
  proof
    fix m
    have "Suc j + (i - 1 - m) = j + (i - m)" if "m < i" using that by simp
    then show "reverse_loop (Suc i) j c c2 m = (if m < Suc i then c (j + (Suc i - 1 - m)) else c2 m)"
      unfolding reverse_loop.simps 2 by (auto simp: less_Suc_eq)
  qed
qed simp

lemma dec_array:
  assumes ds: "ds \<noteq> []" "length ds < 32" "\<forall>d \<in> set ds. d < 10"
    and c: "\<And>j. j < length ds \<Longrightarrow> c j = dec_char (rev ds ! j)"
  shows "takeWhile (\<lambda>c. c \<noteq> 0) (char_array 32 (reverse_loop (length ds) 0 c ((\<lambda>_. 0)(length ds := 0))))
    = map dec_char ds"
proof -
  let ?n = "length ds"
  let ?a = "char_array 32 (reverse_loop ?n 0 c ((\<lambda>_. 0)(?n := 0)))"
  have "take ?n ?a = map dec_char ds"
    using ds(2) c by (intro nth_equalityI) (auto simp: char_array_def reverse_loop_eq rev_nth)
  moreover have "drop ?n ?a = 0 # drop (Suc ?n) ?a"
    using ds(2) by (subst Cons_nth_drop_Suc [symmetric]) (simp_all add: char_array_def reverse_loop_eq)
  ultimately have a: "?a = map dec_char ds @ 0 # drop (Suc ?n) ?a" by (metis append_take_drop_id)
  have "dec_char d \<noteq> 0" if "d < 10" for d
  proof -
    have "unat (dec_char d) = 48 + d" using that by (simp add: dec_char_def unat_word_ariths unat_of_nat)
    then show ?thesis by (metis add_is_0 unat_0 zero_neq_numeral)
  qed
  then have "\<forall>x \<in> set (map dec_char ds). x \<noteq> 0" using ds(3) by auto
  then have "takeWhile (\<lambda>c. c \<noteq> 0) (map dec_char ds @ 0 # ys) = map dec_char ds" for ys
    by (subst takeWhile_append2) auto
  then show ?thesis using a by metis
qed

lemma sint_small:
  fixes n :: uint32
  assumes "unat n < 2147483648"
  shows "sint n = int (unat n)"
proof -
  have u: "int (unat n) = uint n" by simp
  then have "uint n < 2147483648" using assms by linarith
  moreover have "- 2147483648 \<le> uint n" by (rule order_trans [of _ 0]) simp_all
  ultimately have "signed_take_bit 31 (uint n) = uint n" by (intro signed_take_bit_int_eq_self) auto
  then show ?thesis unfolding u by (simp add: sint_uint)
qed

lemma sint_large:
  fixes n :: uint32
  assumes "2147483648 \<le> unat n"
  shows "sint n < 0"
proof -
  have "int (unat n) = uint n" "unat n < 4294967296" by simp_all
  then have "2147483648 \<le> uint n" "uint n < 4294967296" using assms by linarith+
  moreover have "(uint n + 2147483648) mod 4294967296 = (uint n - 2147483648 + 4294967296) mod 4294967296"
    by (simp add: add.commute)
  moreover have "\<dots> = (uint n - 2147483648) mod 4294967296" by (rule mod_add_self2)
  ultimately have "(uint n + 2147483648) mod 4294967296 < 2147483648" by (simp add: mod_pos_pos_trivial)
  then have "signed_take_bit 31 (uint n) < 0"
    by (simp add: signed_take_bit_eq_take_bit_shift take_bit_eq_mod)
  then show ?thesis by (simp add: sint_uint)
qed

text \<open>
  C27: monitor_write_dec prints the decimal digits of its argument, most significant first
  and without leading zeroes, when the argument is below 2^31; above it prints nothing,
  because it copies the unsigned argument into a signed int and loops while that is positive.
\<close>

theorem monitor_write_dec_digits:
  "monitor_write_dec n s =
    (if unat n < 2147483648 then fold monitor_put (map dec_char (digits 10 (unat n))) s else s)"
proof -
  consider (zero) "n = 0" | (pos) "n \<noteq> 0" "unat n < 2147483648" | (neg) "2147483648 \<le> unat n" by linarith
  then show ?thesis
  proof cases
    case zero
    then show ?thesis by (simp add: monitor_write_dec_def digits_single dec_char_def)
  next
    case pos
    let ?ds = "digits 10 (unat n)"
    have si: "sint n = int (unat n)" using pos(2) by (rule sint_small)
    moreover have "unat n \<noteq> 0" using pos(1) by (simp add: unat_eq_zero)
    ultimately have "sint n > 0" by linarith
    from dec_loop_digits [OF this, of 0 "\<lambda>_. 0"] have dl: "dec_loop (sint n) 0 (\<lambda>_. 0) =
        (length ?ds, \<lambda>j. if j < length ?ds then dec_char (rev ?ds ! j) else 0)"
      unfolding si nat_int diff_zero by simp
    have "?ds \<noteq> []" by (subst digits.simps) simp
    moreover have "length ?ds < 32" using length_digits [of 10 "unat n" 9] pos(2) by simp
    moreover have "\<forall>d \<in> set ?ds. d < 10" using digits_less [of 10 _ "unat n"] by simp
    ultimately show ?thesis
      using pos dl by (simp add: monitor_write_dec_def Let_def monitor_write_fold dec_array)
  next
    case neg
    have "n \<noteq> 0" using neg by auto
    have "sint n < 0" using neg by (rule sint_large)
    then have "dec_loop (sint n) 0 (\<lambda>_. 0) = (0, \<lambda>_. 0)" by (subst dec_loop.simps) simp
    then show ?thesis using neg \<open>n \<noteq> 0\<close>
      by (simp add: monitor_write_dec_def Let_def monitor_write_fold char_array_def upt_rec)
  qed
qed

end
