(* ===== verification/Interrupts.thy ===== *)
theory Interrupts
  imports Task Terminal
begin

text \<open>
  src/drivers/timer/timer.c, src/interrupts/isr.c and .h, and page_fault of
  src/memory/paging.c: the handlers and their dispatch. What the hardware gives to a handler
  (the scan code at port 0x60, CR2, the stack registers and the value of read_eip) is an
  argument.
\<close>

section \<open>The timer\<close>

definition IRQ0 :: uint8 where "IRQ0 = 32"
definition IRQ1 :: uint8 where "IRQ1 = 33"

definition m_outb :: "uint16 \<Rightarrow> uint8 \<Rightarrow> machine \<Rightarrow> machine" where
  "m_outb port v m = m\<lparr>m_ports := m_ports m @ [(port, v)]\<rparr>"

definition m_register :: "uint8 \<Rightarrow> isr_t \<Rightarrow> machine \<Rightarrow> machine" where
  "m_register n handler m = m\<lparr>ks := register_interrupt_handler n handler (ks m)\<rparr>"

definition timer_callback :: "cpu_regs \<Rightarrow> machine \<Rightarrow> machine \<times> cpu_regs option" where
  "timer_callback cpu m = switch_task cpu (m\<lparr>tick := tick m + 1\<rparr>)"

definition init_timer :: "size_t \<Rightarrow> machine \<Rightarrow> kerror + machine" where
  "init_timer frequency m =
     (let m1 = m_register IRQ0 timer_callback_isr m
      in if frequency = 0 then Inl DivideByZero
         else
           let divisor = 1193180 div frequency;
               m2 = m_outb 0x43 0x36 m1;
               l = ucast (divisor AND 0xFF); h = ucast (drop_bit 8 divisor AND 0xFF)
           in Inr (m_outb 0x40 h (m_outb 0x40 l m2)))"

definition install_keyboard_driver :: "machine \<Rightarrow> machine" where
  "install_keyboard_driver m = m_register IRQ1 keyboard_handler_isr m"

section \<open>Registers and the page fault\<close>

record registers_t =
  ds :: size_t
  edi :: size_t
  esi :: size_t
  ebp :: size_t
  esp :: size_t
  ebx :: size_t
  edx :: size_t
  ecx :: size_t
  eax :: size_t
  int_no :: size_t
  err_code :: size_t
  eip :: size_t
  cs :: size_t
  eflags :: size_t
  useresp :: size_t
  ss :: size_t

text \<open>What page_fault prints before it panics; it never returns.\<close>

definition page_fault_output :: "size_t \<Rightarrow> registers_t \<Rightarrow> monitor_t \<Rightarrow> monitor_t" where
  "page_fault_output faulting_address regs s0 =
     (let present = \<not> (err_code regs AND 0x1 \<noteq> 0);
          rw = err_code regs AND 0x2 \<noteq> 0; us = err_code regs AND 0x4 \<noteq> 0;
          reserved = err_code regs AND 0x8 \<noteq> 0;
          say = (\<lambda>str. monitor_write_sys (cstr str));
          s1 = monitor_write_hex (err_code regs) (say ''Page fault! ( '' s0);
          s2 = (if present then say '' not present '' s1 else s1);
          s3 = (if rw then say ''read-only '' s2 else s2);
          s4 = (if us then say ''user-mode '' s3 else s3);
          s5 = (if reserved then say ''reserved '' s4 else s4);
          s6 = monitor_write_hex faulting_address (say '') at '' s5);
          s7 = monitor_write_hex (eip regs) (say '' - EIP: '' s6)
      in say [CHR 0x0A] s7)"

section \<open>Dispatch\<close>

text \<open>The hardware's side of an interrupt.\<close>

record hardware =
  hw_port60 :: uint8
  hw_cr2 :: size_t
  hw_cpu :: cpu_regs

text \<open>
  Calling a handler. The result is the machine and, after a task switch, the registers that
  are jumped to; page_fault does not return.
\<close>

definition call_isr :: "isr_t \<Rightarrow> hardware \<Rightarrow> registers_t \<Rightarrow> machine \<Rightarrow> kerror + machine \<times> cpu_regs option" where
  "call_isr handler hw regs m =
     (case handler of
        page_fault_isr \<Rightarrow> Inl (Panic ''Page fault'')
      | keyboard_handler_isr \<Rightarrow>
          (let (fl, mn) = keyboard_handler (hw_port60 hw) (keyboard_flags m, mon m)
           in Inr (m\<lparr>mon := mn, keyboard_flags := fl\<rparr>, None))
      | timer_callback_isr \<Rightarrow> Inr (timer_callback (hw_cpu hw) m))"

text \<open>interrupt_handlers has 256 entries; a larger interrupt number reads outside it.\<close>

definition handler_at :: "size_t \<Rightarrow> machine \<Rightarrow> kerror + isr_t option" where
  "handler_at n m = (if unat n < 256 then Inr (interrupt_handlers (ks m) (ucast n)) else Inl OutOfBounds)"

definition isr_handler :: "hardware \<Rightarrow> registers_t \<Rightarrow> machine \<Rightarrow> kerror + machine \<times> cpu_regs option" where
  "isr_handler hw regs m =
     res_bind (handler_at (int_no regs) m) (\<lambda>h.
       case h of
         Some handler \<Rightarrow> call_isr handler hw regs m
       | None \<Rightarrow>
           Inr (m\<lparr>mon := monitor_put 10 (monitor_write_dec (int_no regs)
                    (monitor_write_sys (cstr ''unhandled interrupt: '') (mon m)))\<rparr>, None))"

definition irq_handler :: "hardware \<Rightarrow> registers_t \<Rightarrow> machine \<Rightarrow> kerror + machine \<times> cpu_regs option" where
  "irq_handler hw regs m =
     (let m1 = (if int_no regs \<ge> 40 then m_outb 0xA0 0x20 m else m);
          m2 = m_outb 0x20 0x20 m1
      in res_bind (handler_at (int_no regs) m2) (\<lambda>h.
         case h of Some handler \<Rightarrow> call_isr handler hw regs m2 | None \<Rightarrow> Inr (m2, None)))"

section \<open>Properties\<close>

lemma switch_task_ports: "m_ports (fst (switch_task cpu m)) = m_ports m"
  by (simp add: switch_task_def m_write_def Let_def)

lemma call_isr_ports: "call_isr handler hw regs m = Inr r \<Longrightarrow> m_ports (fst r) = m_ports m"
  by (auto simp: call_isr_def timer_callback_def switch_task_ports split: isr_t.splits prod.splits)

text \<open>
  Whatever handler runs (also one that switches tasks and never returns here), an IRQ
  has been acknowledged exactly once at the master controller, and before that once at the
  slave when it came from the slave (vectors from 40 on); no other port is written by
  isr.c.
\<close>

lemma irq_handler_acknowledges:
  assumes "irq_handler hw regs m = Inr (m', jump)"
  shows "m_ports m' = m_ports m @ (if int_no regs \<ge> 40 then [(0xA0, 0x20)] else []) @ [(0x20, 0x20)]"
proof -
  let ?m1 = "if int_no regs \<ge> 40 then m_outb 0xA0 0x20 m else m"
  let ?m2 = "m_outb 0x20 0x20 ?m1"
  from assms obtain h where h: "handler_at (int_no regs) ?m2 = Inr h"
    "(case h of Some handler \<Rightarrow> call_isr handler hw regs ?m2 | None \<Rightarrow> Inr (?m2, None)) = Inr (m', jump)"
    by (auto simp: irq_handler_def Let_def res_bind_eq_Inr)
  then have "m_ports m' = m_ports ?m2"
    by (cases h) (auto dest: call_isr_ports)
  then show ?thesis by (simp add: m_outb_def)
qed

text \<open>The registers of a demonstration interrupt.\<close>

definition demo_regs :: "size_t \<Rightarrow> registers_t" where
  "demo_regs n = \<lparr>ds = 0x10, edi = 0, esi = 0, ebp = 0, esp = 0, ebx = 0, edx = 0, ecx = 0, eax = 0,
     int_no = n, err_code = 0, eip = 0x100000, cs = 8, eflags = 0x202, useresp = 0, ss = 0\<rparr>"

text \<open>
  The timer is programmed with the low 16 bits of 1193180 / frequency, low byte first,
  after its command byte, and timer_callback becomes the handler of IRQ0. So the divisor is
  the intended one exactly for frequencies of 19 Hz and more; a frequency of 0 divides by
  zero.
\<close>

lemma init_timer_divisor:
  "init_timer f m = (if f = 0 then Inl DivideByZero else
     Inr (m_register IRQ0 timer_callback_isr m
       \<lparr>m_ports := m_ports m @ [(0x43, 0x36), (0x40, of_nat (1193180 div unat f mod 256)),
          (0x40, of_nat (1193180 div unat f div 256 mod 256))]\<rparr>))
   \<and> (1193180 div unat f < 65536 \<longleftrightarrow> unat f = 0 \<or> unat f \<ge> 19)"
proof -
  have lo: "ucast (d AND 0xFF) = (of_nat (unat d mod 256) :: uint8)" for d :: size_t
  proof -
    have "d AND 0xFF = take_bit 8 d" by (simp add: take_bit_eq_mask mask_eq_exp_minus_1)
    then have "unat (d AND 0xFF) = unat d mod 256"
      by (simp add: unsigned_take_bit_eq take_bit_eq_mod [where 'a = nat])
    then show ?thesis by (metis of_nat_unat)
  qed
  have hi: "unat (drop_bit 8 d) = unat d div 256" for d :: size_t
    by (subst unat_drop_bit_eq) (simp add: drop_bit_eq_div)
  have "unat (1193180 div f) = 1193180 div unat f" by (simp add: unat_div)
  moreover have "1193180 div unat f < 65536 \<longleftrightarrow> unat f = 0 \<or> unat f \<ge> 19"
  proof (cases "unat f = 0")
    case False
    then show ?thesis by (simp add: div_less_iff_less_mult) linarith
  qed simp
  ultimately show ?thesis
    unfolding init_timer_def Let_def lo hi by (simp add: m_outb_def m_register_def)
qed

end
