(* ===== verification/HeapInv.thy ===== *)
theory HeapInv
  imports KHeap
begin

text \<open>
  The layout of the kernel heap: the segments between start_address and end_address, each a
  block or a hole with a header in front and a footer behind, and the index of the holes.
  Addresses and sizes of the layout are natural numbers below \<open>2 ^ 32\<close>.
\<close>

section \<open>Reads after writes of header and footer fields\<close>

lemmas hdr_defs = hdr_magic_def hdr_is_hole_def hdr_size_def set_hdr_magic_def
  set_hdr_is_hole_def set_hdr_size_def
lemmas ftr_defs = ftr_magic_def ftr_header_def set_ftr_magic_def set_ftr_header_def

definition header_at :: "memory \<Rightarrow> nat \<Rightarrow> nat \<Rightarrow> bool \<Rightarrow> bool" where
  "header_at m a n h \<longleftrightarrow> hdr_magic m (of_nat a) = HEAP_MAGIC
     \<and> hdr_is_hole m (of_nat a) = of_bool h \<and> hdr_size m (of_nat a) = of_nat n"

definition footer_at :: "memory \<Rightarrow> nat \<Rightarrow> nat \<Rightarrow> bool" where
  "footer_at m a n \<longleftrightarrow> ftr_magic m (of_nat (a + n - 8)) = HEAP_MAGIC
     \<and> ftr_header m (of_nat (a + n - 8)) = of_nat a"

lemma unat_of_nat_plus:
  fixes k :: nat
  assumes "a + k < 4294967296"
  shows "unat (of_nat a + of_nat k :: uint32) = a + k"
  using unat_of_nat32 [OF assms] by simp

lemma unat_field:
  assumes "a + 12 \<le> 4294967296"
  shows "unat (of_nat a :: uint32) = a" "unat (of_nat a + 4 :: uint32) = a + 4"
    "unat (of_nat a + 8 :: uint32) = a + 8"
  using unat_of_nat_plus [of a 0] unat_of_nat_plus [of a 4] unat_of_nat_plus [of a 8] assms
  by simp_all

lemma unat_footer_field:
  assumes "a + 8 \<le> 4294967296"
  shows "unat (of_nat a :: uint32) = a" "unat (of_nat a + 4 :: uint32) = a + 4"
  using unat_of_nat_plus [of a 0] unat_of_nat_plus [of a 4] assms by simp_all

lemma header_at_eq_on:
  assumes "mem_eq_on S m m'" "{a ..< a + 12} \<subseteq> S" "a + 12 \<le> 4294967296"
  shows "header_at m' a n h \<longleftrightarrow> header_at m a n h"
proof -
  note u = unat_field [OF assms(3)]
  have "rd32 m' (of_nat a) = rd32 m (of_nat a)" "rd32 m' (of_nat a + 8) = rd32 m (of_nat a + 8)"
    using assms(2,3) by (auto intro!: mem_eq_on_rd32 [OF assms(1)] simp: u)
  moreover have "m' (of_nat a + 4) = m (of_nat a + 4)"
    using assms(2) by (intro mem_eq_onD [OF assms(1)]) (auto simp: u)
  ultimately show ?thesis by (simp add: header_at_def hdr_defs)
qed

lemma footer_at_eq_on:
  assumes "mem_eq_on S m m'" "{a + n - 8 ..< a + n} \<subseteq> S" "8 \<le> n" "a + n \<le> 4294967296"
  shows "footer_at m' a n \<longleftrightarrow> footer_at m a n"
proof -
  have b: "a + n - 8 + 8 \<le> 4294967296" using assms by simp
  note u = unat_footer_field [OF b]
  have "rd32 m' (of_nat (a + n - 8)) = rd32 m (of_nat (a + n - 8))"
    "rd32 m' (of_nat (a + n - 8) + 4) = rd32 m (of_nat (a + n - 8) + 4)"
    using assms(2-4) by (auto intro!: mem_eq_on_rd32 [OF assms(1)] simp del: of_nat_diff simp: u subset_eq)
  then show ?thesis by (simp add: footer_at_def ftr_defs)
qed

definition write_header :: "uint32 \<Rightarrow> uint8 \<Rightarrow> size_t \<Rightarrow> memory \<Rightarrow> memory" where
  "write_header p hole sz m = set_hdr_size p sz (set_hdr_is_hole p hole (set_hdr_magic p HEAP_MAGIC m))"

definition write_footer :: "uint32 \<Rightarrow> uint32 \<Rightarrow> memory \<Rightarrow> memory" where
  "write_footer f p m = set_ftr_header f p (set_ftr_magic f HEAP_MAGIC m)"

lemma write_header_at:
  assumes "a + 12 \<le> 4294967296"
  shows "header_at (write_header (of_nat a) (of_bool h) (of_nat n) m) a n h"
  using assms by (simp add: header_at_def write_header_def hdr_defs mem_simps unat_field)

lemma write_footer_at:
  assumes "8 \<le> n" "a + n \<le> 4294967296" "f = a + n - 8"
  shows "footer_at (write_footer (of_nat f) (of_nat a) m) a n"
proof -
  have b: "f + 8 \<le> 4294967296" using assms by simp
  note u = unat_footer_field [OF b]
  show ?thesis
    using b assms(1) unfolding footer_at_def assms(3) [symmetric]
    by (simp add: write_footer_def ftr_defs mem_simps u)
qed

lemma set_hdr_eq_on [agree_intros]:
  assumes "S \<inter> {a ..< a + 12} = {}" "a + 12 \<le> 4294967296"
  shows "mem_eq_on S m (set_hdr_magic (of_nat a) x m)"
    "mem_eq_on S m (set_hdr_is_hole (of_nat a) v m)"
    "mem_eq_on S m (set_hdr_size (of_nat a) n m)"
proof -
  note u = unat_field [OF assms(2)]
  show "mem_eq_on S m (set_hdr_magic (of_nat a) x m)" "mem_eq_on S m (set_hdr_size (of_nat a) n m)"
    using assms unfolding hdr_defs by (auto intro!: mem_eq_on_wr32 simp: u)
  show "mem_eq_on S m (set_hdr_is_hole (of_nat a) v m)"
    using assms unfolding hdr_defs by (intro mem_eq_on_upd) (auto simp: u)
qed

lemma write_header_eq_on [agree_intros]:
  assumes "S \<inter> {a ..< a + 12} = {}" "a + 12 \<le> 4294967296"
  shows "mem_eq_on S m (write_header (of_nat a) v n m)"
  unfolding write_header_def
  using set_hdr_eq_on [OF assms] by (blast intro: mem_eq_on_trans)

lemma write_footer_eq_on [agree_intros]:
  assumes "S \<inter> {f ..< f + 8} = {}" "f + 8 \<le> 4294967296"
  shows "mem_eq_on S m (write_footer (of_nat f) p m)"
proof -
  note u = unat_footer_field [OF assms(2)]
  have "mem_eq_on S m (set_ftr_magic (of_nat f) HEAP_MAGIC m)" for m
    using assms unfolding ftr_defs by (intro mem_eq_on_wr32) (auto simp: u)
  moreover have "mem_eq_on S m (set_ftr_header (of_nat f) p m)" for m
    using assms unfolding ftr_defs by (intro mem_eq_on_wr32) (auto simp: u)
  ultimately show ?thesis unfolding write_footer_def by (blast intro: mem_eq_on_trans)
qed

section \<open>Segments\<close>

text \<open>
  A segment is its size and whether it is a hole. In a chain every segment has a header,
  and a footer unless it is a hole that ends the chain: create_heap writes no footer for
  the first hole.
\<close>

type_synonym seg = "nat \<times> bool"

fun chain :: "memory \<Rightarrow> nat \<Rightarrow> seg list \<Rightarrow> nat \<Rightarrow> bool" where
  "chain m a [] e \<longleftrightarrow> a = e"
| "chain m a ((n, h) # ss) e \<longleftrightarrow>
     20 \<le> n \<and> header_at m a n h \<and> (ss = [] \<and> h \<or> footer_at m a n) \<and> chain m (a + n) ss e"

fun strict_chain :: "memory \<Rightarrow> nat \<Rightarrow> seg list \<Rightarrow> nat \<Rightarrow> bool" where
  "strict_chain m a [] e \<longleftrightarrow> a = e"
| "strict_chain m a ((n, h) # ss) e \<longleftrightarrow>
     20 \<le> n \<and> header_at m a n h \<and> footer_at m a n \<and> strict_chain m (a + n) ss e"

definition seg_size :: "seg list \<Rightarrow> nat" where
  "seg_size ss = sum_list (map fst ss)"

lemma seg_size_simps [simp]:
  "seg_size [] = 0" "seg_size ((n, h) # ss) = n + seg_size ss"
  "seg_size (xs @ ys) = seg_size xs + seg_size ys"
  by (simp_all add: seg_size_def)

lemma chain_end: "chain m a ss e \<Longrightarrow> e = a + seg_size ss"
  by (induction m a ss e rule: chain.induct) auto

lemma strict_chain_end: "strict_chain m a ss e \<Longrightarrow> e = a + seg_size ss"
  by (induction m a ss e rule: strict_chain.induct) auto

lemma strict_chain_chain: "strict_chain m a ss e \<Longrightarrow> chain m a ss e"
  by (induction m a ss e rule: strict_chain.induct) auto

lemma strict_chain_append:
  "strict_chain m a (xs @ ys) e \<longleftrightarrow> strict_chain m a xs (a + seg_size xs) \<and> strict_chain m (a + seg_size xs) ys e"
  by (induction xs arbitrary: a) (auto simp: add.assoc)

lemma chain_append:
  "ys \<noteq> [] \<Longrightarrow> chain m a (xs @ ys) e \<longleftrightarrow> strict_chain m a xs (a + seg_size xs) \<and> chain m (a + seg_size xs) ys e"
  by (induction xs arbitrary: a) (auto simp: add.assoc)

lemma seg_regions:
  assumes "{a ..< e} \<subseteq> S" "e = a + n + k" "20 \<le> (n::nat)"
  shows "{a ..< a + 12} \<subseteq> S" "{a + n - 8 ..< a + n} \<subseteq> S" "{a + n ..< e} \<subseteq> S"
  using assms by (auto simp: subset_eq)

lemma strict_chain_eq_on:
  "strict_chain m a ss e \<Longrightarrow> mem_eq_on S m m' \<Longrightarrow> {a ..< e} \<subseteq> S \<Longrightarrow> e \<le> 4294967296 \<Longrightarrow> strict_chain m' a ss e"
proof (induction m a ss e rule: strict_chain.induct)
  case (2 m a n h ss e)
  have e: "e = a + n + seg_size ss" using "2.prems"(1) strict_chain_end by fastforce
  have n: "20 \<le> n" using "2.prems"(1) by simp
  note r = seg_regions [OF "2.prems"(3) e n]
  show ?case
    using "2.prems" n e r "2.IH" [OF _ "2.prems"(2) r(3)]
      header_at_eq_on [OF "2.prems"(2) r(1)] footer_at_eq_on [OF "2.prems"(2) r(2)] by simp
qed simp

lemma chain_eq_on:
  "chain m a ss e \<Longrightarrow> mem_eq_on S m m' \<Longrightarrow> {a ..< e} \<subseteq> S \<Longrightarrow> e \<le> 4294967296 \<Longrightarrow> chain m' a ss e"
proof (induction m a ss e rule: chain.induct)
  case (2 m a n h ss e)
  have e: "e = a + n + seg_size ss" using "2.prems"(1) chain_end by fastforce
  have n: "20 \<le> n" using "2.prems"(1) by simp
  note r = seg_regions [OF "2.prems"(3) e n]
  show ?case
    using "2.prems" n e r "2.IH" [OF _ "2.prems"(2) r(3)]
      header_at_eq_on [OF "2.prems"(2) r(1)] footer_at_eq_on [OF "2.prems"(2) r(2)] by auto
qed simp

text \<open>The addresses of the holes of a chain that starts at \<open>a\<close>.\<close>

fun holes_at :: "nat \<Rightarrow> seg list \<Rightarrow> nat list" where
  "holes_at a [] = []"
| "holes_at a ((n, h) # ss) = (if h then [a] else []) @ holes_at (a + n) ss"

lemma holes_at_append: "holes_at a (xs @ ys) = holes_at a xs @ holes_at (a + seg_size xs) ys"
  by (induction xs arbitrary: a) (auto simp: add.assoc)

lemma holes_at_split:
  "p \<in> set (holes_at a ss) \<Longrightarrow> \<exists>xs n ys. ss = xs @ (n, True) # ys \<and> p = a + seg_size xs"
proof (induction a ss rule: holes_at.induct)
  case (2 a n h ss)
  show ?case
  proof (cases "h \<and> p = a")
    case True
    then show ?thesis by (intro exI [of _ "[]"]) auto
  next
    case False
    then have "p \<in> set (holes_at (a + n) ss)" using "2.prems" by (auto split: if_splits)
    with "2.IH" obtain xs k ys where "ss = xs @ (k, True) # ys" "p = a + n + seg_size xs" by blast
    then show ?thesis
      by (intro exI [of _ "(n, h) # xs"] exI [of _ k] exI [of _ ys]) simp
  qed
qed simp

lemma holes_at_ge: "p \<in> set (holes_at a ss) \<Longrightarrow> a \<le> p"
  using holes_at_split by fastforce

section \<open>Replacing segments\<close>

lemma chain_split:
  assumes "chain m a (xs @ (n, h) # ys) e"
  shows "strict_chain m a xs (a + seg_size xs)" "chain m (a + seg_size xs) ((n, h) # ys) e"
    "chain m (a + seg_size xs + n) ys e" "e = a + seg_size xs + n + seg_size ys" "20 \<le> n"
    "header_at m (a + seg_size xs) n h" "ys \<noteq> [] \<or> \<not> h \<Longrightarrow> footer_at m (a + seg_size xs) n"
  using assms chain_end [OF assms] by (auto simp: chain_append)

lemma chain_split_segs:
  assumes "chain m a (xs @ old @ ys) e" "old \<noteq> []"
  shows "strict_chain m a xs (a + seg_size xs)" "chain m (a + seg_size xs) (old @ ys) e"
    "chain m (a + seg_size xs + seg_size old) ys e" "e = a + seg_size xs + seg_size old + seg_size ys"
proof -
  show e: "e = a + seg_size xs + seg_size old + seg_size ys" using chain_end [OF assms(1)] by simp
  show "strict_chain m a xs (a + seg_size xs)" "chain m (a + seg_size xs) (old @ ys) e"
    using assms by (simp_all add: chain_append)
  then show "chain m (a + seg_size xs + seg_size old) ys e"
    using e by (cases "ys = []") (auto simp: chain_append)
qed

lemma chain_replace:
  assumes chain: "chain m a (xs @ old @ ys) e" "old \<noteq> []" and p: "p = a + seg_size xs" "q = p + seg_size old"
    and eq: "mem_eq_on ({a ..< e} - {p ..< q}) m m'" and new: "strict_chain m' p new q" "new \<noteq> []"
    and e: "e \<le> 4294967296"
  shows "chain m' a (xs @ new @ ys) e"
proof -
  note s = chain_split_segs [OF chain]
  have pe: "q \<le> e" using s(4) p by simp
  have "strict_chain m' a xs (a + seg_size xs)"
    using pe e p by (intro strict_chain_eq_on [OF s(1) eq]) auto
  moreover have "chain m q ys e" using s(3) p by simp
  then have "chain m' q ys e" by (rule chain_eq_on [OF _ eq _ e]) (auto simp: p)
  then have "chain m' p (new @ ys) e"
    using new strict_chain_end [OF new(1)] by (cases "ys = []") (auto simp: chain_append intro: strict_chain_chain)
  with \<open>strict_chain m' a xs (a + seg_size xs)\<close> show ?thesis
    using new(2) p by (simp add: chain_append)
qed

section \<open>The representation of the heap\<close>

text \<open>
  The state's heap has the given segments, and the index holds exactly the holes. The index
  array lies below the first segment and has room for one item more (remove reads it). The
  eight bytes in front of the first header do not look like a footer: free reads them.
\<close>

definition index_ok :: "heap_t \<Rightarrow> bool" where
  "index_ok h \<longleftrightarrow> less_than (index h) = Some header_t_less_than
     \<and> unat (array (index h)) + 4 * (unat (oa_size (index h)) + 1) + 8 \<le> unat (start_address h)"

definition heap_rep :: "kstate \<Rightarrow> heap_t \<Rightarrow> seg list \<Rightarrow> bool" where
  "heap_rep s h segs \<longleftrightarrow> kheap s = Some h \<and> index_ok h
     \<and> chain (mem s) (unat (start_address h)) segs (unat (end_address h))
     \<and> mset (oa_items (index h) (mem s)) = mset (map of_nat (holes_at (unat (start_address h)) segs))
     \<and> ftr_magic (mem s) (start_address h - 8) \<noteq> HEAP_MAGIC"

definition index_region :: "heap_t \<Rightarrow> nat set" where
  "index_region h = {unat (array (index h)) ..< unat (start_address h) - 8}"

lemma index_fits: "index_ok h \<Longrightarrow> oa_fits (index h) (unat (oa_size (index h)) + 1)"
  using unat_lt_2p32 [of "start_address h"] by (simp add: index_ok_def oa_fits_def del: unat_lt_2p32)

lemma items_eq_on:
  assumes "index_ok h" "mem_eq_on S m m'" "index_region h \<subseteq> S"
  shows "oa_items (index h) m' = oa_items (index h) m"
proof -
  let ?A = "unat (array (index h))" and ?n = "unat (oa_size (index h))"
  have le: "?A + 4 * ?n + 8 \<le> unat (start_address h)" using assms(1) by (simp add: index_ok_def)
  also have "\<dots> < 4294967296" by simp
  finally have "?A + 4 * ?n \<le> 4294967296" by simp
  moreover have "{?A ..< ?A + 4 * ?n} \<subseteq> index_region h"
    using le by (auto simp: index_region_def)
  then have "{?A ..< ?A + 4 * ?n} \<subseteq> S" using assms(3) by blast
  ultimately show ?thesis
    unfolding oa_items_def by (intro words_eq_on [OF assms(2)])
qed

lemma lookup_index_eq:
  assumes "kheap s = Some h" "i < oa_size (index h)"
  shows "lookup_index i s = Inr (oa_items (index h) (mem s) ! unat i)"
  using assms by (simp add: lookup_index_def the_heap_def lookup_ordered_array_def oa_items_def
      word_less_nat_alt)

lemma remove_index_eq:
  assumes "kheap s = Some h" "index_ok h" "i < oa_size (index h)"
  shows "\<exists>m' h'. remove_index i s = Inr (s\<lparr>mem := m', kheap := Some h'\<rparr>)
    \<and> h' = h\<lparr>index := (index h)\<lparr>oa_size := oa_size (index h) - 1\<rparr>\<rparr>
    \<and> mset (oa_items (index h') m') = mset (oa_items (index h) (mem s)) - {# oa_items (index h) (mem s) ! unat i #}
    \<and> mem_eq_on (- index_region h) (mem s) m'"
proof -
  let ?xs = "oa_items (index h) (mem s)"
  from remove_deletes_one' [OF assms(3) index_fits [OF assms(2)], of "mem s"] obtain m' where
    r: "remove_ordered_array i (index h) (mem s) = ((index h)\<lparr>oa_size := oa_size (index h) - 1\<rparr>, m')"
    and xs: "oa_items ((index h)\<lparr>oa_size := oa_size (index h) - 1\<rparr>) m' = take (unat i) ?xs @ drop (unat i + 1) ?xs"
    and eq: "mem_eq_on (- {unat (array (index h)) ..< unat (array (index h)) + 4 * unat (oa_size (index h))}) (mem s) m'"
    by blast
  have "unat i < length ?xs" using assms(3) by (simp add: word_less_nat_alt)
  then have "mset ?xs = mset (take (unat i) ?xs @ ?xs ! unat i # drop (unat i + 1) ?xs)"
    by (simp add: id_take_nth_drop [symmetric])
  then have "mset (take (unat i) ?xs @ drop (unat i + 1) ?xs) = mset ?xs - {# ?xs ! unat i #}" by simp
  moreover have "mem_eq_on (- index_region h) (mem s) m'"
    using assms(2) by (intro mem_eq_on_mono [OF eq]) (auto simp: index_region_def index_ok_def)
  ultimately show ?thesis
    using r xs assms(1)
    by (intro exI [of _ m'] exI [of _ "h\<lparr>index := (index h)\<lparr>oa_size := oa_size (index h) - 1\<rparr>\<rparr>"])
      (simp add: remove_index_def the_heap_def)
qed

lemma insert_index_eq:
  assumes "kheap s = Some h" "index_ok h"
  shows "\<exists>m' h'. insert_index x s = Inr (s\<lparr>mem := m', kheap := Some h'\<rparr>)
    \<and> h' = h\<lparr>index := (index h)\<lparr>oa_size := oa_size (index h) + 1\<rparr>\<rparr>
    \<and> mset (oa_items (index h') m') = add_mset x (mset (oa_items (index h) (mem s)))
    \<and> mem_eq_on (- index_region h) (mem s) m'"
proof -
  let ?ix = "index h"
  let ?xs = "oa_items ?ix (mem s)"
  have lt: "less_than ?ix = Some header_t_less_than" using assms(2) by (simp add: index_ok_def)
  from insert_items [OF lt index_fits [OF assms(2)] refl refl, where m = "mem s" and item = x] obtain m' where
    ins: "insert_ordered_array x ?ix (mem s) = Inr (?ix\<lparr>oa_size := oa_size ?ix + 1\<rparr>, m')"
    and ws: "words m' (array ?ix) (unat (oa_size ?ix) + 1) =
      takeWhile (\<lambda>y. header_t_less_than (mem s) y x \<noteq> 0) ?xs @ x # dropWhile (\<lambda>y. header_t_less_than (mem s) y x \<noteq> 0) ?xs"
    and eq: "mem_eq_on (- {unat (array ?ix) ..< unat (array ?ix) + 4 * (unat (oa_size ?ix) + 1)}) (mem s) m'"
    by blast
  have "mset (oa_items (?ix\<lparr>oa_size := oa_size ?ix + 1\<rparr>) m') = add_mset x (mset ?xs)"
    using ws mset_takeWhile_insert [of _ ?xs x]
    by (simp add: oa_items_def oa_size_Suc [OF index_fits [OF assms(2)]])
  moreover have "mem_eq_on (- index_region h) (mem s) m'"
    using assms(2) by (intro mem_eq_on_mono [OF eq]) (auto simp: index_region_def index_ok_def)
  ultimately show ?thesis
    using ins assms(1)
    by (intro exI [of _ m'] exI [of _ "h\<lparr>index := ?ix\<lparr>oa_size := oa_size ?ix + 1\<rparr>\<rparr>"])
      (simp add: insert_index_def the_heap_def)
qed

section \<open>Carving a block out of a hole\<close>

lemmas sizeof_defs = sizeof_header_t_def sizeof_footer_t_def sizeof_heap_t_def sizeof_type_t_def

lemma write_block_eq:
  assumes "20 \<le> b"
  shows "write_block (of_nat a) (of_nat (b - 20)) (of_nat b) m =
    write_footer (of_nat (a + b - 8)) (of_nat a) (write_header (of_nat a) 0 (of_nat b) m)"
proof -
  have "a + b - 8 = a + 12 + (b - 20)" using assms by simp
  then have "of_nat (a + b - 8) = (of_nat a + 12 + of_nat (b - 20) :: uint32)"
    by (simp only: of_nat_add of_nat_numeral)
  then show ?thesis
    by (simp only: write_block_def write_footer_def write_header_def sizeof_defs Let_def)
qed

lemma write_rest_hole_eq:
  assumes "20 \<le> r" "a + r \<le> unat e"
  shows "write_rest_hole (of_nat a) (of_nat r) e m =
    write_footer (of_nat (a + r - 8)) (of_nat a) (write_header (of_nat a) 1 (of_nat r) m)"
proof -
  have f: "of_nat a + of_nat r - sizeof_footer_t = (of_nat (a + r - 8) :: uint32)"
    using assms by (simp add: sizeof_defs of_nat_diff)
  have "a + r - 8 < 4294967296" using assms unat_lt_2p32 [of e] by linarith
  then have "unat (of_nat (a + r - 8) :: uint32) = a + r - 8" by (rule unat_of_nat32)
  moreover have "a + r - 8 < unat e" using assms by linarith
  ultimately have "(of_nat (a + r - 8) :: uint32) < e" by (simp add: word_less_nat_alt)
  then show ?thesis unfolding write_rest_hole_def f Let_def write_footer_def write_header_def by simp
qed

lemma write_seg:
  assumes "20 \<le> n" "a + n \<le> 4294967296"
  shows "header_at (write_footer (of_nat (a + n - 8)) (of_nat a) (write_header (of_nat a) (of_bool h) (of_nat n) m)) a n h"
    and "footer_at (write_footer (of_nat (a + n - 8)) (of_nat a) (write_header (of_nat a) (of_bool h) (of_nat n) m)) a n"
    and "mem_eq_on (- {a ..< a + n}) m (write_footer (of_nat (a + n - 8)) (of_nat a) (write_header (of_nat a) (of_bool h) (of_nat n) m))"
    and "mem_eq_on (- ({a ..< a + 12} \<union> {a + n - 8 ..< a + n})) m
      (write_footer (of_nat (a + n - 8)) (of_nat a) (write_header (of_nat a) (of_bool h) (of_nat n) m))"
proof -
  let ?m1 = "write_header (of_nat a) (of_bool h) (of_nat n) m"
  let ?m2 = "write_footer (of_nat (a + n - 8)) (of_nat a) ?m1"
  have "mem_eq_on {a ..< a + 12} ?m1 ?m2"
    using assms by (intro write_footer_eq_on) auto
  then show "header_at ?m2 a n h"
    using assms header_at_eq_on [of "{a ..< a + 12}" ?m1 ?m2 a n h] write_header_at [of a h n m] by simp
  show "footer_at ?m2 a n" using assms by (intro write_footer_at) simp_all
  let ?S = "- ({a ..< a + 12} \<union> {a + n - 8 ..< a + n})"
  have "mem_eq_on ?S m ?m1" using assms by (intro write_header_eq_on) auto
  moreover have "mem_eq_on ?S ?m1 ?m2" using assms by (intro write_footer_eq_on) auto
  ultimately show w: "mem_eq_on ?S m ?m2" by (rule mem_eq_on_trans)
  show "mem_eq_on (- {a ..< a + n}) m ?m2"
    using assms(1) by (intro mem_eq_on_mono [OF w]) auto
qed

text \<open>What alloc makes of a hole of \<open>n\<close> bytes for a request of \<open>req\<close> bytes, headers included.\<close>

definition carve :: "nat \<Rightarrow> nat \<Rightarrow> seg list" where
  "carve n req = (if n - req < 20 then [(n, False)] else [(req, False), (n - req, True)])"

lemma carve_size: "req \<le> n \<Longrightarrow> seg_size (carve n req) = n"
  by (simp add: carve_def)

lemma carve_not_Nil [simp]: "carve n req \<noteq> []"
  by (simp add: carve_def)

lemma word_rest_less:
  assumes "req \<le> n" "n < 4294967296"
  shows "(of_nat n - of_nat req < (20 :: uint32)) \<longleftrightarrow> n - req < 20"
    and "(of_nat n - of_nat req :: uint32) = of_nat (n - req)"
proof -
  show e: "(of_nat n - of_nat req :: uint32) = of_nat (n - req)" using assms by (simp add: of_nat_diff)
  have "unat (of_nat (n - req) :: uint32) = n - req" using assms by (intro unat_of_nat32) simp
  then show "(of_nat n - of_nat req < (20 :: uint32)) \<longleftrightarrow> n - req < 20"
    unfolding e by (simp add: word_less_nat_alt)
qed

section \<open>alloc on a hole that fits\<close>

lemma heap_rep_replace_segs:
  assumes rep: "heap_rep s h (xs @ old @ ys)" "old \<noteq> []"
    and p: "p = unat (start_address h) + seg_size xs" "q = p + seg_size old"
    and h': "kheap s' = Some h'" "h' = h\<lparr>index := ix\<rparr>" "index_ok h'"
    and eq: "mem_eq_on (- ({p ..< q} \<union> index_region h)) (mem s) (mem s')"
    and new: "strict_chain (mem s') p new q" "new \<noteq> []"
    and items: "mset (oa_items ix (mem s')) =
      mset (map of_nat (holes_at (unat (start_address h)) (xs @ new @ ys)))"
  shows "heap_rep s' h' (xs @ new @ ys)"
proof -
  have "chain (mem s) (unat (start_address h)) (xs @ old @ ys) (unat (end_address h))"
    using rep by (simp add: heap_rep_def)
  then have "chain (mem s') (unat (start_address h)) (xs @ new @ ys) (unat (end_address h))"
    by (rule chain_replace [OF _ rep(2) p mem_eq_on_mono [OF eq] new])
      (auto simp: index_region_def less_imp_le)
  moreover have "unat (start_address h - 8) = unat (start_address h) - 8"
    using rep(1) by (subst unat_minus_le) (simp_all add: heap_rep_def index_ok_def)
  then have "ftr_magic (mem s') (start_address h - 8) = ftr_magic (mem s) (start_address h - 8)"
    using rep(1) p(1) unat_lt_2p32 [of "start_address h"] unfolding ftr_defs
    by (intro mem_eq_on_rd32 [OF eq]) (auto simp: heap_rep_def index_ok_def index_region_def simp del: unat_lt_2p32)
  ultimately show ?thesis using h' items rep(1) by (simp add: heap_rep_def)
qed

lemma heap_rep_replace:
  assumes "heap_rep s h (xs @ (n, hh) # ys)" and "p = unat (start_address h) + seg_size xs"
    and "kheap s' = Some h'" "h' = h\<lparr>index := ix\<rparr>" "index_ok h'"
    and "mem_eq_on (- ({p ..< p + n} \<union> index_region h)) (mem s) (mem s')"
    and "strict_chain (mem s') p new (p + n)" "new \<noteq> []"
    and "mset (oa_items ix (mem s')) =
      mset (map of_nat (holes_at (unat (start_address h)) (xs @ new @ ys)))"
  shows "heap_rep s' h' (xs @ new @ ys)"
  by (rule heap_rep_replace_segs [where old = "[(n, hh)]" and s = s and h = h and p = p and q = "p + n" and ix = ix])
    (use assms in simp_all)

lemma index_region_simps [simp]:
  "index_region (h\<lparr>index := (index h)\<lparr>oa_size := k\<rparr>\<rparr>) = index_region h"
  by (simp add: index_region_def)

lemma index_ok_smaller:
  assumes "index_ok h" "unat k \<le> unat (oa_size (index h))"
  shows "index_ok (h\<lparr>index := (index h)\<lparr>oa_size := k\<rparr>\<rparr>)"
  using assms by (simp add: index_ok_def)

lemma header_in_chain_eq_on:
  assumes "mem_eq_on (- index_region h) m m'" "unat (start_address h) \<le> a" "a + 12 \<le> 4294967296"
  shows "header_at m' a n hh \<longleftrightarrow> header_at m a n hh"
  using assms by (intro header_at_eq_on [OF assms(1)]) (auto simp: index_region_def)

lemma alloc_place_eq:
  assumes look: "lookup_index it s = Inr (of_nat a)"
    and hsz: "hdr_size (mem s) (of_nat a) = of_nat n"
    and rm: "remove_index it s = Inr s1" and kh1: "kheap s1 = Some h1"
    and req: "req = unat sz + 20" "req \<le> n" "n < 4294967296"
    and b: "b = (if n - req < 20 then n else req)"
    and m2: "m2 = write_block (of_nat a) (of_nat (b - 20)) (of_nat b) (mem s1)"
  shows "alloc_place sz (of_nat req) 0 it s =
    (if n - req < 20 then Inr (of_nat (a + 12), s1\<lparr>mem := m2\<rparr>)
     else res_bind (insert_index (of_nat (a + req))
            (s1\<lparr>mem := write_rest_hole (of_nat (a + req)) (of_nat (n - req)) (end_address h1) m2\<rparr>))
            (\<lambda>s3. Inr (of_nat (a + 12), s3)))"
proof -
  note rest = word_rest_less [OF req(2,3)]
  have sz: "sz = of_nat (req - 20)" using req(1) by simp
  have pos: "of_nat a + sizeof_header_t = (of_nat (a + 12) :: uint32)" by (simp add: sizeof_defs)
  have twenty: "sizeof_header_t + sizeof_footer_t = 20" by (simp add: sizeof_defs)
  show ?thesis
  proof (cases "n - req < 20")
    case True
    have "req - 20 + (n - req) = n - 20" using req by simp
    then have "sz + (of_nat n - of_nat req) = of_nat (n - 20)"
      unfolding sz rest(2) by (simp only: of_nat_add [symmetric])
    then show ?thesis
      using True by (simp add: alloc_place_def look hsz rm kh1 twenty rest(1) b m2 Let_def pos)
  next
    case False
    have hole: "of_nat a + sizeof_header_t + sz + sizeof_footer_t = (of_nat (a + req) :: uint32)"
      using req(1) by (simp add: sizeof_defs)
    have "unat (of_nat (n - req) :: uint32) = n - req" using req(3) by (intro unat_of_nat32) simp
    then have pos_rest: "of_nat (n - req) > (0 :: uint32)"
      using False by (simp add: word_less_nat_alt)
    have "alloc_place sz (of_nat req) 0 it s =
      (if of_nat n - of_nat req > (0 :: uint32) then
         res_bind (insert_index (of_nat a + sizeof_header_t + sz + sizeof_footer_t)
            (s1\<lparr>mem := write_rest_hole (of_nat a + sizeof_header_t + sz + sizeof_footer_t)
                (of_nat n - of_nat req) (end_address h1) (write_block (of_nat a) sz (of_nat req) (mem s1))\<rparr>))
           (\<lambda>s3. Inr (of_nat a + sizeof_header_t, s3))
       else Inr (of_nat a + sizeof_header_t, s1\<lparr>mem := write_block (of_nat a) sz (of_nat req) (mem s1)\<rparr>))"
      unfolding alloc_place_def look res_bind_simps hsz Let_def twenty rest(1) rm
      using False kh1 by (simp add: the_heap_def)
    then show ?thesis
      unfolding rest(2) hole unfolding pos m2 b using False pos_rest sz by simp
  qed
qed

text \<open>
  What alloc writes in the hole of size \<open>n\<close> at \<open>a\<close>: the block's header and footer, and the
  header and footer of the rest.
\<close>

definition alloc_writes :: "nat \<Rightarrow> nat \<Rightarrow> nat \<Rightarrow> nat set" where
  "alloc_writes a n req = {a ..< a + 12} \<union> {a + n - 8 ..< a + n}
     \<union> (if n - req < 20 then {} else {a + req - 8 ..< a + req + 12})"

lemma alloc_place_unaligned:
  assumes rep: "heap_rep s h (xs @ (n, True) # ys)"
    and a: "a = unat (start_address h) + seg_size xs"
    and it: "it < oa_size (index h)" "oa_items (index h) (mem s) ! unat it = of_nat a"
    and req: "req = unat sz + 20" "req \<le> n"
  shows "\<exists>s' h' ix m'. alloc_place sz (of_nat req) 0 it s = Inr (of_nat (a + 12), s')
    \<and> heap_rep s' h' (xs @ carve n req @ ys) \<and> h' = h\<lparr>index := ix\<rparr> \<and> array ix = array (index h)
    \<and> s' = s\<lparr>mem := m', kheap := Some h'\<rparr>
    \<and> mem_eq_on (- ({a ..< a + n} \<union> index_region h)) (mem s) m'
    \<and> mem_eq_on (- (alloc_writes a n req \<union> index_region h)) (mem s) m'"
proof -
  let ?S = "unat (start_address h)" and ?E = "unat (end_address h)"
  have kh: "kheap s = Some h" and ok: "index_ok h"
    and ch: "chain (mem s) ?S (xs @ (n, True) # ys) ?E"
    and items: "mset (oa_items (index h) (mem s)) = mset (map of_nat (holes_at ?S (xs @ (n, True) # ys)))"
    using rep by (simp_all add: heap_rep_def)
  note c = chain_split [OF ch, folded a]
  have aE: "a + n \<le> ?E" using c(4) by simp
  have E: "?E < 4294967296" by simp
  have n32: "n < 4294967296" "a + n \<le> 4294967296" using aE E by linarith+
  have look: "lookup_index it s = Inr (of_nat a)" using lookup_index_eq [OF kh it(1)] it(2) by simp
  have hsz: "hdr_size (mem s) (of_nat a) = of_nat n" using c(6) by (simp add: header_at_def)
  from remove_index_eq [OF kh ok it(1)] obtain m1 h1 where
    rm: "remove_index it s = Inr (s\<lparr>mem := m1, kheap := Some h1\<rparr>)"
    and h1: "h1 = h\<lparr>index := (index h)\<lparr>oa_size := oa_size (index h) - 1\<rparr>\<rparr>"
    and i1: "mset (oa_items (index h1) m1) = mset (oa_items (index h) (mem s)) - {# of_nat a #}"
    and eq1: "mem_eq_on (- index_region h) (mem s) m1"
    using it(2) by auto
  have size1: "unat (oa_size (index h) - 1) = unat (oa_size (index h)) - 1"
    using it(1) by (subst unat_minus_le) (simp_all add: word_less_nat_alt)
  have ok1: "index_ok h1" using ok size1 unfolding h1 by (intro index_ok_smaller) simp_all
  have i1': "mset (oa_items (index h1) m1) = mset (map of_nat (holes_at ?S xs)) + mset (map of_nat (holes_at (a + n) ys))"
    using items by (simp add: i1 holes_at_append a add.assoc)
  have sz: "sz = of_nat (req - 20)" "of_nat req = sz + 12 + 8" using req(1) by simp_all
  define b where "b = (if n - req < 20 then n else req)"
  define m2 where "m2 = write_block (of_nat a) (of_nat (b - 20)) (of_nat b) m1"
  have b: "20 \<le> b" "b \<le> n" using req c(5) by (auto simp: b_def)
  have m2: "m2 = write_footer (of_nat (a + b - 8)) (of_nat a) (write_header (of_nat a) (of_bool False) (of_nat b) m1)"
    unfolding m2_def by (simp add: write_block_eq [OF b(1)])
  have ab: "a + b \<le> 4294967296" using b n32 by linarith
  note w = write_seg [OF b(1) ab, where h = False and m = m1, folded m2]
  have eq12: "mem_eq_on (- {a ..< a + n}) m1 m2"
    using b by (intro mem_eq_on_mono [OF w(3)]) auto
  have inner: "mem_eq_on (- index_region h) mx my \<Longrightarrow> strict_chain mx a ss (a + n)
      \<Longrightarrow> strict_chain my a ss (a + n)" for mx my ss
    using n32(2) a by (elim strict_chain_eq_on) (auto simp: index_region_def)
  note place = alloc_place_eq [OF look hsz rm _ req n32(1) b_def, of h1 m2, simplified, OF m2_def]
  show ?thesis
  proof (cases "n - req < 20")
    case True
    then have bn: "b = n" by (simp add: b_def)
    let ?s' = "s\<lparr>mem := m2, kheap := Some h1\<rparr>"
    have items2: "oa_items (index h1) m2 = oa_items (index h1) m1"
      using a by (intro items_eq_on [OF ok1 eq12]) (auto simp: index_region_def h1)
    have "heap_rep ?s' h1 (xs @ carve n req @ ys)"
      by (rule heap_rep_replace [OF rep a, where ix = "index h1"])
        (use True bn w eq1 eq12 ok1 h1 b items2 i1' in
          \<open>auto simp: carve_def holes_at_append a add.assoc mem_eq_on_def\<close>)
    moreover have "mem_eq_on (- ({a ..< a + n} \<union> index_region h)) (mem s) m2"
      using eq1 eq12 by (auto simp: mem_eq_on_def)
    moreover have "mem_eq_on (- (alloc_writes a n req \<union> index_region h)) (mem s) m2"
      using eq1 w(4) True bn by (auto simp: mem_eq_on_def alloc_writes_def)
    ultimately show ?thesis
      using True place h1
      by (intro exI [of _ ?s'] exI [of _ h1] exI [of _ "index h1"] exI [of _ m2]) simp
  next
    case False
    then have bn: "b = req" by (simp add: b_def)
    define m3 where "m3 = write_rest_hole (of_nat (a + req)) (of_nat (n - req)) (end_address h) m2"
    have r: "20 \<le> n - req" "a + req + (n - req) = a + n" using False req(2) by simp_all
    have m3: "m3 = write_footer (of_nat (a + req + (n - req) - 8)) (of_nat (a + req))
        (write_header (of_nat (a + req)) (of_bool True) (of_nat (n - req)) m2)"
      unfolding m3_def using r aE by (subst write_rest_hole_eq) simp_all
    have "a + req + (n - req) \<le> 4294967296" using r n32 by simp
    note w2 = write_seg [OF r(1) this, where h = True and m = m2, folded m3, unfolded r(2)]
    have "strict_chain m2 a [(req, False)] (a + req)" using w bn b by simp
    then have "strict_chain m3 a [(req, False)] (a + req)"
      using ab bn by (elim strict_chain_eq_on [OF _ w2(3)]) auto
    then have sc3: "strict_chain m3 a (carve n req) (a + n)"
      using False w2 r by (simp add: carve_def)
    have eq23: "mem_eq_on (- {a ..< a + n}) m2 m3"
      by (intro mem_eq_on_mono [OF w2(3)]) auto
    have eq13: "mem_eq_on (- {a ..< a + n}) m1 m3" using eq12 eq23 by (rule mem_eq_on_trans)
    have items3: "oa_items (index h1) m3 = oa_items (index h1) m1"
      using a by (intro items_eq_on [OF ok1 eq13]) (auto simp: index_region_def h1)
    let ?s3 = "s\<lparr>mem := m3, kheap := Some h1\<rparr>"
    from insert_index_eq [of ?s3 h1 "of_nat (a + req)"] ok1 obtain m4 h2 where
      ins: "insert_index (of_nat (a + req)) ?s3 = Inr (?s3\<lparr>mem := m4, kheap := Some h2\<rparr>)"
      and h2: "h2 = h1\<lparr>index := (index h1)\<lparr>oa_size := oa_size (index h1) + 1\<rparr>\<rparr>"
      and i4: "mset (oa_items (index h2) m4) = add_mset (of_nat (a + req)) (mset (oa_items (index h1) m3))"
      and eq4: "mem_eq_on (- index_region h) m3 m4"
      by (auto simp: h1)
    have h2h: "h2 = h" by (simp add: h2 h1)
    have eq04: "mem_eq_on (- ({a ..< a + n} \<union> index_region h)) (mem s) m4"
      using eq1 eq13 eq4 by (auto simp: mem_eq_on_def)
    have sc4: "strict_chain m4 a (carve n req) (a + n)" using inner [OF eq4 sc3] .
    let ?s' = "s\<lparr>mem := m4, kheap := Some h2\<rparr>"
    have "heap_rep ?s' h2 (xs @ carve n req @ ys)"
      by (rule heap_rep_replace [OF rep a, where ix = "index h2"])
        (use False sc4 eq04 ok i4 i1' items3 r in
          \<open>simp_all add: h2h carve_def holes_at_append a add.assoc\<close>)
    moreover have "mem_eq_on (- (alloc_writes a n req \<union> index_region h)) (mem s) m4"
      using eq1 w(4) w2(4) eq4 False bn r by (auto simp: mem_eq_on_def alloc_writes_def)
    ultimately show ?thesis
      using False place ins eq04 bn h1
      by (intro exI [of _ ?s'] exI [of _ h2] exI [of _ "index h2"] exI [of _ m4]) (simp add: m3_def h2h)
  qed
qed

section \<open>create_heap\<close>

lemma create_heap_rep:
  assumes nk: "kheap s = None"
    and al: "start0 mod 0x1000 = 0" "end_addr mod 0x1000 = 0"
    and room: "unat start0 + 0x80000 + 20 \<le> unat end_addr"
  shows "\<exists>h s'. create_heap fuel start0 end_addr max_addr sup' ro s = Inr (h, s')
    \<and> heap_rep (s'\<lparr>kheap := Some h\<rparr>) h [(unat end_addr - (unat start0 + 0x80000), True)]
    \<and> unat (start_address h) = unat start0 + 0x80000 \<and> end_address h = end_addr
    \<and> max_address h = max_addr \<and> array (index h) = start0 \<and> oa_size (index h) = 1
    \<and> mem_eq_on (- {unat start0 ..< unat start0 + 0x80000 + 12}) (mem s) (mem s')"
proof -
  let ?S = "unat start0 + 0x80000" and ?E = "unat end_addr"
  let ?n = "?E - ?S"
  let ?s1 = "s\<lparr>placement_address := placement_address s + sizeof_heap_t\<rparr>"
  let ?ix = "\<lparr>array = start0, oa_size = 0, max_size = HEAP_INDEX_SIZE, less_than = Some header_t_less_than\<rparr>"
  define m1 where "m1 = memset (mem s) start0 0 (HEAP_INDEX_SIZE * 4)"
  have E: "?E < 4294967296" by simp
  have st: "start0 + sizeof_type_t * HEAP_INDEX_SIZE = of_nat ?S"
    by (simp add: sizeof_defs HEAP_INDEX_SIZE_def)
  have uS: "unat (of_nat ?S :: uint32) = ?S" using room E by (intro unat_of_nat32) linarith
  have "unat start0 mod 0x1000 = 0"
    using arg_cong [OF al(1), of unat] by (simp add: unat_mod)
  then have "?S mod 0x1000 = 0"
    using mod_add_left_eq [of "unat start0" "0x1000" "0x80000"] by simp
  then have "unat ((of_nat ?S :: uint32) mod 0x1000) = 0"
    using uS by (simp add: unat_mod)
  then have aligned: "of_nat ?S AND 0x00000FFF = (0 :: uint32)"
    by (simp only: and_0xFFF unat_eq_zero)
  have nE: "end_addr - of_nat ?S = of_nat ?n"
    using room by (simp add: of_nat_diff)
  define m2 where "m2 = set_hdr_is_hole (of_nat ?S) 1 (set_hdr_magic (of_nat ?S) HEAP_MAGIC
    (set_hdr_size (of_nat ?S) (end_addr - of_nat ?S) m1))"
  have S12: "?S + 12 \<le> 4294967296" using room E by linarith
  have hd: "header_at m2 ?S ?n True"
    using S12 unat_field [OF S12] nE by (simp add: m2_def header_at_def hdr_defs mem_simps)
  have "unat start0 + 4 \<le> 4294967296" using room E by linarith
  then have fits: "oa_fits ?ix (unat (oa_size ?ix) + 1)" by (simp add: oa_fits_def)
  from insert_items [OF _ fits refl refl, where lt = header_t_less_than and m = m2 and item = "of_nat ?S"] obtain m3 where
    ins: "insert_ordered_array (of_nat ?S) ?ix m2 = Inr (?ix\<lparr>oa_size := 1\<rparr>, m3)"
    and ws: "words m3 start0 1 = [of_nat ?S]"
    and eq3: "mem_eq_on (- {unat start0 ..< unat start0 + 4}) m2 m3"
    by (auto simp: oa_items_def)
  let ?h = "\<lparr>index = ?ix\<lparr>oa_size := 1\<rparr>, start_address = of_nat ?S, end_address = end_addr,
    max_address = max_addr, supervisor = sup', readonly = ro\<rparr>"
  have res: "create_heap fuel start0 end_addr max_addr sup' ro s = Inr (?h, ?s1\<lparr>mem := m3\<rparr>)"
    unfolding create_heap_def create_heap_with_def kmalloc_before_heap [OF nk] res_bind_simps
      place_ordered_array_def Let_def prod.case st kstate.simps
    using al aligned ins [unfolded m2_def m1_def]
    by (simp only: PAGE_SIZE_def ASSERT_simps res_bind_simps if_False not_True_eq_False prod.case kstate.simps) simp
  have hd3: "header_at m3 ?S ?n True"
  proof -
    have "{?S ..< ?S + 12} \<subseteq> - {unat start0 ..< unat start0 + 4}" by auto
    from header_at_eq_on [OF eq3 this S12] hd show ?thesis by blast
  qed
  have u8: "unat (of_nat (?S - 8) :: uint32) = ?S - 8" using room E by (intro unat_of_nat32) linarith
  have "rd32 m1 (of_nat (?S - 8)) = 0"
    unfolding m1_def
  proof (intro memset_zero_rd32)
    have "unat start0 + 0x80000 \<le> 4294967296" using room E by linarith
    then show "unat start0 + unat (HEAP_INDEX_SIZE * 4) \<le> 4294967296"
      by (simp add: HEAP_INDEX_SIZE_def)
  qed (simp_all only: u8, simp_all add: HEAP_INDEX_SIZE_def)
  moreover have b8: "?S - 8 + 4 \<le> 4294967296" using room E by linarith
  moreover have "rd32 m3 (of_nat (?S - 8)) = rd32 m2 (of_nat (?S - 8))"
    by (rule mem_eq_on_rd32 [OF eq3]; unfold u8) (use b8 in auto)
  moreover have "- {?S ..< ?S + 12} \<inter> {?S ..< ?S + 12} = {}" by auto
  from set_hdr_eq_on [OF this S12] have eq2: "mem_eq_on (- {?S ..< ?S + 12}) m1 m2"
    unfolding m2_def by (blast intro: mem_eq_on_trans)
  moreover have "rd32 m2 (of_nat (?S - 8)) = rd32 m1 (of_nat (?S - 8))"
    by (rule mem_eq_on_rd32 [OF eq2]; unfold u8) (use b8 in auto)
  moreover have "of_nat ?S - 8 = (of_nat (?S - 8) :: uint32)" by (simp add: of_nat_diff)
  ultimately have low: "ftr_magic m3 (of_nat ?S - 8) \<noteq> HEAP_MAGIC"
    by (simp only: ftr_magic_def) (simp add: HEAP_MAGIC_def)
  have rep: "heap_rep (?s1\<lparr>mem := m3, kheap := Some ?h\<rparr>) ?h [(?n, True)]"
    using hd3 room ws uS low
    by (simp add: heap_rep_def index_ok_def oa_items_def)
  have eq1: "mem_eq_on (- {unat start0 ..< ?S + 12}) (mem s) m1"
    using memset_outside [of start0 "HEAP_INDEX_SIZE * 4" "mem s" 0] room E
    by (auto simp: m1_def HEAP_INDEX_SIZE_def elim: mem_eq_on_mono)
  have "- {unat start0 ..< ?S + 12} \<inter> {?S ..< ?S + 12} = {}" by auto
  from set_hdr_eq_on [OF this S12] have "mem_eq_on (- {unat start0 ..< ?S + 12}) m1 m2"
    unfolding m2_def by (blast intro: mem_eq_on_trans)
  moreover have "mem_eq_on (- {unat start0 ..< ?S + 12}) m2 m3" by (rule mem_eq_on_mono [OF eq3]) auto
  ultimately have "mem_eq_on (- {unat start0 ..< ?S + 12}) (mem s) m3"
    using eq1 by (blast intro: mem_eq_on_trans)
  then show ?thesis
    using res rep uS by (intro exI [of _ ?h] exI [of _ "?s1\<lparr>mem := m3\<rparr>"]) simp
qed

end
