(* ===== verification/HeapOps.thy ===== *)
theory HeapOps
  imports HeapInv
begin

text \<open>
  What find_smallest_hole and alloc do to the layout of the heap, in the case where
  the code keeps the layout: alloc without alignment on a hole that is large enough; free
  is in HeapFree.
\<close>

section \<open>find_smallest_hole\<close>

lemma find_loop_spec:
  assumes "i \<le> oa_size ix"
  shows "find_loop sz al ix m i =
    Inr (i + of_nat (length (takeWhile (\<lambda>x. \<not> hole_fits sz al m x) (drop (unat i) (oa_items ix m)))))"
  using assms
proof (induction sz al ix m i rule: find_loop.induct)
  case (1 sz al ix m i)
  let ?ws = "oa_items ix m"
  show ?case
  proof (cases "i < oa_size ix")
    case True
    note i1 = unat_Suc_lt [OF True]
    have d: "drop (unat i) ?ws = ?ws ! unat i # drop (unat (i + 1)) ?ws"
      using i1 by (simp add: Cons_nth_drop_Suc [symmetric])
    have look: "lookup_ordered_array i ix m = Inr (?ws ! unat i)"
      using True i1 by (simp add: lookup_ordered_array_def oa_items_def)
    have "i + 1 \<le> oa_size ix" using i1 by (simp add: word_le_nat_alt)
    then show ?thesis
      using "1.IH" [OF True look] True look d
      by (auto simp: find_loop.simps [of sz al ix m i] algebra_simps)
  next
    case False
    then have "i = oa_size ix" using "1.prems" by simp
    then show ?thesis by (simp add: find_loop.simps [of sz al ix m "oa_size ix"])
  qed
qed

lemma find_smallest_hole_eq:
  assumes "kheap s = Some h"
  shows "find_smallest_hole sz al s =
    (let k = length (takeWhile (\<lambda>x. \<not> hole_fits sz al (mem s) x) (oa_items (index h) (mem s)))
     in Inr (if k = unat (oa_size (index h)) then -1 else of_nat k))"
proof -
  let ?xs = "oa_items (index h) (mem s)"
  define k where "k = length (takeWhile (\<lambda>x. \<not> hole_fits sz al (mem s) x) ?xs)"
  have "k \<le> unat (oa_size (index h))"
    using length_takeWhile_le [of _ ?xs] by (simp add: k_def)
  then have "unat (of_nat k :: uint32) = k"
    by (intro unat_of_nat32) (rule le_less_trans, assumption, simp)
  then have "(of_nat k = oa_size (index h)) \<longleftrightarrow> k = unat (oa_size (index h))"
    by (auto simp: word_unat_eq_iff)
  then show ?thesis
    using find_loop_spec [of 0 "index h" sz al "mem s"] assms
    by (simp add: find_smallest_hole_def the_heap_def k_def [symmetric] Let_def)
qed

lemma find_found:
  assumes "kheap s = Some h" "index_ok h" "x \<in> set (oa_items (index h) (mem s))" "hole_fits sz al (mem s) x"
  shows "\<exists>it. find_smallest_hole sz al s = Inr it \<and> it \<noteq> -1 \<and> it < oa_size (index h)
    \<and> hole_fits sz al (mem s) (oa_items (index h) (mem s) ! unat it)
    \<and> (\<forall>j < unat it. \<not> hole_fits sz al (mem s) (oa_items (index h) (mem s) ! j))"
proof -
  let ?xs = "oa_items (index h) (mem s)" and ?P = "\<lambda>x. \<not> hole_fits sz al (mem s) x"
  let ?n = "unat (oa_size (index h))"
  define k where "k = length (takeWhile ?P ?xs)"
  have len: "length ?xs = ?n" by simp
  have "takeWhile ?P ?xs \<noteq> ?xs" using assms(3,4) by (auto simp: takeWhile_eq_all_conv)
  then have kn: "k < ?n"
    using length_takeWhile_le [of ?P ?xs] len unfolding k_def
    by (metis le_neq_implies_less takeWhile_eq_take take_all order.refl)
  have small: "?n + 1 < 4294967296" using oa_fits_small [OF index_fits [OF assms(2)]] .
  then have u: "unat (of_nat k :: uint32) = k" using kn by (intro unat_of_nat32) simp
  have "(of_nat k :: uint32) \<noteq> -1"
  proof
    assume "(of_nat k :: uint32) = -1"
    then have "(of_nat (k + 1) :: uint32) = 0" by simp
    moreover have "unat (of_nat (k + 1) :: uint32) = k + 1" using kn small by (intro unat_of_nat32) simp
    ultimately show False by simp
  qed
  moreover have "find_smallest_hole sz al s = Inr (of_nat k)"
    using find_smallest_hole_eq [OF assms(1), of sz al] kn by (simp add: k_def [symmetric] Let_def)
  moreover have "(of_nat k :: uint32) < oa_size (index h)" using kn u by (simp add: word_less_nat_alt)
  moreover have "hole_fits sz al (mem s) (?xs ! k)"
    using nth_length_takeWhile [of ?P ?xs] kn len by (simp add: k_def)
  moreover have "\<not> hole_fits sz al (mem s) (?xs ! j)" if "j < k" for j
    using that nth_mem [of j "takeWhile ?P ?xs"] takeWhile_nth [of j ?P ?xs] set_takeWhileD
    unfolding k_def by fastforce
  ultimately show ?thesis using u by (intro exI [of _ "of_nat k"]) simp
qed

lemma find_none:
  assumes "kheap s = Some h" "\<And>x. x \<in> set (oa_items (index h) (mem s)) \<Longrightarrow> \<not> hole_fits sz al (mem s) x"
  shows "find_smallest_hole sz al s = Inr (-1)"
proof -
  have "takeWhile (\<lambda>x. \<not> hole_fits sz al (mem s) x) (oa_items (index h) (mem s)) = oa_items (index h) (mem s)"
    using assms(2) by (simp add: takeWhile_eq_all_conv)
  then have "length (takeWhile (\<lambda>x. \<not> hole_fits sz al (mem s) x) (oa_items (index h) (mem s)))
    = unat (oa_size (index h))" by (metis length_oa_items)
  then show ?thesis by (simp only: find_smallest_hole_eq [OF assms(1)] Let_def if_True refl)
qed

text \<open>
  C15: when the index is sorted by size, find_smallest_hole returns the position of a hole
  that fits the request and is no larger than any other hole that fits, and -1 exactly when
  no hole fits.
\<close>

theorem find_smallest_hole_smallest:
  assumes "kheap s = Some h" "index_ok h"
    and sorted: "sorted (map (\<lambda>x. unat (hdr_size (mem s) x)) (oa_items (index h) (mem s)))"
  shows "\<exists>it. find_smallest_hole sz al s = Inr it
    \<and> (it = -1 \<longrightarrow> (\<forall>x \<in> set (oa_items (index h) (mem s)). \<not> hole_fits sz al (mem s) x))
    \<and> (it \<noteq> -1 \<longrightarrow> unat it < length (oa_items (index h) (mem s))
        \<and> hole_fits sz al (mem s) (oa_items (index h) (mem s) ! unat it)
        \<and> (\<forall>x \<in> set (oa_items (index h) (mem s)). hole_fits sz al (mem s) x
             \<longrightarrow> hdr_size (mem s) (oa_items (index h) (mem s) ! unat it) \<le> hdr_size (mem s) x))"
proof (cases "\<exists>x \<in> set (oa_items (index h) (mem s)). hole_fits sz al (mem s) x")
  case True
  then obtain x where "x \<in> set (oa_items (index h) (mem s))" "hole_fits sz al (mem s) x" by blast
  from find_found [OF assms(1,2) this] obtain it where it:
    "find_smallest_hole sz al s = Inr it" "it \<noteq> -1" "it < oa_size (index h)"
    "hole_fits sz al (mem s) (oa_items (index h) (mem s) ! unat it)"
    "\<forall>j < unat it. \<not> hole_fits sz al (mem s) (oa_items (index h) (mem s) ! j)" by blast
  have "hdr_size (mem s) (oa_items (index h) (mem s) ! unat it) \<le> hdr_size (mem s) y"
    if "y \<in> set (oa_items (index h) (mem s))" "hole_fits sz al (mem s) y" for y
    using oa.first_lookup_minimal [of "\<lambda>x. unat (hdr_size (mem s) x)" "(index h, mem s)" "unat it" "hole_fits sz al (mem s)" y]
      that it sorted by (simp add: word_less_nat_alt word_le_nat_alt)
  then show ?thesis using it by (intro exI [of _ it]) (simp add: word_less_nat_alt)
next
  case False
  then show ?thesis using find_none [OF assms(1), of sz al] by auto
qed

section \<open>alloc\<close>

lemma rep_hole_size:
  assumes rep: "heap_rep s h segs" and x: "x \<in> set (oa_items (index h) (mem s))"
  shows "\<exists>xs n ys. segs = xs @ (n, True) # ys \<and> x = of_nat (unat (start_address h) + seg_size xs)
    \<and> hdr_size (mem s) x = of_nat n \<and> n < 4294967296"
proof -
  let ?S = "unat (start_address h)"
  have ch: "chain (mem s) ?S segs (unat (end_address h))"
    and items: "mset (oa_items (index h) (mem s)) = mset (map of_nat (holes_at ?S segs))"
    using rep by (simp_all add: heap_rep_def)
  have "x \<in> of_nat ` set (holes_at ?S segs)"
    using x mset_eq_setD [OF items] by simp
  then obtain p where p: "p \<in> set (holes_at ?S segs)" "x = of_nat p" by blast
  from holes_at_split [OF p(1)] obtain xs n ys where
    split: "segs = xs @ (n, True) # ys" "p = ?S + seg_size xs" by blast
  note c = chain_split [OF ch [unfolded split(1)]]
  have "n \<le> unat (end_address h)" using c(4) by simp
  also have "\<dots> < 4294967296" by simp
  finally show ?thesis using split c(6) p(2) by (auto simp: header_at_def)
qed

lemma rep_hole_item:
  assumes rep: "heap_rep s h (xs @ (n, True) # ys)"
  shows "of_nat (unat (start_address h) + seg_size xs) \<in> set (oa_items (index h) (mem s))"
    and "hdr_size (mem s) (of_nat (unat (start_address h) + seg_size xs)) = of_nat n"
    and "n < 4294967296"
proof -
  let ?S = "unat (start_address h)"
  have ch: "chain (mem s) ?S (xs @ (n, True) # ys) (unat (end_address h))"
    and items: "mset (oa_items (index h) (mem s)) = mset (map of_nat (holes_at ?S (xs @ (n, True) # ys)))"
    using rep by (simp_all add: heap_rep_def)
  show "of_nat (?S + seg_size xs) \<in> set (oa_items (index h) (mem s))"
    using mset_eq_setD [OF items] by (auto simp: holes_at_append)
  note c = chain_split [OF ch]
  show "hdr_size (mem s) (of_nat (?S + seg_size xs)) = of_nat n" using c(6) by (simp add: header_at_def)
  have "n \<le> unat (end_address h)" using c(4) by simp
  also have "\<dots> < 4294967296" by simp
  finally show "n < 4294967296" .
qed

lemma hole_fits_unaligned:
  assumes "hdr_size m x = of_nat n" "n < 4294967296"
  shows "hole_fits sz 0 m x \<longleftrightarrow> unat sz \<le> n"
  using assms by (simp add: hole_fits_def word_le_nat_alt unat_of_nat32)

lemma alloc_fits_writes:
  assumes rep: "heap_rep s h segs" and small: "unat sz + 20 < 4294967296"
    and hole: "(n0, True) \<in> set segs" "unat sz + 20 \<le> n0"
  shows "\<exists>xs n ys s' h' ix m'. segs = xs @ (n, True) # ys \<and> unat sz + 20 \<le> n
    \<and> alloc (Suc fuel) sz 0 s = Inr (of_nat (unat (start_address h) + seg_size xs + 12), s')
    \<and> heap_rep s' h' (xs @ carve n (unat sz + 20) @ ys) \<and> h' = h\<lparr>index := ix\<rparr>
    \<and> array ix = array (index h) \<and> s' = s\<lparr>mem := m', kheap := Some h'\<rparr>
    \<and> mem_eq_on (- ({unat (start_address h) + seg_size xs ..< unat (start_address h) + seg_size xs + n}
         \<union> index_region h)) (mem s) m'
    \<and> mem_eq_on (- (alloc_writes (unat (start_address h) + seg_size xs) n (unat sz + 20)
         \<union> index_region h)) (mem s) m'"
proof -
  let ?new = "sz + sizeof_header_t + sizeof_footer_t"
  have kh: "kheap s = Some h" and ok: "index_ok h" using rep by (simp_all add: heap_rep_def)
  have new: "?new = of_nat (unat sz + 20)" by (simp add: sizeof_defs)
  have unew: "unat ?new = unat sz + 20" unfolding new using small by (rule unat_of_nat32)
  obtain xs0 ys0 where s0: "segs = xs0 @ (n0, True) # ys0" using hole(1) by (auto dest: split_list)
  note i0 = rep_hole_item [OF rep [unfolded s0]]
  have "hole_fits ?new 0 (mem s) (of_nat (unat (start_address h) + seg_size xs0))"
    using hole(2) by (simp only: hole_fits_unaligned [OF i0(2,3)] unew)
  from find_found [OF kh ok i0(1) this] obtain it where it: "find_smallest_hole ?new 0 s = Inr it"
    "it \<noteq> -1" "it < oa_size (index h)"
    "hole_fits ?new 0 (mem s) (oa_items (index h) (mem s) ! unat it)" by blast
  have "oa_items (index h) (mem s) ! unat it \<in> set (oa_items (index h) (mem s))"
    using it(3) by (simp add: word_less_nat_alt)
  from rep_hole_size [OF rep this] obtain xs n ys where
    sp: "segs = xs @ (n, True) # ys" "oa_items (index h) (mem s) ! unat it = of_nat (unat (start_address h) + seg_size xs)"
    "hdr_size (mem s) (oa_items (index h) (mem s) ! unat it) = of_nat n" "n < 4294967296" by blast
  have fits: "unat sz + 20 \<le> n" using it(4) unew by (simp add: hole_fits_unaligned [OF sp(3,4)])
  have "alloc (Suc fuel) sz 0 s = alloc_place sz (of_nat (unat sz + 20)) 0 it s"
    using it(1,2) by (simp add: Let_def sizeof_defs add.commute)
  then show ?thesis
    using alloc_place_unaligned [OF rep [unfolded sp(1)] refl it(3) sp(2) refl fits] sp(1) fits
    by (intro exI [of _ xs] exI [of _ n] exI [of _ ys]) simp
qed

lemma alloc_fits:
  assumes rep: "heap_rep s h segs" and small: "unat sz + 20 < 4294967296"
    and hole: "(n0, True) \<in> set segs" "unat sz + 20 \<le> n0"
  shows "\<exists>xs n ys s' h' ix m'. segs = xs @ (n, True) # ys \<and> unat sz + 20 \<le> n
    \<and> alloc (Suc fuel) sz 0 s = Inr (of_nat (unat (start_address h) + seg_size xs + 12), s')
    \<and> heap_rep s' h' (xs @ carve n (unat sz + 20) @ ys) \<and> h' = h\<lparr>index := ix\<rparr>
    \<and> array ix = array (index h) \<and> s' = s\<lparr>mem := m', kheap := Some h'\<rparr>
    \<and> mem_eq_on (- ({unat (start_address h) + seg_size xs ..< unat (start_address h) + seg_size xs + n}
         \<union> index_region h)) (mem s) m'"
  using alloc_fits_writes [OF assms, of fuel] by fast

text \<open>
  C3: alloc without alignment, when a large enough hole exists, refines the abstract
  operation: it turns one hole of the layout into a block of the request's size plus header
  and footer (the whole hole when fewer than 20 bytes would remain) followed by the
  remaining hole, returns the address after the new header, keeps the index equal to the
  set of holes, and writes nothing outside that hole and the index.
\<close>

theorem alloc_refines_carve:
  assumes "heap_rep s h segs" "unat sz + 20 < 4294967296"
    and "(n0, True) \<in> set segs" "unat sz + 20 \<le> n0"
  shows "\<exists>xs n ys s' h'. segs = xs @ (n, True) # ys \<and> unat sz + 20 \<le> n
    \<and> alloc (Suc fuel) sz 0 s = Inr (of_nat (unat (start_address h) + seg_size xs + 12), s')
    \<and> heap_rep s' h' (xs @ carve n (unat sz + 20) @ ys)
    \<and> start_address h' = start_address h \<and> end_address h' = end_address h
    \<and> mem_eq_on (- ({unat (start_address h) + seg_size xs ..< unat (start_address h) + seg_size xs + n}
         \<union> index_region h)) (mem s) (mem s')"
  using alloc_fits [OF assms, of fuel] by fastforce

end
