(* ===== verification/HeapFree.thy ===== *)
theory HeapFree
  imports HeapOps
begin

text \<open>
  What free does to the layout of the heap when the block is followed by an allocated block:
  the block becomes a hole, joined with a hole in front of it. The other case of the source,
  a hole behind the block, leaves the footer of that hole with its old header
  (HeapDefects).
\<close>

section \<open>The abstract operation\<close>

text \<open>The segments before the freed block, its size, and the segments after it.\<close>

definition release :: "seg list \<Rightarrow> nat \<Rightarrow> seg list \<Rightarrow> seg list" where
  "release xs n ys =
     (if xs \<noteq> [] \<and> snd (last xs) then butlast xs @ (fst (last xs) + n, True) # ys
      else xs @ (n, True) # ys)"

lemma release_simps [simp]:
  "release [] n ys = (n, True) # ys"
  "release (xs @ [(k, True)]) n ys = xs @ (k + n, True) # ys"
  "release (xs @ [(k, False)]) n ys = xs @ (k, False) # (n, True) # ys"
  by (simp_all add: release_def)

lemma release_size: "seg_size (release xs n ys) = seg_size xs + n + seg_size ys"
  by (cases xs rule: rev_exhaust) (auto simp: release_def)

section \<open>The parts of free\<close>

lemma header_keep:
  assumes "mem_eq_on (- {x ..< y}) m m'" "header_at m a n h" "y \<le> a \<or> a + 12 \<le> x" "a + 12 \<le> 4294967296"
  shows "header_at m' a n h"
proof -
  have "{a ..< a + 12} \<subseteq> - {x ..< y}" using assms(3) by auto
  with header_at_eq_on [OF assms(1)] assms(2,4) show ?thesis by blast
qed

lemma footer_keep:
  assumes "mem_eq_on (- {x ..< y}) m m'" "footer_at m a n" "y \<le> a + n - 8 \<or> a + n \<le> x" "8 \<le> n"
    "a + n \<le> 4294967296"
  shows "footer_at m' a n"
proof -
  have "{a + n - 8 ..< a + n} \<subseteq> - {x ..< y}" using assms(3) by auto
  with footer_at_eq_on [OF assms(1)] assms(2,4,5) show ?thesis by blast
qed

lemma unify_right_block:
  assumes "footer + sizeof_footer_t = of_nat q" "header_at (mem s) q k False"
  shows "unify_right header footer s = Inr (footer, s)"
  using assms by (simp add: unify_right_def header_at_def Let_def)

lemma free_contract_inside:
  assumes "kheap s = Some h" "footer + sizeof_footer_t \<noteq> end_address h"
  shows "free_contract header footer th s = Inr s"
  using assms by (simp add: free_contract_def the_heap_def)

lemma set_is_hole_at:
  assumes "header_at m a n h" "a + 12 \<le> 4294967296"
  shows "header_at (set_hdr_is_hole (of_nat a) 1 m) a n True"
  using assms by (simp add: header_at_def hdr_defs mem_simps unat_field)

lemma set_size_at:
  assumes "header_at m a n h" "a + 12 \<le> 4294967296"
  shows "header_at (set_hdr_size (of_nat a) (of_nat k) m) a k h"
  using assms by (simp add: header_at_def hdr_defs mem_simps unat_field)

lemma set_ftr_header_at:
  assumes "footer_at m a n" "8 \<le> n" "n \<le> k + n" "k \<le> a" "a + n \<le> 4294967296"
  shows "footer_at (set_ftr_header (of_nat (a + n - 8)) (of_nat (a - k)) m) (a - k) (k + n)"
proof -
  have b: "a + n - 8 + 8 \<le> 4294967296" using assms by simp
  have "a - k + (k + n) - 8 = a + n - 8" using assms by simp
  then show ?thesis
    using assms(1) unat_footer_field [OF b] b
    by (simp add: footer_at_def ftr_defs mem_simps del: of_nat_diff)
qed

lemma set_ftr_header_eq_on:
  assumes "S \<inter> {f ..< f + 8} = {}" "f + 8 \<le> 4294967296"
  shows "mem_eq_on S m (set_ftr_header (of_nat f) p m)"
  using assms unat_footer_field [OF assms(2)] unfolding ftr_defs by (intro mem_eq_on_wr32) auto

lemma unify_left_hole:
  assumes "footer_at m p k" "header_at m p k True" "8 \<le> k" "a = p + k"
  shows "unify_left (of_nat a) footer m =
    (of_nat p, False, set_hdr_size (of_nat p)
       (hdr_size (set_ftr_header footer (of_nat p) m) (of_nat p) + hdr_size m (of_nat a))
       (set_ftr_header footer (of_nat p) m))"
proof -
  have "of_nat a - sizeof_footer_t = (of_nat (p + k - 8) :: uint32)"
    using assms(3,4) by (simp add: sizeof_defs of_nat_diff)
  then show ?thesis
    using assms(1,2) by (simp add: unify_left_def footer_at_def header_at_def Let_def)
qed

lemma unify_left_block:
  assumes "footer_at m p k" "header_at m p k False" "8 \<le> k" "a = p + k"
  shows "unify_left (of_nat a) footer m = (of_nat a, True, m)"
proof -
  have "of_nat a - sizeof_footer_t = (of_nat (p + k - 8) :: uint32)"
    using assms(3,4) by (simp add: sizeof_defs of_nat_diff)
  then show ?thesis
    using assms(1,2) by (simp add: unify_left_def footer_at_def header_at_def Let_def)
qed

lemma unify_left_none:
  assumes "ftr_magic m (header - sizeof_footer_t) \<noteq> HEAP_MAGIC"
  shows "unify_left header footer m = (header, True, m)"
  using assms by (simp add: unify_left_def Let_def)

text \<open>free as the sequence of its three parts.\<close>

lemma free_steps:
  assumes "header_at (mem s) a n hh" "footer_at (mem s) a n" "8 \<le> n" "a + 12 < 4294967296"
    and ul: "unify_left (of_nat a) (of_nat (a + n - 8)) (set_hdr_is_hole (of_nat a) 1 (mem s)) = (hd', add, m2)"
    and ur: "unify_right hd' (of_nat (a + n - 8)) (s\<lparr>mem := m2\<rparr>) = Inr (f, s2)"
    and fc: "free_contract hd' f (of_nat (a + n)) s2 = Inr s3"
  shows "free (of_nat (a + 12)) s = (if add then insert_index hd' s3 else Inr s3)"
proof -
  have p0: "(of_nat (a + 12) :: uint32) \<noteq> 0"
    using unat_of_nat32 [OF assms(4)] by (metis add_is_0 unat_0 zero_neq_numeral)
  have hd: "of_nat (a + 12) - sizeof_header_t = (of_nat a :: uint32)" by (simp add: sizeof_defs)
  have ft: "of_nat a + hdr_size (mem s) (of_nat a) - sizeof_footer_t = of_nat (a + n - 8)"
    using assms(1,3) by (simp add: header_at_def sizeof_defs of_nat_diff)
  have ftn: "of_nat (a + n - 8) + sizeof_footer_t = (of_nat (a + n) :: uint32)"
    using assms(3) by (simp add: sizeof_defs of_nat_diff)
  show ?thesis
    unfolding free_def hd Let_def ft ul ftn
    using p0 assms(1,2) by (simp add: header_at_def footer_at_def ur fc del: of_nat_add of_nat_diff)
qed

lemma free_eq:
  assumes "header_at (mem s) a n hh" "footer_at (mem s) a n" "8 \<le> n" "a + n < 4294967296"
    and ul: "unify_left (of_nat a) (of_nat (a + n - 8)) (set_hdr_is_hole (of_nat a) 1 (mem s)) = (hd', add, m2)"
    and nx: "header_at m2 (a + n) k False"
    and kh: "kheap s = Some h" "of_nat (a + n) \<noteq> end_address h" and a: "a + 12 < 4294967296"
  shows "free (of_nat (a + 12)) s =
    (if add then insert_index hd' (s\<lparr>mem := m2\<rparr>) else Inr (s\<lparr>mem := m2\<rparr>))"
proof (rule free_steps [OF assms(1-3) a ul])
  have ftn: "of_nat (a + n - 8) + sizeof_footer_t = (of_nat (a + n) :: uint32)"
    using assms(3) by (simp add: sizeof_defs of_nat_diff)
  show "unify_right hd' (of_nat (a + n - 8)) (s\<lparr>mem := m2\<rparr>) = Inr (of_nat (a + n - 8), s\<lparr>mem := m2\<rparr>)"
    using unify_right_block [OF ftn] nx by simp
  show "free_contract hd' (of_nat (a + n - 8)) (of_nat (a + n)) (s\<lparr>mem := m2\<rparr>) = Inr (s\<lparr>mem := m2\<rparr>)"
    using free_contract_inside [of "s\<lparr>mem := m2\<rparr>" h] kh ftn by simp
qed


text \<open>The segments in front of the hole that release makes.\<close>

definition kept_before :: "seg list \<Rightarrow> seg list" where
  "kept_before xs = (if xs \<noteq> [] \<and> snd (last xs) then butlast xs else xs)"

section \<open>free refines release\<close>

lemma free_no_merge:
  assumes rep: "heap_rep s h (xs @ (n, False) # (k, False) # ys)"
    and a: "a = unat (start_address h) + seg_size xs"
    and ul: "\<And>footer. unify_left (of_nat a) footer (set_hdr_is_hole (of_nat a) 1 (mem s)) =
      (of_nat a, True, set_hdr_is_hole (of_nat a) 1 (mem s))"
    and room: "unat (array (index h)) + 4 * (unat (oa_size (index h)) + 2) + 8 \<le> unat (start_address h)"
  shows "\<exists>s' h' ix m'. free (of_nat (a + 12)) s = Inr s' \<and> heap_rep s' h' (xs @ (n, True) # (k, False) # ys)
    \<and> h' = h\<lparr>index := ix\<rparr> \<and> array ix = array (index h) \<and> s' = s\<lparr>mem := m', kheap := Some h'\<rparr>
    \<and> mem_eq_on (- ({a ..< a + n} \<union> index_region h)) (mem s) m'"
proof -
  let ?S = "unat (start_address h)" and ?E = "unat (end_address h)"
  let ?m1 = "set_hdr_is_hole (of_nat a) 1 (mem s)"
  have kh: "kheap s = Some h" and ok: "index_ok h"
    and ch: "chain (mem s) ?S (xs @ (n, False) # (k, False) # ys) ?E"
    and items: "mset (oa_items (index h) (mem s)) = mset (map of_nat (holes_at ?S (xs @ (n, False) # (k, False) # ys)))"
    using rep by (simp_all add: heap_rep_def)
  note c = chain_split [OF ch, folded a]
  have c2: "header_at (mem s) (a + n) k False" "20 \<le> k" using c(3) by auto
  have E: "?E < 4294967296" by simp
  have bounds: "a + n + k \<le> ?E" "a + n + 12 \<le> 4294967296" "a + 12 \<le> 4294967296" "a + n < 4294967296"
    using c(4,5) c2(2) E unfolding seg_size_simps by linarith+
  have eq1: "mem_eq_on (- {a ..< a + 12}) (mem s) ?m1" using bounds by (intro set_hdr_eq_on) auto
  have ne: "of_nat (a + n) \<noteq> end_address h"
    using unat_of_nat32 [OF bounds(4)] bounds(1) c2(2) by auto
  have "header_at ?m1 (a + n) k False"
    using header_keep [OF eq1 c2(1) _ bounds(2)] c(5) by simp
  moreover have "footer_at (mem s) a n" "8 \<le> n" "a + 12 < 4294967296" using c bounds by simp_all
  ultimately have fr: "free (of_nat (a + 12)) s = insert_index (of_nat a) (s\<lparr>mem := ?m1\<rparr>)"
    using free_eq [OF c(6) _ _ bounds(4) ul _ kh ne] by simp
  from insert_index_eq [of "s\<lparr>mem := ?m1\<rparr>" h "of_nat a"] kh ok obtain m' h' where
    ins: "insert_index (of_nat a) (s\<lparr>mem := ?m1\<rparr>) = Inr (s\<lparr>mem := m', kheap := Some h'\<rparr>)"
    and h': "h' = h\<lparr>index := (index h)\<lparr>oa_size := oa_size (index h) + 1\<rparr>\<rparr>"
    and i': "mset (oa_items (index h') m') = add_mset (of_nat a) (mset (oa_items (index h) ?m1))"
    and eq2: "mem_eq_on (- index_region h) ?m1 m'" by auto
  have items1: "oa_items (index h) ?m1 = oa_items (index h) (mem s)"
    using a by (intro items_eq_on [OF ok eq1]) (auto simp: index_region_def)
  have eq: "mem_eq_on (- ({a ..< a + n} \<union> index_region h)) (mem s) m'"
    using eq1 eq2 c(5) by (auto simp: mem_eq_on_def)
  have "header_at ?m1 a n True" using set_is_hole_at [OF c(6) bounds(3)] .
  moreover have "footer_at ?m1 a n"
    using footer_keep [OF eq1 c(7)] c(5) bounds by simp
  ultimately have "strict_chain ?m1 a [(n, True)] (a + n)" using c(5) by simp
  then have sc: "strict_chain m' a [(n, True)] (a + n)"
    using bounds a by (elim strict_chain_eq_on [OF _ eq2]) (auto simp: index_region_def)
  have ok': "index_ok h'"
    using ok room oa_size_Suc [OF index_fits [OF ok]] by (simp add: h' index_ok_def)
  let ?s' = "s\<lparr>mem := m', kheap := Some h'\<rparr>"
  have "heap_rep ?s' h' (xs @ [(n, True)] @ (k, False) # ys)"
    by (rule heap_rep_replace [OF rep a, where ix = "index h'"])
      (use sc eq ok' i' items1 items in \<open>simp_all add: h' holes_at_append a add.assoc\<close>)
  then show ?thesis
    using fr ins eq h' by (intro exI [of _ ?s'] exI [of _ h'] exI [of _ "index h'"] exI [of _ m']) simp
qed


text \<open>The freed block is joined with the hole in front of it.\<close>

lemma unify_left_merge:
  assumes h: "header_at m p j True" "footer_at m p j" "20 \<le> j"
    and b: "header_at m a n False" "footer_at m a n" "20 \<le> n" and a: "a = p + j" "a + n < 4294967296"
  shows "\<exists>m'. unify_left (of_nat a) (of_nat (a + n - 8)) (set_hdr_is_hole (of_nat a) 1 m) = (of_nat p, False, m')
    \<and> header_at m' p (j + n) True \<and> footer_at m' p (j + n) \<and> mem_eq_on (- {p ..< a + n}) m m'"
proof -
  define m1 where "m1 = set_hdr_is_hole (of_nat a) 1 m"
  define m2 where "m2 = set_ftr_header (of_nat (a + n - 8)) (of_nat p) m1"
  define m3 where "m3 = set_hdr_size (of_nat p) (of_nat (j + n)) m2"
  have bounds: "a + 12 \<le> 4294967296" "p + 12 \<le> 4294967296" "a + n - 8 + 8 \<le> 4294967296" "p + 12 \<le> a"
    "a \<le> a + n - 8" "p + j \<le> 4294967296"
    using h(3) b(3) a by linarith+
  have eq1: "mem_eq_on (- {a ..< a + 12}) m m1"
    unfolding m1_def using bounds by (intro set_hdr_eq_on) auto
  have eq2: "mem_eq_on (- {a + n - 8 ..< a + n}) m1 m2"
    unfolding m2_def using bounds b(3) by (intro set_ftr_header_eq_on) auto
  have eq3: "mem_eq_on (- {p ..< p + 12}) m2 m3"
    unfolding m3_def using bounds by (intro set_hdr_eq_on) auto
  have eq12: "mem_eq_on (- {a ..< a + n}) m m2"
    using eq1 eq2 b(3) by (auto simp: mem_eq_on_def)
  have eq: "mem_eq_on (- {p ..< a + n}) m m3"
    using eq12 eq3 bounds by (auto simp: mem_eq_on_def)
  have p1: "header_at m1 p j True" "footer_at m1 p j"
    using header_keep [OF eq1 h(1)] footer_keep [OF eq1 h(2)] h(3) bounds a by simp_all
  have p2: "header_at m2 p j True" using header_keep [OF eq2 p1(1)] bounds by simp
  have a1: "hdr_size m1 (of_nat a) = of_nat n"
    using set_is_hole_at [OF b(1) bounds(1)] by (simp add: m1_def header_at_def)
  have ul: "unify_left (of_nat a) (of_nat (a + n - 8)) m1 = (of_nat p, False, m3)"
    using unify_left_hole [OF p1(2,1) _ a(1), of "of_nat (a + n - 8)", folded m2_def] a1 p2 h(3)
    by (simp add: m3_def header_at_def)
  have f1: "footer_at m1 a n" using footer_keep [OF eq1 b(2)] b(3) bounds a by simp
  have f2: "footer_at m2 p (j + n)"
    using set_ftr_header_at [OF f1, of j] b(3) a bounds by (simp add: m2_def)
  have f3: "footer_at m3 p (j + n)"
    using footer_keep [OF eq3 f2] b(3) a bounds by simp
  have h3: "header_at m3 p (j + n) True" unfolding m3_def using set_size_at [OF p2 bounds(2)] .
  show ?thesis using ul [unfolded m1_def] h3 f3 eq by blast
qed

lemma free_merge_left:
  assumes rep: "heap_rep s h (xs @ [(j, True), (n, False)] @ (k, False) # ys)"
    and p: "p = unat (start_address h) + seg_size xs" and a: "a = p + j"
  shows "\<exists>s' m'. free (of_nat (a + 12)) s = Inr s' \<and> heap_rep s' h (xs @ [(j + n, True)] @ (k, False) # ys)
    \<and> s' = s\<lparr>mem := m'\<rparr> \<and> mem_eq_on (- ({p ..< a + n})) (mem s) m'"
proof -
  let ?S = "unat (start_address h)" and ?E = "unat (end_address h)"
  let ?old = "[(j, True), (n, False)]"
  have kh: "kheap s = Some h" and ok: "index_ok h"
    and ch: "chain (mem s) ?S (xs @ ?old @ (k, False) # ys) ?E"
    and items: "mset (oa_items (index h) (mem s)) = mset (map of_nat (holes_at ?S (xs @ ?old @ (k, False) # ys)))"
    using rep by (simp_all add: heap_rep_def)
  note c0 = chain_split_segs [OF ch, folded p]
  have c: "header_at (mem s) p j True" "footer_at (mem s) p j" "20 \<le> j"
    "header_at (mem s) a n False" "footer_at (mem s) a n" "20 \<le> n"
    "header_at (mem s) (a + n) k False" "20 \<le> k"
    using c0(2) by (auto simp: a add.assoc)
  have e: "?E = a + n + k + seg_size ys" using c0(4) a by simp
  have E: "?E < 4294967296" by simp
  have bounds: "a + n + k \<le> ?E" "a + n + 12 \<le> 4294967296" "a + n < 4294967296" "8 \<le> n" "a + 12 < 4294967296"
    using e c(3,6,8) a E by linarith+
  from unify_left_merge [OF c(1-6) a bounds(3)] obtain m3 where
    ul: "unify_left (of_nat a) (of_nat (a + n - 8)) (set_hdr_is_hole (of_nat a) 1 (mem s)) = (of_nat p, False, m3)"
    and at: "header_at m3 p (j + n) True" "footer_at m3 p (j + n)" and eq: "mem_eq_on (- {p ..< a + n}) (mem s) m3" by blast
  have ne: "of_nat (a + n) \<noteq> end_address h"
    using unat_of_nat32 [OF bounds(3)] bounds(1) c(8) by auto
  have r3: "header_at m3 (a + n) k False"
    using header_keep [OF eq c(7)] bounds by simp
  have fr: "free (of_nat (a + 12)) s = Inr (s\<lparr>mem := m3\<rparr>)"
    using free_eq [OF c(4,5) bounds(4,3) ul r3 kh ne bounds(5)] by simp
  have sc: "strict_chain m3 p [(j + n, True)] (a + n)" using at c(6) a by simp
  have items3: "oa_items (index h) m3 = oa_items (index h) (mem s)"
    using p by (intro items_eq_on [OF ok eq]) (auto simp: index_region_def)
  have "heap_rep (s\<lparr>mem := m3\<rparr>) h (xs @ [(j + n, True)] @ (k, False) # ys)"
    by (rule heap_rep_replace_segs [OF rep _ p, where ix = "index h" and q = "a + n"])
      (use sc kh ok items items3 a mem_eq_on_mono [OF eq, of "- ({p ..< a + n} \<union> index_region h)"] in
        \<open>auto simp: holes_at_append p add.assoc\<close>)
  then show ?thesis using fr eq by (intro exI [of _ "s\<lparr>mem := m3\<rparr>"] exI [of _ m3]) simp
qed


lemma rep_index_size:
  assumes "heap_rep s h segs"
  shows "unat (oa_size (index h)) = length (holes_at (unat (start_address h)) segs)"
proof -
  have "size (mset (oa_items (index h) (mem s))) = size (mset (map (of_nat :: nat \<Rightarrow> uint32) (holes_at (unat (start_address h)) segs)))"
    using assms by (simp add: heap_rep_def del: size_mset)
  then show ?thesis by simp
qed

lemma rep_left_none:
  assumes "heap_rep s h ((n, False) # ys)" and a: "a = unat (start_address h)"
  shows "unify_left (of_nat a) footer (set_hdr_is_hole (of_nat a) 1 (mem s)) =
    (of_nat a, True, set_hdr_is_hole (of_nat a) 1 (mem s))"
proof -
  have ch: "chain (mem s) a ((n, False) # ys) (unat (end_address h))"
    and low: "ftr_magic (mem s) (start_address h - 8) \<noteq> HEAP_MAGIC" and ok: "index_ok h"
    using assms by (simp_all add: heap_rep_def)
  have n: "20 \<le> n" using ch by simp
  have "a + n \<le> unat (end_address h)" using chain_end [OF ch] by simp
  also have "\<dots> < 4294967296" by simp
  finally have b: "a + 12 \<le> 4294967296" using n by linarith
  have eq1: "mem_eq_on (- {a ..< a + 12}) (mem s) (set_hdr_is_hole (of_nat a) 1 (mem s))"
    using b by (intro set_hdr_eq_on) auto
  have a8: "8 \<le> a" using ok a by (simp add: index_ok_def)
  then have "unat (start_address h - 8) = a - 8" unfolding a by (subst unat_minus_le) simp_all
  then have "ftr_magic (set_hdr_is_hole (of_nat a) 1 (mem s)) (start_address h - 8) = ftr_magic (mem s) (start_address h - 8)"
    using a8 b unfolding ftr_defs by (intro mem_eq_on_rd32 [OF eq1]) auto
  then show ?thesis using low by (intro unify_left_none) (simp add: a sizeof_defs)
qed

lemma rep_left_block:
  assumes "heap_rep s h (xs @ [(j, False), (n, False)] @ ys)"
    and a: "a = unat (start_address h) + seg_size xs + j"
  shows "unify_left (of_nat a) footer (set_hdr_is_hole (of_nat a) 1 (mem s)) =
    (of_nat a, True, set_hdr_is_hole (of_nat a) 1 (mem s))"
proof -
  let ?p = "unat (start_address h) + seg_size xs"
  have ch: "chain (mem s) (unat (start_address h)) (xs @ [(j, False), (n, False)] @ ys) (unat (end_address h))"
    using assms by (simp add: heap_rep_def)
  note c = chain_split_segs [OF ch]
  have p: "header_at (mem s) ?p j False" "footer_at (mem s) ?p j" "20 \<le> j" "20 \<le> n" using c(2) by auto
  have "a + n \<le> unat (end_address h)" using c(4) a by simp
  also have "\<dots> < 4294967296" by simp
  finally have b: "a + 12 \<le> 4294967296" using p(4) by linarith
  have eq1: "mem_eq_on (- {a ..< a + 12}) (mem s) (set_hdr_is_hole (of_nat a) 1 (mem s))"
    using b by (intro set_hdr_eq_on) auto
  show ?thesis
    using header_keep [OF eq1 p(1)] footer_keep [OF eq1 p(2)] p(3) b a by (intro unify_left_block) auto
qed

text \<open>
  C4: free of a block that is followed by another block refines the abstract operation
  release: the block becomes a hole, joined with a hole in front of it; the index stays
  the set of the holes, and nothing is written outside the new hole and the index.
\<close>

theorem free_refines_release:
  assumes rep: "heap_rep s h (xs @ (n, False) # (k, False) # ys)"
    and room: "unat (array (index h)) + 4 * (unat (oa_size (index h)) + 2) + 8 \<le> unat (start_address h)"
  shows "\<exists>s' h'. free (of_nat (unat (start_address h) + seg_size xs + 12)) s = Inr s'
    \<and> heap_rep s' h' (release xs n ((k, False) # ys))
    \<and> start_address h' = start_address h \<and> end_address h' = end_address h
    \<and> mem_eq_on (- ({unat (start_address h) + seg_size (kept_before xs) ..< unat (start_address h) + seg_size xs + n}
         \<union> index_region h)) (mem s) (mem s')"
proof -
  let ?S = "unat (start_address h)"
  consider (first) "xs = []" | (block) zs j where "xs = zs @ [(j, False)]" | (hole) zs j where "xs = zs @ [(j, True)]"
    by (metis (full_types) prod.exhaust rev_exhaust)
  then show ?thesis
  proof cases
    case first
    from free_no_merge [OF rep refl _ room] rep_left_none [where a = "?S" and h = h] rep first
    show ?thesis by (fastforce simp: kept_before_def)
  next
    case block
    have "heap_rep s h (zs @ [(j, False), (n, False)] @ (k, False) # ys)" using rep block by simp
    from free_no_merge [OF rep refl _ room] rep_left_block [OF this, where a = "?S + seg_size xs"] block
    show ?thesis by (fastforce simp: kept_before_def add.assoc)
  next
    case hole
    have "heap_rep s h (zs @ [(j, True), (n, False)] @ (k, False) # ys)" using rep hole by simp
    from free_merge_left [OF this refl refl] obtain s' m' where
      "free (of_nat (?S + seg_size zs + j + 12)) s = Inr s'" "heap_rep s' h (zs @ [(j + n, True)] @ (k, False) # ys)"
      "s' = s\<lparr>mem := m'\<rparr>" "mem_eq_on (- {?S + seg_size zs ..< ?S + seg_size zs + j + n}) (mem s) m'" by blast
    then show ?thesis
      using hole mem_eq_on_mono [of "- {?S + seg_size zs ..< ?S + seg_size zs + j + n}"
          "mem s" m' "- ({?S + seg_size zs ..< ?S + seg_size zs + j + n} \<union> index_region h)"]
      by (intro exI [of _ s'] exI [of _ h]) (auto simp: kept_before_def add.assoc)
  qed
qed

end
