(* ===== verification/HeapDemo.thy ===== *)
theory HeapDemo
  imports HeapFree
begin

text \<open>
  The kernel heap as main creates it (0xC0000000 to 0xC0100000 on zeroed memory), after two
  allocations of eight bytes: the states at which the theorems about alloc and free are
  applied.
\<close>

section \<open>create_heap\<close>

text \<open>
  C14: create_heap makes a heap with one hole that reaches from the end of its index (512 KiB
  after start) to end_addr, the hole alone in the index; the index area is the only memory
  it writes besides the first header.
\<close>

theorem create_heap_one_hole:
  assumes "kheap s = None" "start0 mod 0x1000 = 0" "end_addr mod 0x1000 = 0"
    and "unat start0 + 0x80000 + 20 \<le> unat end_addr"
  shows "\<exists>h s'. create_heap fuel start0 end_addr max_addr superv ro s = Inr (h, s')
    \<and> heap_rep (s'\<lparr>kheap := Some h\<rparr>) h [(unat end_addr - (unat start0 + 0x80000), True)]
    \<and> unat (start_address h) = unat start0 + 0x80000 \<and> end_address h = end_addr
    \<and> array (index h) = start0 \<and> oa_size (index h) = 1
    \<and> mem_eq_on (- {unat start0 ..< unat start0 + 0x80000 + 12}) (mem s) (mem s')"
  using create_heap_rep [OF assms, of fuel max_addr superv ro] by blast

theorem create_heap_one_hole_witness:
  "\<exists>h s'. create_heap 1 KHEAP_START (KHEAP_START + KHEAP_INITIAL_SIZE) 0xCFFFF000 0 0
      (boot_kstate (\<lambda>_. 0) 0x106000) = Inr (h, s')
    \<and> heap_rep (s'\<lparr>kheap := Some h\<rparr>) h [(0x80000, True)]"
  using create_heap_one_hole [where s = "boot_kstate (\<lambda>_. 0) 0x106000" and ?start0.0 = KHEAP_START
      and end_addr = "KHEAP_START + KHEAP_INITIAL_SIZE" and fuel = 1 and max_addr = "0xCFFFF000"
      and superv = 0 and ro = 0]
  by (auto simp: boot_kstate_def KHEAP_START_def KHEAP_INITIAL_SIZE_def)

section \<open>Two blocks\<close>

lemma demo_heap:
  "\<exists>s h. heap_rep s h [(0x80000, True)] \<and> start_address h = 0xC0080000 \<and> array (index h) = 0xC0000000"
proof -
  have "kheap (boot_kstate (\<lambda>_. 0) 0x106000) = None" by (simp add: boot_kstate_def)
  from create_heap_rep [OF this, where ?start0.0 = "0xC0000000" and end_addr = "0xC0100000" and fuel = 1
      and max_addr = 0 and sup' = 0 and ro = 0] obtain h s' where
    "heap_rep (s'\<lparr>kheap := Some h\<rparr>) h [(0x80000, True)]" "unat (start_address h) = 0xC0080000"
    "array (index h) = 0xC0000000" by auto
  then show ?thesis by (intro exI [of _ "s'\<lparr>kheap := Some h\<rparr>"] exI [of _ h]) (simp add: word_unat_eq_iff)
qed

lemma demo_two_blocks:
  "\<exists>s h. heap_rep s h [(28, False), (28, False), (0x80000 - 56, True)]
    \<and> start_address h = 0xC0080000 \<and> array (index h) = 0xC0000000"
proof -
  from demo_heap obtain s h where 0: "heap_rep s h [(0x80000, True)]" "start_address h = 0xC0080000"
    "array (index h) = 0xC0000000" by blast
  have "unat (8 :: size_t) + 20 < 4294967296" by simp
  from alloc_fits [OF 0(1) this, where fuel = 0 and ?n0.0 = "0x80000"] obtain s1 h1 where
    1: "heap_rep s1 h1 [(28, False), (0x80000 - 28, True)]" "start_address h1 = 0xC0080000"
    "array (index h1) = 0xC0000000" using 0(2,3) by (auto simp: carve_def Cons_eq_append_conv)
  have "unat (8 :: size_t) + 20 < 4294967296" by simp
  from alloc_fits [OF 1(1) this, where fuel = 0 and ?n0.0 = "0x80000 - 28"] obtain s2 h2 where
    "heap_rep s2 h2 [(28, False), (28, False), (0x80000 - 56, True)]" "start_address h2 = 0xC0080000"
    "array (index h2) = 0xC0000000" using 1(2,3) by (auto simp: carve_def Cons_eq_append_conv)
  then show ?thesis by blast
qed

theorem find_smallest_hole_smallest_witness:
  "\<exists>s h it. kheap s = Some h \<and> sorted (map (\<lambda>x. unat (hdr_size (mem s) x)) (oa_items (index h) (mem s)))
    \<and> find_smallest_hole 28 0 s = Inr it"
proof -
  from demo_heap obtain s h where rep: "heap_rep s h [(0x80000, True)]" by blast
  have "length (oa_items (index h) (mem s)) = 1" using rep_index_size [OF rep] by simp
  then have "sorted (map (\<lambda>x. unat (hdr_size (mem s) x)) (oa_items (index h) (mem s)))"
    by (cases "oa_items (index h) (mem s)") (auto simp del: length_oa_items)
  moreover have "kheap s = Some h" "index_ok h" using rep by (simp_all add: heap_rep_def)
  ultimately show ?thesis using find_smallest_hole_smallest [where sz = 28 and al = 0] by blast
qed

theorem alloc_refines_carve_witness:
  "\<exists>s h s' h'. heap_rep s h [(0x80000, True)]
    \<and> alloc 1 8 0 s = Inr (0xC008000C, s') \<and> heap_rep s' h' [(28, False), (0x80000 - 28, True)]"
proof -
  from demo_heap obtain s h where rep: "heap_rep s h [(0x80000, True)]" "start_address h = 0xC0080000" by blast
  have "unat (8 :: size_t) + 20 < 4294967296" by simp
  from alloc_refines_carve [OF rep(1) this, where fuel = 0 and ?n0.0 = "0x80000"] show ?thesis
    using rep by (fastforce simp: carve_def Cons_eq_append_conv)
qed

theorem free_refines_release_witness:
  "\<exists>s h s' h'. heap_rep s h [(28, False), (28, False), (0x80000 - 56, True)]
    \<and> free 0xC008000C s = Inr s' \<and> heap_rep s' h' [(28, True), (28, False), (0x80000 - 56, True)]"
proof -
  from demo_two_blocks obtain s h where rep: "heap_rep s h ([] @ (28, False) # (28, False) # [(0x80000 - 56, True)])"
    "start_address h = 0xC0080000" "array (index h) = 0xC0000000" by auto
  have "unat (oa_size (index h)) = 1" using rep_index_size [OF rep(1)] by simp
  then have "unat (array (index h)) + 4 * (unat (oa_size (index h)) + 2) + 8 \<le> unat (start_address h)"
    using rep by simp
  from free_refines_release [OF rep(1) this] show ?thesis using rep by fastforce
qed

end
