(* ===== verification/Strings.thy ===== *)
theory Strings
  imports MemOps
begin

text \<open>
  src/utils/string.c: strcmp, strcpy, strlen and strcat over the flat memory, as loops that
  may never end (None).
\<close>

section \<open>Operations\<close>

text \<open>strcmp returns 1 for different strings: the loop gives i and failed.\<close>

partial_function (option) strcmp_loop ::
  "memory \<Rightarrow> uint32 \<Rightarrow> uint32 \<Rightarrow> int32 \<Rightarrow> (int32 \<times> int32) option" where
  "strcmp_loop m str1 str2 i =
     (if m (str1 + i) \<noteq> 0 \<and> m (str2 + i) \<noteq> 0 then
        (if m (str1 + i) \<noteq> m (str2 + i) then Some (i, 1) else strcmp_loop m str1 str2 (i + 1))
      else Some (i, 0))"

definition strcmp :: "memory \<Rightarrow> uint32 \<Rightarrow> uint32 \<Rightarrow> int32 option" where
  "strcmp m str1 str2 =
     (case strcmp_loop m str1 str2 0 of
        None \<Rightarrow> None
      | Some (i, failed) \<Rightarrow>
          Some (if (m (str1 + i) = 0 \<and> m (str2 + i) \<noteq> 0) \<or> (m (str1 + i) \<noteq> 0 \<and> m (str2 + i) = 0)
                then 1 else failed))"

text \<open>strcpy has no return statement; its callers ignore the value.\<close>

partial_function (option) strcpy :: "memory \<Rightarrow> uint32 \<Rightarrow> uint32 \<Rightarrow> memory option" where
  "strcpy m dest src =
     (let m1 = m(dest := m src)
      in if m1 (src + 1) \<noteq> 0 then strcpy m1 (dest + 1) (src + 1) else Some m1)"

partial_function (option) strlen_loop :: "memory \<Rightarrow> uint32 \<Rightarrow> int32 \<Rightarrow> int32 option" where
  "strlen_loop m src i = (if m src \<noteq> 0 then strlen_loop m (src + 1) (i + 1) else Some i)"

definition strlen :: "memory \<Rightarrow> uint32 \<Rightarrow> int32 option" where
  "strlen m src = strlen_loop m src 0"

text \<open>
  strcat. C does not say what *dest = *dest++ means; a compiler that gives it a meaning stores
  the character at the old place or, when the increment comes first (\<open>early\<close>), at the next one.
  The value of *dest is the character at the old place in both.
\<close>

partial_function (option) strcat_end :: "bool \<Rightarrow> memory \<Rightarrow> uint32 \<Rightarrow> (memory \<times> uint32) option" where
  "strcat_end early m dest =
     (if m dest \<noteq> 0 then strcat_end early (m((if early then dest + 1 else dest) := m dest)) (dest + 1)
      else Some (m, dest))"

partial_function (option) strcat_copy :: "memory \<Rightarrow> uint32 \<Rightarrow> uint32 \<Rightarrow> (memory \<times> uint32) option" where
  "strcat_copy m dest src =
     (let m1 = m(dest := m src)
      in if m1 (src + 1) \<noteq> 0 then strcat_copy m1 (dest + 1) (src + 1) else Some (m1, dest + 1))"

definition strcat :: "bool \<Rightarrow> memory \<Rightarrow> uint32 \<Rightarrow> uint32 \<Rightarrow> (memory \<times> uint32) option" where
  "strcat early m dest src =
     (case strcat_end early m dest of None \<Rightarrow> None | Some (m1, end_of_dest) \<Rightarrow> strcat_copy m1 end_of_dest src)"

section \<open>Strings in memory\<close>

text \<open>The characters from an address up to the first zero byte.\<close>

fun c_string :: "memory \<Rightarrow> uint32 \<Rightarrow> uint8 list \<Rightarrow> bool" where
  "c_string m a [] \<longleftrightarrow> m a = 0"
| "c_string m a (c # cs) \<longleftrightarrow> c \<noteq> 0 \<and> m a = c \<and> c_string m (a + 1) cs"

lemma c_string_iff:
  "c_string m a cs \<longleftrightarrow> 0 \<notin> set cs \<and> bytes m a (length cs) = cs \<and> m (a + of_nat (length cs)) = 0"
proof (induction cs arbitrary: a)
  case (Cons c cs)
  have "a + of_nat (length (c # cs)) = a + 1 + of_nat (length cs)" by simp
  then show ?case by (simp only: c_string.simps Cons.IH list.set length_Cons bytes_Suc) auto
qed simp

lemma c_string_nth: "c_string m a cs \<Longrightarrow> k < length cs \<Longrightarrow> m (a + of_nat k) = cs ! k \<and> cs ! k \<noteq> 0"
proof (induction cs arbitrary: a k)
  case (Cons c cs)
  show ?case
  proof (cases k)
    case 0
    then show ?thesis using Cons.prems by auto
  next
    case (Suc j)
    then show ?thesis using Cons.IH [of "a + 1" j] Cons.prems by (simp add: add.assoc)
  qed
qed simp

lemma c_string_end: "c_string m a cs \<Longrightarrow> m (a + of_nat (length cs)) = 0"
  by (simp add: c_string_iff)

lemma c_string_unique: "c_string m a cs \<Longrightarrow> c_string m a ds \<Longrightarrow> cs = ds"
proof (induction cs arbitrary: a ds)
  case Nil
  then show ?case by (cases ds) auto
next
  case (Cons c cs)
  then show ?case by (cases ds) auto
qed

text \<open>Memory wraps around, so a string is shorter than the address space.\<close>

lemma c_string_length: "c_string m a cs \<Longrightarrow> length cs < 4294967296"
proof (rule ccontr)
  assume s: "c_string m a cs" and "\<not> length cs < 4294967296"
  define k where "k = unat (of_nat (length cs) :: uint32)"
  have "k < length cs" using \<open>\<not> _\<close> by (simp add: k_def unat_of_nat)
  moreover have "a + of_nat k = a + of_nat (length cs)" by (simp add: k_def)
  ultimately show False using c_string_nth [OF s] c_string_end [OF s] by metis
qed

lemma c_string_eq_on:
  assumes "mem_eq_on S m m'" "{unat a ..< unat a + length cs + 1} \<subseteq> S" "unat a + length cs < 4294967296"
  shows "c_string m' a cs \<longleftrightarrow> c_string m a cs"
proof -
  have "unat (a + of_nat (length cs)) = unat a + length cs"
    using assms(3) by (intro unat_plus_of_nat) simp
  then have "m' (a + of_nat (length cs)) = m (a + of_nat (length cs))"
    using assms(2) by (intro mem_eq_onD [OF assms(1)]) auto
  moreover have "bytes m' a (length cs) = bytes m a (length cs)"
    using assms by (intro bytes_eq_on [OF assms(1)]) auto
  ultimately show ?thesis by (simp add: c_string_iff)
qed

section \<open>strlen\<close>

lemma strlen_loop_string: "c_string m a cs \<Longrightarrow> strlen_loop m a i = Some (i + of_nat (length cs))"
proof (induction cs arbitrary: a i)
  case Nil
  then show ?case by (simp add: strlen_loop.simps [of m a])
next
  case (Cons c cs)
  then show ?case by (simp add: strlen_loop.simps [of m a] add.assoc)
qed

lemma strlen_string: "c_string m a cs \<Longrightarrow> strlen m a = Some (of_nat (length cs))"
  by (simp add: strlen_def strlen_loop_string)

lemma strlen_loop_zero: "strlen_loop m a i = Some n \<Longrightarrow> \<exists>x. m x = 0"
  by (erule strlen_loop.raw_induct [where P = "\<lambda>m src i n. \<exists>x. m x = 0", rotated]) (auto split: if_splits)

lemma zero_gives_string: "m (a + of_nat k) = 0 \<Longrightarrow> \<exists>cs. c_string m a cs"
proof (induction k arbitrary: a)
  case 0
  then have "c_string m a []" by simp
  then show ?case ..
next
  case (Suc k)
  then have "m (a + 1 + of_nat k) = 0" by (simp add: add.assoc)
  then obtain cs where cs: "c_string m (a + 1) cs" using Suc.IH by blast
  show ?case
  proof (cases "m a = 0")
    case True
    then have "c_string m a []" by simp
    then show ?thesis ..
  next
    case False
    with cs have "c_string m a (m a # cs)" by simp
    then show ?thesis ..
  qed
qed

text \<open>
  C35: strlen returns exactly when the memory has a zero byte somewhere: it then returns the
  length of the string at the pointer, the bytes up to the first zero; with no zero byte it
  runs through the address space forever.
\<close>

theorem strlen_returns:
  "case strlen m a of
     Some n \<Rightarrow> c_string m a (bytes m a (unat n))
   | None \<Rightarrow> (\<forall>x. m x \<noteq> 0)"
proof (cases "\<exists>x. m x = 0")
  case True
  then obtain x where "m x = 0" by blast
  then have "m (a + of_nat (unat (x - a))) = 0" by simp
  then obtain cs where cs: "c_string m a cs" using zero_gives_string by blast
  then have "unat (of_nat (length cs) :: uint32) = length cs"
    using c_string_length by (simp add: unat_of_nat)
  moreover have "bytes m a (length cs) = cs" using cs by (simp add: c_string_iff)
  ultimately show ?thesis using cs by (simp add: strlen_string)
next
  case False
  then have "strlen m a = None"
    using strlen_loop_zero [of m a 0] by (cases "strlen m a") (auto simp: strlen_def)
  then show ?thesis using False by simp
qed

section \<open>strcmp\<close>

lemma strcmp_loop_string:
  "c_string m (a + i) xs \<Longrightarrow> c_string m (b + i) ys \<Longrightarrow>
   \<exists>j failed. strcmp_loop m a b i = Some (j, failed)
     \<and> (if (m (a + j) = 0 \<and> m (b + j) \<noteq> 0) \<or> (m (a + j) \<noteq> 0 \<and> m (b + j) = 0) then 1 else failed)
        = (if xs = ys then 0 else 1)"
proof (induction xs arbitrary: i ys)
  case Nil
  then show ?case by (cases ys) (auto simp: strcmp_loop.simps [of m a b i])
next
  case (Cons x xs)
  show ?case
  proof (cases ys)
    case Nil
    then show ?thesis using Cons.prems by (auto simp: strcmp_loop.simps [of m a b i])
  next
    case (Cons y ys')
    have "c_string m (a + (i + 1)) xs" "c_string m (b + (i + 1)) ys'"
      using Cons.prems Cons by (simp_all add: add.assoc)
    note IH = Cons.IH [OF this]
    have ne: "m (a + i) \<noteq> 0" "m (b + i) \<noteq> 0" "m (a + i) = x" "m (b + i) = y"
      using Cons.prems Cons by auto
    show ?thesis
    proof (cases "x = y")
      case True
      then have "strcmp_loop m a b i = strcmp_loop m a b (i + 1)"
        using ne by (simp add: strcmp_loop.simps [of m a b i])
      then show ?thesis using IH True Cons by simp
    next
      case False
      then show ?thesis using ne Cons by (simp add: strcmp_loop.simps [of m a b i])
    qed
  qed
qed

lemma strcmp_string:
  assumes "c_string m a xs" "c_string m b ys"
  shows "strcmp m a b = Some (if xs = ys then 0 else 1)"
proof -
  have "c_string m (a + 0) xs" "c_string m (b + 0) ys" using assms by simp_all
  from strcmp_loop_string [OF this] obtain j failed where
    "strcmp_loop m a b 0 = Some (j, failed)"
    "(if (m (a + j) = 0 \<and> m (b + j) \<noteq> 0) \<or> (m (a + j) \<noteq> 0 \<and> m (b + j) = 0) then 1 else failed)
      = (if xs = ys then 0 else 1)"
    by blast
  then show ?thesis by (simp add: strcmp_def)
qed

text \<open>
  C36: strcmp of two strings always returns: 0 exactly when they have the same characters,
  1 otherwise (it does not order them).
\<close>

theorem strcmp_decides_equality:
  assumes "c_string m str1 xs" "c_string m str2 ys"
  shows "strcmp m str1 str2 = Some (if xs = ys then 0 else 1)"
  using assms by (rule strcmp_string)

text \<open>Two strings laid out by hand: ab at 0 and ab or ac at 8.\<close>

definition demo_strings :: memory where
  "demo_strings = (\<lambda>_. 0)(0 := 97, 1 := 98, 8 := 97, 9 := 99)"

theorem strcmp_decides_equality_witness: "strcmp demo_strings 0 8 = Some 1"
  using strcmp_decides_equality [of demo_strings 0 "[97, 98]" 8 "[97, 99]"]
  by (simp add: demo_strings_def)

section \<open>strcpy\<close>

lemma c_string_upd:
  "(\<And>k. k \<le> length cs \<Longrightarrow> d \<noteq> a + of_nat k) \<Longrightarrow> c_string (m(d := v)) a cs \<longleftrightarrow> c_string m a cs"
proof (induction cs arbitrary: a)
  case Nil
  from Nil [of 0] show ?case by simp
next
  case (Cons c cs)
  have "d \<noteq> a + 1 + of_nat k" if "k \<le> length cs" for k
    using Cons.prems [of "Suc k"] that by (simp add: add.assoc)
  moreover have "d \<noteq> a" using Cons.prems [of 0] by simp
  ultimately show ?case using Cons.IH [of "a + 1"] by simp
qed

lemma apart_addresses:
  assumes "apart_regions d n s (n + 1)" "unat s + n < 4294967296" "unat d + n \<le> 4294967296" "j < n" "k \<le> n"
  shows "d + of_nat j \<noteq> s + of_nat k"
proof
  assume "d + of_nat j = s + of_nat k"
  moreover have "unat (d + of_nat j) = unat d + j" "unat (s + of_nat k) = unat s + k"
    using assms by (auto intro!: unat_plus_of_nat)
  ultimately have "unat d + j = unat s + k" by simp
  then show False using assms(1,4,5) by (auto simp: apart_regions_def)
qed

lemma strcpy_memcpy:
  assumes "c_string m s xs" "xs \<noteq> []" "\<And>j k. j < length xs \<Longrightarrow> k \<le> length xs \<Longrightarrow> d + of_nat j \<noteq> s + of_nat k"
  shows "strcpy m d s = Some (memcpy m d s (of_nat (length xs)))"
  using assms
proof (induction xs arbitrary: m s d)
  case (Cons x xs)
  define n where "n = (of_nat (length xs) :: uint32)"
  have len: "Suc (length xs) < 4294967296" using c_string_length [OF Cons.prems(1)] by simp
  then have "unat (of_nat (Suc (length xs)) :: uint32) = Suc (length xs)" by (rule unat_of_nat32)
  then have nz: "(1 + n :: uint32) \<noteq> 0" by (auto simp: n_def)
  have dis: "d + 1 + of_nat j \<noteq> s + 1 + of_nat k" if "j < length xs" "k \<le> length xs" for j k
    using Cons.prems(3) [of "Suc j" "Suc k"] that by simp
  have "d \<noteq> s + 1 + of_nat k" if "k \<le> length xs" for k
    using Cons.prems(3) [of 0 "Suc k"] that by (simp add: add.assoc)
  then have tl: "c_string (m(d := m s)) (s + 1) xs"
    using Cons.prems(1) by (subst c_string_upd) auto
  have cpy: "memcpy m d s (1 + n) = memcpy (m(d := m s)) (d + 1) (s + 1) n"
    using nz by (simp add: memcpy.simps [of m d s])
  show ?case
  proof (cases xs)
    case Nil
    then show ?thesis
      using tl cpy by (simp add: strcpy.simps [of m d s] n_def memcpy.simps [of _ _ _ 0] Let_def del: fun_upd_apply)
  next
    case (Cons y ys)
    with tl have "(m(d := m s)) (s + 1) \<noteq> 0" by auto
    then show ?thesis
      using Cons.IH [OF tl _ dis] Cons cpy by (simp add: strcpy.simps [of m d s] n_def Let_def del: fun_upd_apply)
  qed
qed simp

lemma strcpy_string:
  assumes "c_string m s xs" "xs \<noteq> []" "unat d + length xs \<le> 4294967296" "unat s + length xs < 4294967296"
    "apart_regions d (length xs) s (length xs + 1)"
  shows "\<exists>m'. strcpy m d s = Some m' \<and> bytes m' d (length xs) = xs
    \<and> mem_eq_on (- {unat d ..< unat d + length xs}) m m'"
proof -
  define n where "n = (of_nat (length xs) :: uint32)"
  have n: "unat n = length xs" using assms(4) by (simp add: n_def unat_of_nat)
  have r: "unat d + unat n \<le> 4294967296" "unat s + unat n \<le> 4294967296" "apart_regions d (unat n) s (unat n)"
    using assms by (auto simp: n apart_regions_def)
  have "strcpy m d s = Some (memcpy m d s n)"
    unfolding n_def by (rule strcpy_memcpy [OF assms(1,2) apart_addresses [OF assms(5,4,3)]])
  moreover have "bytes (memcpy m d s n) d (length xs) = xs"
    using memcpy_bytes [OF r] assms(1) by (simp add: n c_string_iff)
  moreover have "mem_eq_on (- {unat d ..< unat d + length xs}) m (memcpy m d s n)"
    using memcpy_outside [OF r] by (simp add: n)
  ultimately show ?thesis by blast
qed

text \<open>
  C37: strcpy of a string that is not empty to a place apart from it returns, having copied
  the characters and nothing else: the terminating zero is not written, so the copy is a
  string only where the destination already had a zero after it.
\<close>

theorem strcpy_leaves_terminator_out:
  assumes "c_string m src xs" "xs \<noteq> []"
    "unat dest + length xs \<le> 4294967296" "unat src + length xs < 4294967296"
    "apart_regions dest (length xs) src (length xs + 1)"
  shows "\<exists>m'. strcpy m dest src = Some m' \<and> bytes m' dest (length xs) = xs
    \<and> mem_eq_on (- {unat dest ..< unat dest + length xs}) m m'
    \<and> (c_string m' dest xs \<longleftrightarrow> m (dest + of_nat (length xs)) = 0)"
proof -
  from strcpy_string [OF assms] obtain m' where m': "strcpy m dest src = Some m'"
    "bytes m' dest (length xs) = xs" "mem_eq_on (- {unat dest ..< unat dest + length xs}) m m'" by blast
  have n: "unat (of_nat (length xs) :: uint32) = length xs" using assms(4) by (simp add: unat_of_nat)
  have "\<not> dest + of_nat (length xs) - dest < (of_nat (length xs) :: uint32)" by simp
  then have "unat (dest + of_nat (length xs)) \<notin> {unat dest ..< unat dest + length xs}"
    using assms(3) n word_region_iff [of dest "of_nat (length xs)" "dest + of_nat (length xs)"] by auto
  then have "m' (dest + of_nat (length xs)) = m (dest + of_nat (length xs))"
    using mem_eq_onD [OF m'(3)] by blast
  then have "c_string m' dest xs \<longleftrightarrow> m (dest + of_nat (length xs)) = 0"
    using m'(2) assms(1) by (simp add: c_string_iff)
  with m' show ?thesis by blast
qed

text \<open>
  The string ab copied over the string defg: ab, and then what was left of the old string.
\<close>

definition demo_overwrite :: memory where
  "demo_overwrite = (\<lambda>_. 0)(0 := 97, 1 := 98, 8 := 100, 9 := 101, 10 := 102, 11 := 103)"

theorem strcpy_leaves_terminator_out_witness:
  "\<exists>m'. strcpy demo_overwrite 8 0 = Some m' \<and> bytes m' 8 2 = [97, 98] \<and> \<not> c_string m' 8 [97, 98]"
proof -
  have l: "length [97, 98 :: uint8] = 2" by simp
  have p: "c_string demo_overwrite 0 [97, 98]" "demo_overwrite (8 + of_nat 2) \<noteq> 0"
    "apart_regions 8 2 0 (2 + 1)"
    by (simp_all add: demo_overwrite_def apart_regions_def)
  from strcpy_leaves_terminator_out [of demo_overwrite 0 "[97, 98]" 8, unfolded l] p
  show ?thesis by auto
qed

section \<open>strcat\<close>

lemma strcat_end_string: "c_string m d xs \<Longrightarrow> strcat_end False m d = Some (m, d + of_nat (length xs))"
  by (induction xs arbitrary: d) (simp_all add: strcat_end.simps [of False m] algebra_simps)

lemma strcat_end_early: "strcat_end early m d = Some r \<Longrightarrow> early \<longrightarrow> m d = 0"
  by (erule strcat_end.raw_induct [where P = "\<lambda>early m d r. early \<longrightarrow> m d = 0", rotated]) (fastforce split: if_splits)

lemma strcat_copy_strcpy:
  assumes "c_string m s xs" "xs \<noteq> []" "\<And>j k. j < length xs \<Longrightarrow> k \<le> length xs \<Longrightarrow> d + of_nat j \<noteq> s + of_nat k"
  shows "strcat_copy m d s = map_option (\<lambda>m'. (m', d + of_nat (length xs))) (strcpy m d s)"
  using assms
proof (induction xs arbitrary: m s d)
  case (Cons x xs)
  have dis: "d + 1 + of_nat j \<noteq> s + 1 + of_nat k" if "j < length xs" "k \<le> length xs" for j k
    using Cons.prems(3) [of "Suc j" "Suc k"] that by simp
  have "d \<noteq> s + 1 + of_nat k" if "k \<le> length xs" for k
    using Cons.prems(3) [of 0 "Suc k"] that by (simp add: add.assoc)
  then have tl: "c_string (m(d := m s)) (s + 1) xs"
    using Cons.prems(1) by (subst c_string_upd) auto
  show ?case
  proof (cases xs)
    case Nil
    then show ?thesis
      using tl by (simp add: strcpy.simps [of m d s] strcat_copy.simps [of m d s] Let_def del: fun_upd_apply)
  next
    case (Cons y ys)
    with tl have "(m(d := m s)) (s + 1) \<noteq> 0" by auto
    then show ?thesis
      using Cons.IH [OF tl _ dis] Cons
      by (simp add: strcpy.simps [of m d s] strcat_copy.simps [of m d s] add.assoc Let_def del: fun_upd_apply)
  qed
qed simp

text \<open>
  C38: strcat works only under one reading of its statement *dest = *dest++. When the store goes to
  the old place, it appends the characters of src to the string at dest, without a terminating
  zero, and returns the end of the result, not its start; when the increment comes first, it
  returns for no string at dest but the empty one.
\<close>

theorem strcat_depends_on_order:
  assumes "c_string m dest xs" "c_string m src ys" "xs \<noteq> []" "ys \<noteq> []"
    "unat dest + length xs + length ys < 4294967296" "unat src + length ys < 4294967296"
    "apart_regions (dest + of_nat (length xs)) (length ys) src (length ys + 1)"
  shows "(\<exists>m'. strcat False m dest src = Some (m', dest + of_nat (length xs) + of_nat (length ys))
      \<and> bytes m' dest (length xs + length ys) = xs @ ys
      \<and> mem_eq_on (- {unat dest + length xs ..< unat dest + length xs + length ys}) m m')
    \<and> strcat True m dest src = None"
proof -
  let ?e = "dest + of_nat (length xs)"
  have e: "unat ?e = unat dest + length xs" using assms(5) by (intro unat_plus_of_nat) simp
  have r: "unat ?e + length ys \<le> 4294967296" using assms(5) e by simp
  from strcpy_string [OF assms(2,4) r assms(6,7)] obtain m' where
    m': "strcpy m ?e src = Some m'" "bytes m' ?e (length ys) = ys" "mem_eq_on (- {unat ?e ..< unat ?e + length ys}) m m'" by blast
  have "strcat_copy m ?e src = Some (m', ?e + of_nat (length ys))"
    using strcat_copy_strcpy [OF assms(2,4) apart_addresses [OF assms(7,6) r]] m'(1) by simp
  then have "strcat False m dest src = Some (m', ?e + of_nat (length ys))"
    by (simp add: strcat_def strcat_end_string [OF assms(1)])
  moreover have "{unat dest ..< unat dest + length xs} \<subseteq> - {unat ?e ..< unat ?e + length ys}" using e by auto
  from bytes_eq_on [OF m'(3) this] assms(5) have "bytes m' dest (length xs) = bytes m dest (length xs)" by simp
  then have "bytes m' dest (length xs + length ys) = xs @ ys"
    using m'(2) assms(1) by (simp add: bytes_append c_string_iff)
  moreover have "strcat_end True m dest = None"
  proof (cases "strcat_end True m dest")
    case (Some r)
    then have "m dest = 0" using strcat_end_early by blast
    then show ?thesis using c_string_nth [OF assms(1), of 0] assms(3) by simp
  qed
  then have "strcat True m dest src = None" by (simp add: strcat_def)
  ultimately show ?thesis using m'(3) unfolding e by blast
qed

text \<open>The string cd is appended to ab.\<close>

definition demo_append :: memory where
  "demo_append = (\<lambda>_. 0)(0 := 97, 1 := 98, 8 := 99, 9 := 100)"

theorem strcat_depends_on_order_witness:
  "\<exists>m'. strcat False demo_append 0 8 = Some (m', 4) \<and> bytes m' 0 4 = [97, 98, 99, 100] \<and> strcat True demo_append 0 8 = None"
proof -
  have "c_string demo_append 0 [97, 98]" "c_string demo_append 8 [99, 100]"
    "apart_regions (0 + of_nat (length [97, 98 :: uint8])) (length [99, 100 :: uint8]) 8 (length [99, 100 :: uint8] + 1)"
    by (simp_all add: demo_append_def apart_regions_def)
  from strcat_depends_on_order [OF this(1,2) _ _ _ _ this(3)] obtain m' where
    "strcat False demo_append 0 8 = Some (m', 4)" "bytes m' 0 (Suc (Suc (Suc (Suc 0)))) = [97, 98, 99, 100]"
    "strcat True demo_append 0 8 = None" by auto
  then show ?thesis by (auto simp: eval_nat_numeral)
qed

end
