(* ===== verification/Vfs.thy ===== *)
theory Vfs
  imports Strings KHeap
begin

text \<open>
  src/filesystem/fs.h and fs.c: the nodes of the virtual file system in memory and the
  operations that call through the function pointers of a node. What a pointer calls is an
  argument (\<open>call\<close>), which the driver that fills the nodes provides.
\<close>

section \<open>Nodes\<close>

definition FS_FILE :: size_t where "FS_FILE = 0x01"
definition FS_DIRECTORY :: size_t where "FS_DIRECTORY = 0x02"
definition FS_CHARDEVICE :: size_t where "FS_CHARDEVICE = 0x03"
definition FS_BLOCKDEVICE :: size_t where "FS_BLOCKDEVICE = 0x04"
definition FS_PIPE :: size_t where "FS_PIPE = 0x05"
definition FS_SYMLINK :: size_t where "FS_SYMLINK = 0x06"
definition FS_MOUNTPOINT :: size_t where "FS_MOUNTPOINT = 0x08"

text \<open>
  fs_node_t: name in the first 128 bytes, then 14 fields of 4 bytes, 184 bytes in all;
  struct dirent: name in the first 128 bytes, ino at 128.
\<close>

definition sizeof_fs_node_t :: size_t where "sizeof_fs_node_t = 184"

definition node_name :: "uint32 \<Rightarrow> uint32" where "node_name node = node"
definition node_mask :: "memory \<Rightarrow> uint32 \<Rightarrow> size_t" where "node_mask m node = rd32 m (node + 128)"
definition node_uid :: "memory \<Rightarrow> uint32 \<Rightarrow> size_t" where "node_uid m node = rd32 m (node + 132)"
definition node_gid :: "memory \<Rightarrow> uint32 \<Rightarrow> size_t" where "node_gid m node = rd32 m (node + 136)"
definition node_flags :: "memory \<Rightarrow> uint32 \<Rightarrow> size_t" where "node_flags m node = rd32 m (node + 140)"
definition node_inode :: "memory \<Rightarrow> uint32 \<Rightarrow> size_t" where "node_inode m node = rd32 m (node + 144)"
definition node_length :: "memory \<Rightarrow> uint32 \<Rightarrow> size_t" where "node_length m node = rd32 m (node + 148)"
definition node_impl :: "memory \<Rightarrow> uint32 \<Rightarrow> size_t" where "node_impl m node = rd32 m (node + 152)"
definition node_read :: "memory \<Rightarrow> uint32 \<Rightarrow> uint32" where "node_read m node = rd32 m (node + 156)"
definition node_write :: "memory \<Rightarrow> uint32 \<Rightarrow> uint32" where "node_write m node = rd32 m (node + 160)"
definition node_open :: "memory \<Rightarrow> uint32 \<Rightarrow> uint32" where "node_open m node = rd32 m (node + 164)"
definition node_close :: "memory \<Rightarrow> uint32 \<Rightarrow> uint32" where "node_close m node = rd32 m (node + 168)"
definition node_readdir :: "memory \<Rightarrow> uint32 \<Rightarrow> uint32" where "node_readdir m node = rd32 m (node + 172)"
definition node_finddir :: "memory \<Rightarrow> uint32 \<Rightarrow> uint32" where "node_finddir m node = rd32 m (node + 176)"
definition node_ptr :: "memory \<Rightarrow> uint32 \<Rightarrow> uint32" where "node_ptr m node = rd32 m (node + 180)"

definition dirent_name :: "uint32 \<Rightarrow> uint32" where "dirent_name d = d"
definition dirent_ino :: "memory \<Rightarrow> uint32 \<Rightarrow> size_t" where "dirent_ino m d = rd32 m (d + 128)"

lemmas node_defs = node_name_def node_mask_def node_uid_def node_gid_def node_flags_def
  node_inode_def node_length_def node_impl_def node_read_def node_write_def node_open_def
  node_close_def node_readdir_def node_finddir_def node_ptr_def dirent_name_def dirent_ino_def

text \<open>The types of the functions a node points to.\<close>

type_synonym read_type_t = "uint32 \<Rightarrow> size_t \<Rightarrow> size_t \<Rightarrow> uint32 \<Rightarrow> memory \<Rightarrow> kerror + size_t \<times> memory"
type_synonym write_type_t = "uint32 \<Rightarrow> size_t \<Rightarrow> size_t \<Rightarrow> uint32 \<Rightarrow> memory \<Rightarrow> kerror + size_t \<times> memory"
type_synonym open_type_t = "uint32 \<Rightarrow> memory \<Rightarrow> kerror + memory"
type_synonym close_type_t = "uint32 \<Rightarrow> memory \<Rightarrow> kerror + memory"
type_synonym readdir_type_t = "uint32 \<Rightarrow> size_t \<Rightarrow> memory \<Rightarrow> kerror + uint32 \<times> memory"
type_synonym finddir_type_t = "uint32 \<Rightarrow> uint32 \<Rightarrow> memory \<Rightarrow> kerror + uint32"

section \<open>Operations\<close>

definition read_fs :: "(uint32 \<Rightarrow> read_type_t) \<Rightarrow> read_type_t" where
  "read_fs call node offset sz buffer m =
     (if node_read m node \<noteq> 0 then call (node_read m node) node offset sz buffer m else Inr (0, m))"

definition write_fs :: "(uint32 \<Rightarrow> write_type_t) \<Rightarrow> write_type_t" where
  "write_fs call node offset sz buffer m =
     (if node_write m node \<noteq> 0 then call (node_write m node) node offset sz buffer m else Inr (0, m))"

text \<open>open_fs ignores the access it is asked for.\<close>

definition open_fs :: "(uint32 \<Rightarrow> open_type_t) \<Rightarrow> uint32 \<Rightarrow> uint8 \<Rightarrow> uint8 \<Rightarrow> memory \<Rightarrow> kerror + memory" where
  "open_fs call node rd wr m = (if node_open m node \<noteq> 0 then call (node_open m node) node m else Inr m)"

definition close_fs :: "(uint32 \<Rightarrow> close_type_t) \<Rightarrow> close_type_t" where
  "close_fs call node m = (if node_close m node \<noteq> 0 then call (node_close m node) node m else Inr m)"

definition readdir_fs :: "(uint32 \<Rightarrow> readdir_type_t) \<Rightarrow> readdir_type_t" where
  "readdir_fs call node idx m =
     (if node_flags m node AND 0x7 = FS_DIRECTORY \<and> node_readdir m node \<noteq> 0
      then call (node_readdir m node) node idx m else Inr (0, m))"

definition finddir_fs :: "(uint32 \<Rightarrow> finddir_type_t) \<Rightarrow> finddir_type_t" where
  "finddir_fs call node nm m =
     (if node_flags m node AND 0x7 = FS_DIRECTORY \<and> node_finddir m node \<noteq> 0
      then call (node_finddir m node) node nm m else Inr 0)"

section \<open>Assignments to the fields of a structure\<close>

text \<open>One assignment after the other; a field is its offset.\<close>

definition set_fields :: "uint32 \<Rightarrow> (nat \<times> uint32) list \<Rightarrow> memory \<Rightarrow> memory" where
  "set_fields p fvs = fold (\<lambda>(k, v) m. wr32 m (p + of_nat k) v) fvs"

lemma set_fields_simps [simp]:
  "set_fields p [] m = m"
  "set_fields p ((k, v) # fs) m = set_fields p fs (wr32 m (p + of_nat k) v)"
  by (simp_all add: set_fields_def)

lemma set_fields_eq_on:
  assumes "\<forall>(k, v) \<in> set fs. lo \<le> k \<and> k + 4 \<le> n" "unat p + n \<le> 4294967296"
  shows "mem_eq_on (- {unat p + lo ..< unat p + n}) m (set_fields p fs m)"
  using assms(1)
proof (induction fs arbitrary: m)
  case (Cons f fs)
  obtain k v where f: "f = (k, v)" by fastforce
  then have k: "lo \<le> k" "k + 4 \<le> n" using Cons.prems by auto
  then have "unat (p + of_nat k) = unat p + k" using assms(2) by (intro unat_plus_of_nat) simp
  then have "mem_eq_on (- {unat p + lo ..< unat p + n}) m (wr32 m (p + of_nat k) v)"
    using k assms(2) by (intro mem_eq_on_wr32) auto
  moreover have "mem_eq_on (- {unat p + lo ..< unat p + n}) (wr32 m (p + of_nat k) v) (set_fields p (f # fs) m)"
    using Cons.IH [of "wr32 m (p + of_nat k) v"] Cons.prems f by simp
  ultimately show ?case by (rule mem_eq_on_trans)
qed simp

lemma set_fields_other:
  assumes "\<forall>(k, v) \<in> set fs. k + 4 \<le> n \<and> (k + 4 \<le> j \<or> j + 4 \<le> k)" "j + 4 \<le> n" "unat p + n \<le> 4294967296"
  shows "rd32 (set_fields p fs m) (p + of_nat j) = rd32 m (p + of_nat j)"
  using assms(1)
proof (induction fs arbitrary: m)
  case (Cons f fs)
  obtain k v where f: "f = (k, v)" by fastforce
  then have k: "k + 4 \<le> n" "k + 4 \<le> j \<or> j + 4 \<le> k" using Cons.prems by auto
  then have "unat (p + of_nat k) = unat p + k" "unat (p + of_nat j) = unat p + j"
    using assms(2,3) by (auto intro!: unat_plus_of_nat)
  then have "rd32 (wr32 m (p + of_nat k) v) (p + of_nat j) = rd32 m (p + of_nat j)"
    using k assms(2,3) by (intro rd32_wr32_disj) auto
  then show ?case using Cons f by simp
qed simp

text \<open>A field holds what was assigned to it last.\<close>

lemma set_fields_get:
  assumes "map_of (rev fs) j = Some v" "\<forall>(k, w) \<in> set fs. k + 4 \<le> n \<and> (k = j \<or> k + 4 \<le> j \<or> j + 4 \<le> k)"
    "unat p + n \<le> 4294967296"
  shows "rd32 (set_fields p fs m) (p + of_nat j) = v"
  using assms(1,2)
proof (induction fs arbitrary: m rule: rev_induct)
  case (snoc f fs)
  obtain k w where f: "f = (k, w)" by fastforce
  have last: "set_fields p (fs @ [f]) m = wr32 (set_fields p fs m) (p + of_nat k) w"
    by (simp add: set_fields_def f)
  show ?case
  proof (cases "k = j")
    case True
    then show ?thesis using snoc.prems f last by simp
  next
    case False
    then have m: "map_of (rev fs) j = Some v" using snoc.prems(1) f by simp
    have k: "k + 4 \<le> n" "k + 4 \<le> j \<or> j + 4 \<le> k" using snoc.prems(2) f False by auto
    have "j \<in> fst ` set fs" using map_of_SomeD [OF m] by force
    then have "j + 4 \<le> n" using snoc.prems(2) by auto
    then have "unat (p + of_nat k) = unat p + k" "unat (p + of_nat j) = unat p + j"
      using k assms(3) by (auto intro!: unat_plus_of_nat)
    then have "rd32 (wr32 (set_fields p fs m) (p + of_nat k) w) (p + of_nat j) = rd32 (set_fields p fs m) (p + of_nat j)"
      using k \<open>j + 4 \<le> n\<close> assms(3) by (intro rd32_wr32_disj) auto
    then show ?thesis using snoc.IH [OF m] snoc.prems(2) last by simp
  qed
qed simp

end
