(* ===== verification/Initrd.thy ===== *)
theory Initrd
  imports Vfs
begin

text \<open>
  src/filesystem/initrd.c and .h: the file system in the initial ram disk. The addresses
  that the linker chooses (functions, string literals, the static dirent) are arguments.
\<close>

section \<open>State and data\<close>

record initrd_symbols =
  sym_read :: uint32
  sym_readdir :: uint32
  sym_finddir :: uint32
  sym_dirent :: uint32
  lit_J :: uint32
  lit_dev :: uint32

record initrd_t =
  initrd_header :: uint32
  file_headers :: uint32
  initrd_root :: uint32
  initrd_dev :: uint32
  root_nodes :: uint32
  nroot_nodes :: int32

text \<open>
  initrd_file_header_t: magic at 0, name at 1, offset at 68, length at 72, 76 bytes in all.
\<close>

definition sizeof_initrd_header_t :: size_t where "sizeof_initrd_header_t = 4"
definition sizeof_initrd_file_header_t :: size_t where "sizeof_initrd_file_header_t = 76"

definition nfiles :: "memory \<Rightarrow> uint32 \<Rightarrow> size_t" where "nfiles m h = rd32 m h"
definition fh_magic :: "memory \<Rightarrow> uint32 \<Rightarrow> uint8" where "fh_magic m h = m h"
definition fh_name :: "uint32 \<Rightarrow> uint32" where "fh_name h = h + 1"
definition fh_offset :: "memory \<Rightarrow> uint32 \<Rightarrow> size_t" where "fh_offset m h = rd32 m (h + 68)"
definition fh_length :: "memory \<Rightarrow> uint32 \<Rightarrow> size_t" where "fh_length m h = rd32 m (h + 72)"

definition file_header_at :: "initrd_t \<Rightarrow> size_t \<Rightarrow> uint32" where
  "file_header_at ir i = file_headers ir + sizeof_initrd_file_header_t * i"

definition root_node_at :: "initrd_t \<Rightarrow> size_t \<Rightarrow> uint32" where
  "root_node_at ir i = root_nodes ir + sizeof_fs_node_t * i"

section \<open>Operations\<close>

definition initrd_read :: "initrd_t \<Rightarrow> read_type_t" where
  "initrd_read ir node offset sz buffer m =
     (let header = file_header_at ir (node_inode m node);
          len = fh_length m header; header_offset = fh_offset m header
      in if offset > len then Inr (0, m)
         else
           let sz' = (if offset + sz > len then len - offset else sz)
           in Inr (sz', memcpy m buffer (header_offset + offset) sz'))"

text \<open>The static dirent after it was given a name and an inode.\<close>

definition initrd_readdir :: "initrd_symbols \<Rightarrow> initrd_t \<Rightarrow> readdir_type_t" where
  "initrd_readdir sy ir node idx m =
     (let dirent = sym_dirent sy
      in if node = initrd_root ir \<and> idx = 0 then
           res_bind (returns (strcpy m (dirent_name dirent) (lit_dev sy))) (\<lambda>m1.
             Inr (dirent, wr32 (m1(dirent_name dirent + 3 := 0)) (dirent + 128) 0))
         else if idx - 1 \<ge> nroot_nodes ir then Inr (0, m)
         else
           let node' = root_node_at ir (idx - 1)
           in res_bind (returns (strcpy m (dirent_name dirent) (node_name node'))) (\<lambda>m1.
              res_bind (returns (strlen m1 (node_name node'))) (\<lambda>len.
                let m2 = m1(dirent_name dirent + len := 0)
                in Inr (dirent, wr32 m2 (dirent + 128) (node_inode m2 node')))))"

text \<open>The loop over \<open>k\<close> remaining nodes from node i on.\<close>

fun finddir_loop :: "initrd_t \<Rightarrow> nat \<Rightarrow> size_t \<Rightarrow> uint32 \<Rightarrow> memory \<Rightarrow> kerror + uint32" where
  "finddir_loop ir 0 i nm m = Inr 0"
| "finddir_loop ir (Suc k) i nm m =
     res_bind (returns (strcmp m nm (node_name (root_node_at ir i)))) (\<lambda>differ.
       if differ = 0 then Inr (root_node_at ir i) else finddir_loop ir k (i + 1) nm m)"

definition initrd_finddir :: "initrd_symbols \<Rightarrow> initrd_t \<Rightarrow> finddir_type_t" where
  "initrd_finddir sy ir node nm m =
     (let scan = finddir_loop ir (nat (sint (nroot_nodes ir))) 0 nm m
      in if node = initrd_root ir then
           res_bind (returns (strcmp m nm (lit_dev sy))) (\<lambda>differ.
             if differ = 0 then Inr (initrd_dev ir) else scan)
         else scan)"

definition set_dir_node :: "initrd_symbols \<Rightarrow> uint32 \<Rightarrow> memory \<Rightarrow> memory" where
  "set_dir_node sy node = set_fields node
     [(148, 0), (144, 0), (136, 0), (132, 0), (128, 0), (140, FS_DIRECTORY), (156, 0), (160, 0),
      (164, 0), (168, 0), (172, sym_readdir sy), (176, sym_finddir sy), (180, 0), (152, 0)]"

text \<open>One iteration of the loop over the files; \<open>ptr\<close> of the node is not set.\<close>

definition init_node :: "initrd_symbols \<Rightarrow> size_t \<Rightarrow> initrd_t \<Rightarrow> size_t \<Rightarrow> memory \<Rightarrow> memory option" where
  "init_node sy location ir i m =
     (let header = file_header_at ir i; node = root_node_at ir i;
          m1 = wr32 m (header + 68) (fh_offset m header + location)
      in Option.bind (strcpy m1 (node_name node) (fh_name header)) (\<lambda>m2.
           Some (set_fields node
             [(136, 0), (132, 0), (128, 0), (148, fh_length m2 header), (144, i), (140, FS_FILE),
              (156, sym_read sy), (160, 0), (172, 0), (176, 0), (164, 0), (168, 0), (152, 0)] m2)))"

partial_function (option) init_nodes ::
  "initrd_symbols \<Rightarrow> size_t \<Rightarrow> initrd_t \<Rightarrow> size_t \<Rightarrow> memory \<Rightarrow> memory option" where
  "init_nodes sy location ir i m =
     (if i < nfiles m (initrd_header ir)
      then Option.bind (init_node sy location ir i m) (\<lambda>m1. init_nodes sy location ir (i + 1) m1)
      else Some m)"

text \<open>\<open>km\<close> is kmalloc. The result is the root node, the globals and the state.\<close>

definition initialise_initrd_with ::
  "(size_t \<Rightarrow> kstate \<Rightarrow> kerror + uint32 \<times> kstate) \<Rightarrow> initrd_symbols \<Rightarrow> size_t \<Rightarrow> kstate
    \<Rightarrow> kerror + uint32 \<times> initrd_t \<times> kstate" where
  "initialise_initrd_with km sy location s =
     res_bind (km sizeof_fs_node_t s) (\<lambda>(root, s1).
     res_bind (returns (strcpy (mem s1) (node_name root) (lit_J sy))) (\<lambda>m1.
     res_bind (km sizeof_fs_node_t (s1\<lparr>mem := set_dir_node sy root m1\<rparr>)) (\<lambda>(dev, s2).
     res_bind (returns (strcpy (mem s2) (node_name dev) (lit_dev sy))) (\<lambda>m2.
     let s3 = s2\<lparr>mem := set_dir_node sy dev m2\<rparr>
     in res_bind (km (sizeof_fs_node_t * nfiles (mem s3) location) s3) (\<lambda>(nodes, s4).
        let ir = \<lparr>initrd_header = location, file_headers = location + sizeof_initrd_header_t,
                  initrd_root = root, initrd_dev = dev, root_nodes = nodes,
                  nroot_nodes = nfiles (mem s4) location\<rparr>
        in res_bind (returns (init_nodes sy location ir 0 (mem s4))) (\<lambda>m4.
             Inr (root, ir, s4\<lparr>mem := m4\<rparr>)))))))"

definition initialise_initrd ::
  "nat \<Rightarrow> initrd_symbols \<Rightarrow> size_t \<Rightarrow> kstate \<Rightarrow> kerror + uint32 \<times> initrd_t \<times> kstate" where
  "initialise_initrd fuel = initialise_initrd_with (kmalloc fuel)"

section \<open>The function pointers of the nodes\<close>

text \<open>Only the three functions of this file are ever stored in a node.\<close>

definition call_read :: "initrd_symbols \<Rightarrow> initrd_t \<Rightarrow> uint32 \<Rightarrow> read_type_t" where
  "call_read sy ir f = (if f = sym_read sy then initrd_read ir
     else (\<lambda>node offset sz buffer m. Inl UnknownFunction))"

definition call_readdir :: "initrd_symbols \<Rightarrow> initrd_t \<Rightarrow> uint32 \<Rightarrow> readdir_type_t" where
  "call_readdir sy ir f = (if f = sym_readdir sy then initrd_readdir sy ir
     else (\<lambda>node idx m. Inl UnknownFunction))"

definition call_finddir :: "initrd_symbols \<Rightarrow> initrd_t \<Rightarrow> uint32 \<Rightarrow> finddir_type_t" where
  "call_finddir sy ir f = (if f = sym_finddir sy then initrd_finddir sy ir
     else (\<lambda>node nm m. Inl UnknownFunction))"

end
