(* ===== verification/InitrdMount.thy ===== *)
theory InitrdMount
  imports Initrd
begin

text \<open>
  What initialise_initrd makes of an image of files in memory: an abstract list of files,
  each reachable by its name through the root node and with its contents behind its node.
\<close>

section \<open>The image and the mounted file system\<close>

text \<open>
  A file is its name and its contents. In the image, at \<open>loc\<close>, the headers of 64 files
  follow the number of files; the contents come after them, up to \<open>isize\<close> bytes.
\<close>

type_synonym named_file = "uint8 list \<times> uint8 list"

definition image_header :: "uint32 \<Rightarrow> nat \<Rightarrow> uint32" where
  "image_header loc i = loc + 4 + 76 * of_nat i"

definition file_in_image :: "memory \<Rightarrow> uint32 \<Rightarrow> nat \<Rightarrow> nat \<Rightarrow> named_file \<Rightarrow> bool" where
  "file_in_image m loc isize i f \<longleftrightarrow>
     fst f \<noteq> [] \<and> length (fst f) < 64 \<and> c_string m (image_header loc i + 1) (fst f)
     \<and> fh_length m (image_header loc i) = of_nat (length (snd f))
     \<and> 4868 \<le> unat (fh_offset m (image_header loc i))
     \<and> unat (fh_offset m (image_header loc i)) + length (snd f) \<le> isize
     \<and> bytes m (loc + fh_offset m (image_header loc i)) (length (snd f)) = snd f"

definition image_at :: "memory \<Rightarrow> uint32 \<Rightarrow> nat \<Rightarrow> named_file list \<Rightarrow> bool" where
  "image_at m loc isize files \<longleftrightarrow>
     unat loc + isize < 4294967296 \<and> 4868 \<le> isize \<and> length files \<le> 64
     \<and> nfiles m loc = of_nat (length files)
     \<and> (\<forall>i < length files. file_in_image m loc isize i (files ! i))"

text \<open>
  The node of file \<open>i\<close> after the ram disk is initialised. The offset in the file's header
  is an address then.
\<close>

definition file_mounted :: "initrd_symbols \<Rightarrow> initrd_t \<Rightarrow> nat \<Rightarrow> memory \<Rightarrow> nat \<Rightarrow> named_file \<Rightarrow> bool" where
  "file_mounted sy ir isize m i f \<longleftrightarrow>
     (let node = root_node_at ir (of_nat i); header = file_header_at ir (of_nat i)
      in length (fst f) < 64 \<and> fst f \<noteq> []
       \<and> c_string m (node_name node) (fst f) \<and> node_flags m node = FS_FILE \<and> node_inode m node = of_nat i
       \<and> node_length m node = of_nat (length (snd f)) \<and> node_read m node = sym_read sy
       \<and> fh_length m header = of_nat (length (snd f))
       \<and> unat (initrd_header ir) + 4868 \<le> unat (fh_offset m header)
       \<and> unat (fh_offset m header) + length (snd f) \<le> unat (initrd_header ir) + isize
       \<and> bytes m (fh_offset m header) (length (snd f)) = snd f)"

definition dir_mounted :: "initrd_symbols \<Rightarrow> memory \<Rightarrow> uint32 \<Rightarrow> uint8 list \<Rightarrow> bool" where
  "dir_mounted sy m node nm \<longleftrightarrow>
     c_string m (node_name node) nm \<and> node_flags m node = FS_DIRECTORY
     \<and> node_readdir m node = sym_readdir sy \<and> node_finddir m node = sym_finddir sy
     \<and> node_read m node = 0"

text \<open>Where the globals point to, for \<open>n\<close> files: inside the address space and apart.\<close>

definition layout_ok :: "initrd_t \<Rightarrow> nat \<Rightarrow> nat \<Rightarrow> bool" where
  "layout_ok ir isize n \<longleftrightarrow>
     unat (initrd_header ir) + isize < 4294967296 \<and> 4868 \<le> isize \<and> n \<le> 64
     \<and> file_headers ir = initrd_header ir + 4
     \<and> unat (root_nodes ir) + 184 * n < 4294967296
     \<and> (n = 0 \<or> apart_regions (root_nodes ir) (184 * n) (initrd_header ir) isize)"

definition header_region :: "initrd_t \<Rightarrow> nat \<Rightarrow> nat set" where
  "header_region ir i = {unat (initrd_header ir) + 4 + 76 * i ..< unat (initrd_header ir) + 4 + 76 * i + 76}"

definition data_region :: "initrd_t \<Rightarrow> nat \<Rightarrow> nat set" where
  "data_region ir isize = {unat (initrd_header ir) + 4868 ..< unat (initrd_header ir) + isize}"

definition node_region :: "initrd_t \<Rightarrow> nat \<Rightarrow> nat set" where
  "node_region ir i = {unat (root_nodes ir) + 184 * i ..< unat (root_nodes ir) + 184 * i + 184}"

lemmas region_defs = header_region_def data_region_def node_region_def

lemma image_header_fields:
  assumes "unat loc + 4868 \<le> 4294967296" "i < 64"
  shows "unat (image_header loc i) = unat loc + 4 + 76 * i"
    and "unat (image_header loc i + 1) = unat loc + 4 + 76 * i + 1"
    and "unat (image_header loc i + 68) = unat loc + 4 + 76 * i + 68"
    and "unat (image_header loc i + 72) = unat loc + 4 + 76 * i + 72"
proof -
  have "unat (image_header loc i + of_nat k) = unat loc + 4 + 76 * i + k" if "k \<le> 72" for k
  proof -
    have "image_header loc i + of_nat k = loc + of_nat (4 + 76 * i + k)" by (simp add: image_header_def add.assoc)
    also have "unat \<dots> = unat loc + (4 + 76 * i + k)" using assms that by (intro unat_plus_of_nat) simp
    finally show ?thesis by simp
  qed
  from this [of 0] this [of 1] this [of 68] this [of 72] show
    "unat (image_header loc i) = unat loc + 4 + 76 * i"
    "unat (image_header loc i + 1) = unat loc + 4 + 76 * i + 1"
    "unat (image_header loc i + 68) = unat loc + 4 + 76 * i + 68"
    "unat (image_header loc i + 72) = unat loc + 4 + 76 * i + 72"
    by simp_all
qed

lemma image_addresses:
  assumes "layout_ok ir isize n" "i < n"
  shows "unat (image_header (initrd_header ir) i) = unat (initrd_header ir) + 4 + 76 * i"
    and "file_header_at ir (of_nat i) = image_header (initrd_header ir) i"
    and "unat (root_node_at ir (of_nat i)) = unat (root_nodes ir) + 184 * i"
proof -
  let ?L = "initrd_header ir" and ?N = "root_nodes ir"
  show "unat (image_header ?L i) = unat ?L + 4 + 76 * i"
    using assms by (intro image_header_fields) (auto simp: layout_ok_def)
  show "file_header_at ir (of_nat i) = image_header ?L i"
    using assms(1) by (simp add: file_header_at_def image_header_def layout_ok_def sizeof_initrd_file_header_t_def)
  have "root_node_at ir (of_nat i) = ?N + of_nat (184 * i)"
    by (simp add: root_node_at_def sizeof_fs_node_t_def)
  then show "unat (root_node_at ir (of_nat i)) = unat ?N + 184 * i"
    using assms by (simp only:) (subst unat_plus_of_nat; auto simp: layout_ok_def)
qed

lemma header_fields:
  assumes "layout_ok ir isize n" "i < n"
  shows "unat (image_header (initrd_header ir) i + 1) = unat (initrd_header ir) + 4 + 76 * i + 1"
    and "unat (image_header (initrd_header ir) i + 68) = unat (initrd_header ir) + 4 + 76 * i + 68"
    and "unat (image_header (initrd_header ir) i + 72) = unat (initrd_header ir) + 4 + 76 * i + 72"
  using assms by (intro image_header_fields; auto simp: layout_ok_def)+

lemma node_field:
  assumes "layout_ok ir isize n" "i < n" "k \<le> 180"
  shows "unat (root_node_at ir (of_nat i) + of_nat k) = unat (root_nodes ir) + 184 * i + k"
proof -
  note a = image_addresses(3) [OF assms(1,2)]
  show ?thesis using assms by (subst unat_plus_of_nat; simp only: a; simp add: layout_ok_def)
qed

section \<open>Frame conditions\<close>

lemma file_in_image_eq_on_at:
  assumes t: "unat loc + isize < 4294967296" "4868 \<le> isize" "i < 64" and eq: "mem_eq_on S m m'"
    and S: "{unat loc + 4 + 76 * i ..< unat loc + 4 + 76 * i + 76} \<union> {unat loc + 4868 ..< unat loc + isize} \<subseteq> S"
    and img: "file_in_image m loc isize i f"
  shows "file_in_image m' loc isize i f"
proof -
  let ?h = "image_header loc i"
  have "unat loc + 4868 \<le> 4294967296" using t by simp
  note h = image_header_fields [OF this t(3)]
  have f: "length (fst f) < 64" "4868 \<le> unat (fh_offset m ?h)" "unat (fh_offset m ?h) + length (snd f) \<le> isize"
    using img by (simp_all add: file_in_image_def)
  have "c_string m' (?h + 1) (fst f) \<longleftrightarrow> c_string m (?h + 1) (fst f)"
    using S f t by (intro c_string_eq_on [OF eq]) (auto simp: h)
  moreover have "fh_length m' ?h = fh_length m ?h" "fh_offset m' ?h = fh_offset m ?h"
    unfolding fh_length_def fh_offset_def
    using S t by (auto intro!: mem_eq_on_rd32 [OF eq] simp: h)
  moreover have "unat (loc + fh_offset m ?h) = unat loc + unat (fh_offset m ?h)"
    using f t by (intro unat_plus_no_wrap) simp
  then have "bytes m' (loc + fh_offset m ?h) (length (snd f)) = bytes m (loc + fh_offset m ?h) (length (snd f))"
    using S f t by (intro bytes_eq_on [OF eq]) auto
  ultimately show ?thesis using img by (simp add: file_in_image_def)
qed

lemma file_in_image_eq_on:
  assumes "layout_ok ir isize n" "i < n" "mem_eq_on S m m'"
    "header_region ir i \<union> data_region ir isize \<subseteq> S" "file_in_image m (initrd_header ir) isize i f"
  shows "file_in_image m' (initrd_header ir) isize i f"
  using assms by (intro file_in_image_eq_on_at [OF _ _ _ assms(3)]) (auto simp: layout_ok_def region_defs)

lemma image_at_eq_on:
  assumes "image_at m loc isize files" "mem_eq_on S m m'" "{unat loc ..< unat loc + isize} \<subseteq> S"
  shows "image_at m' loc isize files"
proof -
  have bounds: "unat loc + isize < 4294967296" "4868 \<le> isize" "length files \<le> 64"
    using assms(1) by (simp_all add: image_at_def)
  have "nfiles m' loc = nfiles m loc"
    unfolding nfiles_def using assms(3) bounds by (intro mem_eq_on_rd32 [OF assms(2)]) auto
  moreover have "file_in_image m' loc isize i (files ! i)" if i: "i < length files" for i
  proof (rule file_in_image_eq_on_at [OF bounds(1,2) _ assms(2)])
    have "76 * i + 76 \<le> 76 * 64" using i bounds(3) by simp
    then show "{unat loc + 4 + 76 * i ..< unat loc + 4 + 76 * i + 76} \<union> {unat loc + 4868 ..< unat loc + isize} \<subseteq> S"
      using assms(3) bounds by auto
  qed (use assms(1) i bounds in \<open>auto simp: image_at_def\<close>)
  ultimately show ?thesis using assms(1) by (simp add: image_at_def)
qed

lemma file_mounted_eq_on:
  assumes "layout_ok ir isize n" "i < n" "mem_eq_on S m m'"
    "header_region ir i \<union> data_region ir isize \<union> node_region ir i \<subseteq> S" "file_mounted sy ir isize m i f"
  shows "file_mounted sy ir isize m' i f"
proof -
  let ?L = "initrd_header ir" and ?h = "image_header (initrd_header ir) i" and ?n = "root_node_at ir (of_nat i)"
  note h = header_fields [OF assms(1,2)]
  note nf = node_field [OF assms(1,2)]
  note a = image_addresses [OF assms(1,2)]
  have f: "length (fst f) < 64" "unat ?L + 4868 \<le> unat (fh_offset m ?h)"
      "unat (fh_offset m ?h) + length (snd f) \<le> unat ?L + isize"
    using assms(5) by (simp_all add: file_mounted_def Let_def a)
  have t: "unat ?L + isize < 4294967296" "unat (root_nodes ir) + 184 * i + 184 < 4294967296"
    using assms(1,2) by (auto simp: layout_ok_def)
  have "c_string m' ?n (fst f) \<longleftrightarrow> c_string m ?n (fst f)"
    using assms(4) f t by (intro c_string_eq_on [OF assms(3)]) (auto simp: a region_defs)
  moreover have "rd32 m' (?n + of_nat k) = rd32 m (?n + of_nat k)" if "k \<le> 180" for k
    using assms(4) that t by (intro mem_eq_on_rd32 [OF assms(3)]) (auto simp: nf region_defs)
  from this [of 140] this [of 144] this [of 148] this [of 156] have
    "node_flags m' ?n = node_flags m ?n" "node_inode m' ?n = node_inode m ?n"
    "node_length m' ?n = node_length m ?n" "node_read m' ?n = node_read m ?n"
    by (simp_all add: node_defs)
  moreover have "fh_length m' ?h = fh_length m ?h" "fh_offset m' ?h = fh_offset m ?h"
    unfolding fh_length_def fh_offset_def
    using assms(1,2,4) by (auto intro!: mem_eq_on_rd32 [OF assms(3)] simp: h region_defs layout_ok_def)
  moreover have "bytes m' (fh_offset m ?h) (length (snd f)) = bytes m (fh_offset m ?h) (length (snd f))"
    using assms(4) f t by (intro bytes_eq_on [OF assms(3)]) (auto simp: region_defs)
  ultimately show ?thesis using assms(5) by (simp add: file_mounted_def Let_def a node_name_def)
qed

section \<open>The loop over the files\<close>

lemma node_apart:
  assumes "layout_ok ir isize n" "i < n" "j < n"
  shows "node_region ir i \<inter> (header_region ir j \<union> data_region ir isize) = {}"
    and "i \<noteq> j \<Longrightarrow> node_region ir i \<inter> node_region ir j = {}"
    and "i \<noteq> j \<Longrightarrow> header_region ir i \<inter> header_region ir j = {}"
    and "header_region ir i \<inter> data_region ir isize = {}"
    and "node_region ir i \<inter> header_region ir j = {}"
proof -
  have b: "184 * i + 184 \<le> 184 * n" "76 * j + 76 \<le> 76 * 64" "76 * i + 76 \<le> 76 * 64"
    using assms by (auto simp: layout_ok_def)
  show "node_region ir i \<inter> (header_region ir j \<union> data_region ir isize) = {}"
    using assms(1) b by (auto simp: layout_ok_def apart_regions_def region_defs)
  then show "node_region ir i \<inter> header_region ir j = {}" by blast
  show "header_region ir i \<inter> data_region ir isize = {}" using b by (auto simp: region_defs)
  show "node_region ir i \<inter> node_region ir j = {}" if "i \<noteq> j"
    using that by (cases i j rule: linorder_cases) (auto simp: region_defs)
  show "header_region ir i \<inter> header_region ir j = {}" if "i \<noteq> j"
    using that by (cases i j rule: linorder_cases) (auto simp: region_defs)
qed

lemma init_node_mounts:
  assumes lay: "layout_ok ir isize n" "i < n" and img: "file_in_image m (initrd_header ir) isize i f"
    and zero: "\<forall>a. unat a \<in> node_region ir i \<longrightarrow> m a = 0"
  shows "\<exists>m'. init_node sy (initrd_header ir) ir (of_nat i) m = Some m' \<and> file_mounted sy ir isize m' i f
    \<and> mem_eq_on (- (node_region ir i \<union> header_region ir i)) m m'"
proof -
  let ?L = "initrd_header ir" and ?h = "image_header (initrd_header ir) i" and ?n = "root_node_at ir (of_nat i)"
  let ?nm = "fst f"
  note h = header_fields [OF lay] and nf = node_field [OF lay] and a = image_addresses [OF lay]
  note dis = node_apart(1,4) [OF lay lay(2)]
  have f: "?nm \<noteq> []" "length ?nm < 64" "c_string m (?h + 1) ?nm" "4868 \<le> unat (fh_offset m ?h)"
      "unat (fh_offset m ?h) + length (snd f) \<le> isize"
    using img by (simp_all add: file_in_image_def)
  have t: "unat ?L + isize < 4294967296" "unat (root_nodes ir) + 184 * i + 184 < 4294967296" "76 * i + 76 \<le> 76 * 64"
    using lay by (auto simp: layout_ok_def)
  define m1 where "m1 = wr32 m (?h + 68) (fh_offset m ?h + ?L)"
  have e1: "mem_eq_on (- {unat ?L + 4 + 76 * i + 68 ..< unat ?L + 4 + 76 * i + 72}) m m1"
    unfolding m1_def using t lay by (intro mem_eq_on_wr32) (auto simp: h layout_ok_def)
  have "c_string m1 (?h + 1) ?nm \<longleftrightarrow> c_string m (?h + 1) ?nm"
    using f t lay by (intro c_string_eq_on [OF e1]) (auto simp: h layout_ok_def)
  then have cs1: "c_string m1 (?h + 1) ?nm" using f(3) by simp
  have "apart_regions ?n (length ?nm) (?h + 1) (length ?nm + 1)"
    using lay f(2) t by (auto simp: apart_regions_def h a layout_ok_def)
  with cs1 have "\<exists>m2. strcpy m1 ?n (?h + 1) = Some m2 \<and> bytes m2 ?n (length ?nm) = ?nm
      \<and> mem_eq_on (- {unat ?n ..< unat ?n + length ?nm}) m1 m2"
    using f t lay by (intro strcpy_string) (auto simp: a h layout_ok_def)
  then obtain m2 where m2: "strcpy m1 ?n (?h + 1) = Some m2" "bytes m2 ?n (length ?nm) = ?nm"
    "mem_eq_on (- {unat ?n ..< unat ?n + length ?nm}) m1 m2" by blast
  let ?fields = "[(136, 0), (132, 0), (128, 0), (148, fh_length m2 ?h), (144, of_nat i), (140, FS_FILE),
      (156, sym_read sy), (160, 0), (172, 0), (176, 0), (164, 0), (168, 0), (152, 0)] :: (nat \<times> uint32) list"
  define m3 where "m3 = set_fields ?n ?fields m2"
  have run: "init_node sy ?L ir (of_nat i) m = Some m3"
    using m2(1) by (simp add: init_node_def Let_def a(2) m1_def [symmetric] node_name_def fh_name_def m3_def)
  have e3: "mem_eq_on (- {unat ?n + 128 ..< unat ?n + 184}) m2 m3"
    unfolding m3_def using t by (intro set_fields_eq_on) (auto simp: a)
  have e12: "mem_eq_on (- (node_region ir i \<union> {unat ?L + 4 + 76 * i + 68 ..< unat ?L + 4 + 76 * i + 72})) m m2"
    by (rule mem_eq_on_trans [OF mem_eq_on_mono [OF e1] mem_eq_on_mono [OF m2(3)]])
      (use f(2) in \<open>auto simp: region_defs a\<close>)
  have "mem_eq_on (- node_region ir i) m2 m3"
    by (rule mem_eq_on_mono [OF e3]) (auto simp: region_defs a)
  then have e13: "mem_eq_on (- (node_region ir i \<union> {unat ?L + 4 + 76 * i + 68 ..< unat ?L + 4 + 76 * i + 72})) m m3"
    using e12 by (blast intro: mem_eq_on_trans mem_eq_on_mono)
  have get: "rd32 m3 (?n + of_nat k) = v" if "map_of (rev ?fields) k = Some v"
      "\<forall>(k', w) \<in> set ?fields. k' + 4 \<le> 184 \<and> (k' = k \<or> k' + 4 \<le> k \<or> k + 4 \<le> k')" for k v
    unfolding m3_def using that t by (intro set_fields_get [where n = 184]) (auto simp: a)
  have fields: "node_flags m3 ?n = FS_FILE" "node_inode m3 ?n = of_nat i" "node_read m3 ?n = sym_read sy"
      "node_length m3 ?n = fh_length m2 ?h"
    using get [of 140] get [of 144] get [of 156] get [of 148] by (simp_all add: node_defs)
  have len: "fh_length m3 ?h = fh_length m ?h" "fh_length m2 ?h = fh_length m ?h"
    unfolding fh_length_def using t lay
    by (auto intro!: mem_eq_on_rd32 [OF e13] mem_eq_on_rd32 [OF e12] simp: h layout_ok_def region_defs apart_regions_def)
  have "fh_offset m3 ?h = fh_offset m1 ?h"
    unfolding fh_offset_def using t lay f(2)
    by (intro trans [OF mem_eq_on_rd32 [OF e3] mem_eq_on_rd32 [OF m2(3)]])
      (auto simp: h a layout_ok_def apart_regions_def)
  then have off: "fh_offset m3 ?h = ?L + fh_offset m ?h" by (simp add: m1_def fh_offset_def)
  have uoff: "unat (?L + fh_offset m ?h) = unat ?L + unat (fh_offset m ?h)"
    using f t by (intro unat_plus_no_wrap) simp
  have "bytes m3 (?L + fh_offset m ?h) (length (snd f)) = bytes m (?L + fh_offset m ?h) (length (snd f))"
    using f(4,5) t dis by (intro bytes_eq_on [OF e13]) (auto simp: uoff region_defs)
  then have data: "bytes m3 (?L + fh_offset m ?h) (length (snd f)) = snd f"
    using img by (simp add: file_in_image_def)
  have ue: "unat (?n + of_nat (length ?nm)) = unat (root_nodes ir) + 184 * i + length ?nm"
    using f(2) by (intro nf) simp
  then have "m2 (?n + of_nat (length ?nm)) = 0"
    using mem_eq_onD [OF m2(3), of "?n + of_nat (length ?nm)"] mem_eq_onD [OF e1, of "?n + of_nat (length ?nm)"]
      zero f(2) lay t by (auto simp: a region_defs layout_ok_def apart_regions_def)
  moreover have "m3 (?n + of_nat (length ?nm)) = m2 (?n + of_nat (length ?nm))" "bytes m3 ?n (length ?nm) = bytes m2 ?n (length ?nm)"
    using f(2) t by (auto intro!: mem_eq_onD [OF e3] bytes_eq_on [OF e3] simp: ue a)
  ultimately have "c_string m3 ?n ?nm" using m2(2) f(3) by (simp add: c_string_iff)
  then have "file_mounted sy ir isize m3 i f"
    using img fields len off data uoff f by (simp add: file_mounted_def Let_def a(2) node_name_def file_in_image_def)
  moreover have "mem_eq_on (- (node_region ir i \<union> header_region ir i)) m m3"
    by (rule mem_eq_on_mono [OF e13]) (auto simp: region_defs)
  ultimately show ?thesis using run by blast
qed

text \<open>What the loop writes: the nodes, and the headers of the image.\<close>

definition loop_region :: "initrd_t \<Rightarrow> nat \<Rightarrow> nat set" where
  "loop_region ir n = {unat (root_nodes ir) ..< unat (root_nodes ir) + 184 * n}
     \<union> {unat (initrd_header ir) + 4 ..< unat (initrd_header ir) + 4868}"

lemma in_loop_region:
  assumes "layout_ok ir isize n" "i < n"
  shows "node_region ir i \<union> header_region ir i \<subseteq> loop_region ir n"
proof -
  have "184 * i + 184 \<le> 184 * n" "76 * i + 76 \<le> 76 * 64" using assms by (auto simp: layout_ok_def)
  then show ?thesis by (auto simp: region_defs loop_region_def)
qed

lemma init_nodes_mounts:
  assumes lay: "layout_ok ir isize n" and n: "length files = n"
  shows "i \<le> n \<Longrightarrow> nfiles m (initrd_header ir) = of_nat n
    \<Longrightarrow> \<forall>j < i. file_mounted sy ir isize m j (files ! j)
    \<Longrightarrow> \<forall>j. i \<le> j \<and> j < n \<longrightarrow> file_in_image m (initrd_header ir) isize j (files ! j)
        \<and> (\<forall>a. unat a \<in> node_region ir j \<longrightarrow> m a = 0)
    \<Longrightarrow> \<exists>m'. init_nodes sy (initrd_header ir) ir (of_nat i) m = Some m'
        \<and> (\<forall>j < n. file_mounted sy ir isize m' j (files ! j)) \<and> mem_eq_on (- loop_region ir n) m m'"
proof (induction "n - i" arbitrary: i m)
  case 0
  then have "i = n" by simp
  then show ?case using 0 by (simp add: init_nodes.simps [of sy _ ir _ m])
next
  case (Suc k)
  let ?L = "initrd_header ir"
  have i: "i < n" using Suc.hyps(2) by simp
  have n64: "n \<le> 64" using lay by (simp add: layout_ok_def)
  then have "(of_nat i :: uint32) < of_nat n"
    using i by (simp add: word_less_nat_alt unat_of_nat32)
  then have step: "init_nodes sy ?L ir (of_nat i) m =
      Option.bind (init_node sy ?L ir (of_nat i) m) (init_nodes sy ?L ir (of_nat (Suc i)))"
    using Suc.prems(2) by (simp add: init_nodes.simps [of sy _ ir _ m] add.commute)
  from init_node_mounts [OF lay i, of m "files ! i" sy] Suc.prems(4) i obtain m1 where
    m1: "init_node sy ?L ir (of_nat i) m = Some m1" "file_mounted sy ir isize m1 i (files ! i)"
    "mem_eq_on (- (node_region ir i \<union> header_region ir i)) m m1" by blast
  note sub = in_loop_region [OF lay i]
  have eq1: "mem_eq_on (- loop_region ir n) m m1"
    by (rule mem_eq_on_mono [OF m1(3)]) (use sub in blast)
  have "{unat ?L ..< unat ?L + 4} \<subseteq> - (node_region ir i \<union> header_region ir i)"
    using lay i by (auto simp: layout_ok_def apart_regions_def region_defs)
  then have nf: "nfiles m1 ?L = of_nat n"
    using Suc.prems(2) lay mem_eq_on_rd32 [OF m1(3), of ?L] by (simp add: nfiles_def layout_ok_def)
  have old: "file_mounted sy ir isize m1 j (files ! j)" if "j < Suc i" for j
  proof (cases "j = i")
    case False
    then have j: "j < i" "j < n" using that i by simp_all
    note d = node_apart [OF lay i j(2)] node_apart [OF lay j(2) i]
    show ?thesis
    proof (rule file_mounted_eq_on [OF lay j(2) m1(3) _ Suc.prems(3) [rule_format, OF j(1)]])
      have "i \<noteq> j" using j by simp
      then show "header_region ir j \<union> data_region ir isize \<union> node_region ir j
          \<subseteq> - (node_region ir i \<union> header_region ir i)"
        using d(1,4,10) d(2,3) by blast
    qed
  qed (simp add: m1(2))
  have new: "file_in_image m1 ?L isize j (files ! j) \<and> (\<forall>a. unat a \<in> node_region ir j \<longrightarrow> m1 a = 0)"
    if j: "Suc i \<le> j" "j < n" for j
  proof -
    note d = node_apart [OF lay i j(2)] node_apart [OF lay j(2) i]
    have old: "file_in_image m ?L isize j (files ! j)" "\<forall>a. unat a \<in> node_region ir j \<longrightarrow> m a = 0"
      using Suc.prems(4) [THEN spec, of j] j by simp_all
    have "file_in_image m1 ?L isize j (files ! j)"
    proof (rule file_in_image_eq_on [OF lay j(2) m1(3) _ old(1)])
      have "i \<noteq> j" using j by simp
      then show "header_region ir j \<union> data_region ir isize \<subseteq> - (node_region ir i \<union> header_region ir i)"
        using d(1,4) d(3) by blast
    qed
    moreover have "m1 a = 0" if "unat a \<in> node_region ir j" for a
    proof -
      have "i \<noteq> j" using j by simp
      then have "unat a \<in> - (node_region ir i \<union> header_region ir i)" using d(2,10) that by blast
      then show ?thesis using mem_eq_onD [OF m1(3)] old(2) that by simp
    qed
    ultimately show ?thesis by blast
  qed
  have k: "k = n - Suc i" "Suc i \<le> n" using Suc.hyps(2) i by simp_all
  have "\<forall>j. Suc i \<le> j \<and> j < n \<longrightarrow> file_in_image m1 ?L isize j (files ! j)
      \<and> (\<forall>a. unat a \<in> node_region ir j \<longrightarrow> m1 a = 0)"
    using new by blast
  from Suc.hyps(1) [OF k nf _ this] old obtain m2 where
    m2: "init_nodes sy ?L ir (of_nat (Suc i)) m1 = Some m2"
    "\<forall>j < n. file_mounted sy ir isize m2 j (files ! j)" "mem_eq_on (- loop_region ir n) m1 m2"
    by blast
  then show ?case using step m1(1) mem_eq_on_trans [OF eq1] by auto
qed

section \<open>Reading and finding\<close>

lemma initrd_read_file:
  assumes lay: "layout_ok ir isize n" "i < n" "file_mounted sy ir isize m i f"
    and node: "node = root_node_at ir (of_nat i)"
    and req: "unat offset + unat sz < 4294967296"
    and buf: "unat buffer + unat sz \<le> 4294967296" "apart_regions buffer (unat sz) (initrd_header ir) isize"
  shows "\<exists>k m'. initrd_read ir node offset sz buffer m = Inr (k, m')
    \<and> bytes m' buffer (unat k) = take (unat sz) (drop (unat offset) (snd f))
    \<and> unat k = length (take (unat sz) (drop (unat offset) (snd f)))
    \<and> mem_eq_on (- {unat buffer ..< unat buffer + unat sz}) m m'"
proof -
  let ?h = "file_header_at ir (of_nat i)" and ?d = "snd f"
  let ?len = "fh_length m ?h" and ?off = "fh_offset m ?h"
  have fm: "node_inode m node = of_nat i" "?len = of_nat (length ?d)"
      "unat (initrd_header ir) + 4868 \<le> unat ?off" "unat ?off + length ?d \<le> unat (initrd_header ir) + isize"
      "bytes m ?off (length ?d) = ?d"
    using lay(3) by (simp_all add: file_mounted_def Let_def node)
  have L: "unat (initrd_header ir) + isize < 4294967296" using lay(1) by (simp add: layout_ok_def)
  have ulen: "unat ?len = length ?d" using fm(2,4) L by (simp add: unat_of_nat)
  have rd: "initrd_read ir node offset sz buffer m =
      (if offset > ?len then Inr (0, m)
       else let sz' = (if offset + sz > ?len then ?len - offset else sz)
            in Inr (sz', memcpy m buffer (?off + offset) sz'))"
    by (simp add: initrd_read_def fm(1) Let_def)
  show ?thesis
  proof (cases "offset > ?len")
    case True
    then have "length ?d < unat offset" using ulen by (simp add: word_less_nat_alt)
    then show ?thesis using rd True by (intro exI [of _ 0] exI [of _ m]) simp
  next
    case False
    define k where "k = (if offset + sz > ?len then ?len - offset else sz)"
    have off: "unat offset \<le> length ?d" using False ulen by (simp add: word_less_nat_alt not_less)
    have "unat (offset + sz) = unat offset + unat sz" using req by (intro unat_plus_no_wrap) simp
    moreover have "unat (?len - offset) = length ?d - unat offset" using off ulen by (simp add: unat_minus_le)
    ultimately have uk: "unat k = min (unat sz) (length ?d - unat offset)"
      unfolding k_def using ulen off by (auto simp: word_less_nat_alt)
    have src: "unat (?off + offset) = unat ?off + unat offset"
      using fm(4) off L by (intro unat_plus_no_wrap) simp
    have c: "unat buffer + unat k \<le> 4294967296" "unat (?off + offset) + unat k \<le> 4294967296"
      "apart_regions buffer (unat k) (?off + offset) (unat k)"
      using buf fm(3,4) off L uk by (auto simp: src apart_regions_def)
    have "bytes m (?off + offset) (unat k) = take (unat sz) (drop (unat offset) ?d)"
    proof (rule nth_equalityI)
      fix j assume "j < length (bytes m (?off + offset) (unat k))"
      then have j: "j < unat k" by simp
      then have "j < length ?d - unat offset" using uk by simp
      with j have j: "j < unat k" "unat offset + j < length ?d" by linarith+
      have "?d ! (unat offset + j) = m (?off + of_nat (unat offset + j))"
        using fm(5) j(2) by (metis nth_bytes)
      then show "bytes m (?off + offset) (unat k) ! j = take (unat sz) (drop (unat offset) ?d) ! j"
        using j uk off by (simp add: add.assoc)
    qed (simp add: uk)
    then have "bytes (memcpy m buffer (?off + offset) k) buffer (unat k) = take (unat sz) (drop (unat offset) ?d)"
      using memcpy_bytes [OF c] by simp
    moreover have "mem_eq_on (- {unat buffer ..< unat buffer + unat sz}) m (memcpy m buffer (?off + offset) k)"
      by (rule mem_eq_on_mono [OF memcpy_outside [OF c]]) (use uk in auto)
    ultimately show ?thesis
      using rd False uk by (intro exI [of _ k] exI [of _ "memcpy m buffer (?off + offset) k"])
        (simp add: k_def [symmetric] min.commute)
  qed
qed

text \<open>The first file of a name; directories are searched in front of the files.\<close>

fun find_file :: "named_file list \<Rightarrow> uint8 list \<Rightarrow> nat \<Rightarrow> nat option" where
  "find_file [] nm i = None"
| "find_file (f # fs) nm i = (if fst f = nm then Some i else find_file fs nm (Suc i))"

definition dev_name :: "uint8 list" where "dev_name = [100, 101, 118]"

definition mounted :: "initrd_symbols \<Rightarrow> initrd_t \<Rightarrow> nat \<Rightarrow> memory \<Rightarrow> named_file list \<Rightarrow> bool" where
  "mounted sy ir isize m files \<longleftrightarrow>
     layout_ok ir isize (length files) \<and> nroot_nodes ir = of_nat (length files)
     \<and> initrd_root ir \<noteq> 0 \<and> initrd_dev ir \<noteq> 0 \<and> root_nodes ir \<noteq> 0
     \<and> unat (initrd_root ir) + 184 < 4294967296 \<and> unat (initrd_dev ir) + 184 < 4294967296
     \<and> unat (lit_dev sy) + 4 < 4294967296
     \<and> (\<forall>i < length files. file_mounted sy ir isize m i (files ! i))
     \<and> dir_mounted sy m (initrd_root ir) [74] \<and> dir_mounted sy m (initrd_dev ir) dev_name
     \<and> c_string m (lit_dev sy) dev_name \<and> sym_read sy \<noteq> 0 \<and> sym_readdir sy \<noteq> 0 \<and> sym_finddir sy \<noteq> 0"

definition find_result :: "initrd_t \<Rightarrow> nat option \<Rightarrow> uint32" where
  "find_result ir r = (case r of None \<Rightarrow> 0 | Some i \<Rightarrow> root_node_at ir (of_nat i))"

lemma find_file_nth: "find_file files nm i = Some j \<Longrightarrow> i \<le> j \<and> j - i < length files \<and> fst (files ! (j - i)) = nm"
proof (induction files arbitrary: i)
  case (Cons f fs)
  then show ?case
    by (cases "fst f = nm") (auto simp: nth_Cons' Suc_diff_le dest!: Cons.IH)
qed simp

lemma finddir_loop_find:
  assumes "c_string m nm name"
  shows "\<forall>j < length fs. file_mounted sy ir isize m (i + j) (fs ! j)
    \<Longrightarrow> finddir_loop ir (length fs) (of_nat i) nm m = Inr (find_result ir (find_file fs name i))"
proof (induction fs arbitrary: i)
  case Nil
  then show ?case by (simp add: find_result_def)
next
  case (Cons f fs)
  have "file_mounted sy ir isize m i f" using Cons.prems by force
  then have "c_string m (node_name (root_node_at ir (of_nat i))) (fst f)"
    by (simp add: file_mounted_def Let_def)
  note cmp = strcmp_string [OF assms this]
  have "\<forall>j < length fs. file_mounted sy ir isize m (Suc i + j) (fs ! j)"
  proof (intro allI impI)
    fix j assume "j < length fs"
    then show "file_mounted sy ir isize m (Suc i + j) (fs ! j)"
      using Cons.prems [THEN spec, of "Suc j"] by simp
  qed
  from Cons.IH [OF this] show ?case
    by (simp add: cmp find_result_def add.commute)
qed

lemma initrd_finddir_find:
  assumes m: "mounted sy ir isize m files" and nm: "c_string m nm name"
  shows "finddir_fs (call_finddir sy ir) (initrd_root ir) nm m =
    Inr (if name = dev_name then initrd_dev ir else find_result ir (find_file files name 0))"
proof -
  have lay: "layout_ok ir isize (length files)" and nr: "nroot_nodes ir = of_nat (length files)"
    and files: "\<forall>i < length files. file_mounted sy ir isize m i (files ! i)"
    and root: "dir_mounted sy m (initrd_root ir) [74]" and dev: "c_string m (lit_dev sy) dev_name"
    and fd: "sym_finddir sy \<noteq> 0"
    using m by (simp_all add: mounted_def)
  have n: "length files \<le> 64" using lay by (simp add: layout_ok_def)
  then have "sint (nroot_nodes ir) = int (length files)" by (simp add: nr sint_of_nat32)
  then have k: "nat (sint (nroot_nodes ir)) = length files" by simp
  have "finddir_fs (call_finddir sy ir) (initrd_root ir) nm m = initrd_finddir sy ir (initrd_root ir) nm m"
    using root fd by (simp add: finddir_fs_def dir_mounted_def call_finddir_def FS_DIRECTORY_def)
  moreover have "finddir_loop ir (length files) 0 nm m = Inr (find_result ir (find_file files name 0))"
    using finddir_loop_find [OF nm, of files sy ir isize 0] files by simp
  ultimately show ?thesis
    by (simp add: initrd_finddir_def strcmp_string [OF nm dev] k)
qed

end
