(* ===== verification/InitrdInit.thy ===== *)
theory InitrdInit
  imports InitrdMount
begin

text \<open>
  initialise_initrd, as a client of an allocator that hands out zeroed memory: the contract
  of the allocator is the locale \<open>fresh_allocator\<close>, which the kernel heap satisfies.
\<close>

section \<open>The allocator's contract\<close>

text \<open>
  \<open>avail s P n\<close>: the allocator owns the addresses in \<open>P\<close> (free memory and bookkeeping) and
  can serve requests that add up to \<open>n\<close> bytes, with 20 bytes for each of them.
\<close>

locale fresh_allocator =
  fixes km :: "size_t \<Rightarrow> kstate \<Rightarrow> kerror + uint32 \<times> kstate"
    and avail :: "kstate \<Rightarrow> nat set \<Rightarrow> nat \<Rightarrow> bool"
  assumes gives: "avail s P (unat sz + 20 + n) \<Longrightarrow>
      \<exists>p s' P'. km sz s = Inr (p, s') \<and> avail s' P' n \<and> p \<noteq> 0 \<and> unat p + unat sz < 4294967296
        \<and> {unat p ..< unat p + unat sz} \<subseteq> P \<and> P' \<subseteq> P - {unat p ..< unat p + unat sz}
        \<and> (\<forall>a. unat a \<in> {unat p ..< unat p + unat sz} \<longrightarrow> mem s' a = 0)
        \<and> mem_eq_on (- P) (mem s) (mem s')"
    and own: "avail s P n \<Longrightarrow> mem_eq_on P (mem s) m \<Longrightarrow> avail (s\<lparr>mem := m\<rparr>) P n"

section \<open>Directory nodes\<close>

lemma dir_mounted_eq_on:
  assumes "dir_mounted sy m p nm" "mem_eq_on S m m'" "{unat p ..< unat p + 184} \<subseteq> S"
    "unat p + 184 < 4294967296" "length nm < 128"
  shows "dir_mounted sy m' p nm"
proof -
  have "c_string m' p nm \<longleftrightarrow> c_string m p nm"
    using assms by (intro c_string_eq_on [OF assms(2)]) auto
  moreover have "rd32 m' (p + of_nat k) = rd32 m (p + of_nat k)" if "k \<le> 180" for k
  proof -
    have "unat (p + of_nat k) = unat p + k" using assms that by (intro unat_plus_of_nat) simp
    then show ?thesis using assms that by (intro mem_eq_on_rd32 [OF assms(2)]) auto
  qed
  from this [of 140] this [of 172] this [of 176] this [of 156] have
    "node_flags m' p = node_flags m p" "node_readdir m' p = node_readdir m p"
    "node_finddir m' p = node_finddir m p" "node_read m' p = node_read m p"
    by (simp_all add: node_defs)
  ultimately show ?thesis using assms(1) by (simp add: dir_mounted_def node_name_def)
qed

lemma make_dir:
  assumes zero: "\<forall>a. unat a \<in> {unat p ..< unat p + 184} \<longrightarrow> m a = 0" and p: "unat p + 184 < 4294967296"
    and lit: "c_string m lit nm" "nm \<noteq> []" "length nm < 128" "unat lit + length nm < 4294967296"
      "apart_regions p 184 lit (length nm + 1)"
  shows "\<exists>m1. strcpy m p lit = Some m1 \<and> dir_mounted sy (set_dir_node sy p m1) p nm
    \<and> mem_eq_on (- {unat p ..< unat p + 184}) m (set_dir_node sy p m1)"
proof -
  have "\<exists>m1. strcpy m p lit = Some m1 \<and> bytes m1 p (length nm) = nm
      \<and> mem_eq_on (- {unat p ..< unat p + length nm}) m m1"
    using assms by (intro strcpy_string) (auto simp: apart_regions_def)
  then obtain m1 where m1: "strcpy m p lit = Some m1" "bytes m1 p (length nm) = nm"
    "mem_eq_on (- {unat p ..< unat p + length nm}) m m1" by blast
  define m2 where "m2 = set_dir_node sy p m1"
  have e2: "mem_eq_on (- {unat p + 128 ..< unat p + 184}) m1 m2"
    unfolding m2_def set_dir_node_def using p by (intro set_fields_eq_on) auto
  have ue: "unat (p + of_nat (length nm)) = unat p + length nm"
    using lit(3) p by (intro unat_plus_of_nat) simp
  have "m2 (p + of_nat (length nm)) = m1 (p + of_nat (length nm))" "m1 (p + of_nat (length nm)) = m (p + of_nat (length nm))"
    using lit(3) by (auto intro!: mem_eq_onD [OF e2] mem_eq_onD [OF m1(3)] simp: ue)
  then have "m2 (p + of_nat (length nm)) = 0" using zero lit(3) by (simp add: ue)
  moreover have "bytes m2 p (length nm) = bytes m1 p (length nm)"
    using lit(3) p by (intro bytes_eq_on [OF e2]) auto
  ultimately have "c_string m2 p nm" using m1(2) lit(1) by (simp add: c_string_iff)
  let ?fields = "[(148, 0), (144, 0), (136, 0), (132, 0), (128, 0), (140, FS_DIRECTORY), (156, 0), (160, 0),
      (164, 0), (168, 0), (172, sym_readdir sy), (176, sym_finddir sy), (180, 0), (152, 0)] :: (nat \<times> uint32) list"
  have get: "rd32 m2 (p + of_nat k) = v" if "map_of (rev ?fields) k = Some v"
      "\<forall>(k', w) \<in> set ?fields. k' + 4 \<le> 184 \<and> (k' = k \<or> k' + 4 \<le> k \<or> k + 4 \<le> k')" for k v
    unfolding m2_def set_dir_node_def using that p by (intro set_fields_get [where n = 184]) auto
  have "node_flags m2 p = FS_DIRECTORY" "node_readdir m2 p = sym_readdir sy"
      "node_finddir m2 p = sym_finddir sy" "node_read m2 p = 0"
    using get [of 140] get [of 172] get [of 176] get [of 156] by (simp_all add: node_defs)
  moreover have "mem_eq_on (- {unat p ..< unat p + 184}) m m2"
    by (rule mem_eq_on_trans [OF mem_eq_on_mono [OF m1(3)] mem_eq_on_mono [OF e2]]) (use lit(3) in auto)
  ultimately show ?thesis using m1(1) \<open>c_string m2 p nm\<close> by (auto simp: dir_mounted_def node_name_def m2_def)
qed

section \<open>initialise_initrd\<close>

text \<open>What the linker provides: the literals in memory, functions at addresses that are not null.\<close>

definition linked :: "initrd_symbols \<Rightarrow> memory \<Rightarrow> bool" where
  "linked sy m \<longleftrightarrow> c_string m (lit_J sy) [74] \<and> c_string m (lit_dev sy) dev_name
     \<and> unat (lit_J sy) + 2 < 4294967296 \<and> unat (lit_dev sy) + 4 < 4294967296
     \<and> sym_read sy \<noteq> 0 \<and> sym_readdir sy \<noteq> 0 \<and> sym_finddir sy \<noteq> 0"

definition literal_region :: "initrd_symbols \<Rightarrow> nat set" where
  "literal_region sy = {unat (lit_J sy) ..< unat (lit_J sy) + 2} \<union> {unat (lit_dev sy) ..< unat (lit_dev sy) + 4}"

definition image_region :: "uint32 \<Rightarrow> nat \<Rightarrow> nat set" where
  "image_region loc isize = {unat loc ..< unat loc + isize}"

lemma linked_eq_on:
  assumes "linked sy m" "mem_eq_on S m m'" "literal_region sy \<subseteq> S"
  shows "linked sy m'"
proof -
  have l: "unat (lit_J sy) + 2 < 4294967296" "unat (lit_dev sy) + 4 < 4294967296"
    using assms(1) by (simp_all add: linked_def)
  have "{unat (lit_J sy) ..< unat (lit_J sy) + length [74 :: uint8] + 1} \<subseteq> S"
    "{unat (lit_dev sy) ..< unat (lit_dev sy) + length dev_name + 1} \<subseteq> S"
    using assms(3) by (auto simp: literal_region_def dev_name_def)
  from c_string_eq_on [OF assms(2) this(1)] c_string_eq_on [OF assms(2) this(2)] l
  have "c_string m' (lit_J sy) [74] \<longleftrightarrow> c_string m (lit_J sy) [74]"
    "c_string m' (lit_dev sy) dev_name \<longleftrightarrow> c_string m (lit_dev sy) dev_name"
    by (simp_all add: dev_name_def del: c_string.simps)
  then show ?thesis using assms(1) by (simp add: linked_def del: c_string.simps)
qed

lemma disjoint_intervals_apart:
  assumes "{a ..< a + n} \<inter> {b ..< b + k} = {}" "0 < n" "0 < (k::nat)"
  shows "a + n \<le> b \<or> b + k \<le> a"
proof (rule ccontr)
  assume "\<not> ?thesis"
  then have "max a b \<in> {a ..< a + n} \<inter> {b ..< b + k}" using assms(2,3) by auto
  then show False using assms(1) by blast
qed

context fresh_allocator
begin

lemma make_dir_fresh:
  assumes av: "avail s P (184 + 20 + n)"
    and lit: "c_string (mem s) lit nm" "nm \<noteq> []" "length nm < 128" "unat lit + length nm < 4294967296"
    and dis: "{unat lit ..< unat lit + (length nm + 1)} \<inter> P = {}"
  shows "\<exists>p s1 m1 P'. km 184 s = Inr (p, s1) \<and> strcpy (mem s1) p lit = Some m1
    \<and> avail (s1\<lparr>mem := set_dir_node sy p m1\<rparr>) P' n \<and> P' \<subseteq> P - {unat p ..< unat p + 184}
    \<and> {unat p ..< unat p + 184} \<subseteq> P \<and> p \<noteq> 0 \<and> unat p + 184 < 4294967296
    \<and> dir_mounted sy (set_dir_node sy p m1) p nm \<and> mem_eq_on (- P) (mem s) (set_dir_node sy p m1)"
proof -
  have "avail s P (unat (184 :: size_t) + 20 + n)" using av by simp
  from gives [OF this] obtain p s1 P' where g: "km 184 s = Inr (p, s1)" "avail s1 P' n" "p \<noteq> 0"
    "unat p + 184 < 4294967296" "{unat p ..< unat p + 184} \<subseteq> P" "P' \<subseteq> P - {unat p ..< unat p + 184}"
    "\<forall>a. unat a \<in> {unat p ..< unat p + 184} \<longrightarrow> mem s1 a = 0" "mem_eq_on (- P) (mem s) (mem s1)"
    by auto
  have "c_string (mem s1) lit nm \<longleftrightarrow> c_string (mem s) lit nm"
    using dis lit(4) by (intro c_string_eq_on [OF g(8)]) auto
  then have cs: "c_string (mem s1) lit nm" using lit(1) by simp
  have "{unat p ..< unat p + 184} \<inter> {unat lit ..< unat lit + (length nm + 1)} = {}" using g(5) dis by blast
  then have "apart_regions p 184 lit (length nm + 1)"
    unfolding apart_regions_def by (rule disjoint_intervals_apart) simp_all
  from make_dir [OF g(7,4) cs lit(2,3,4) this] obtain m1 where
    m1: "strcpy (mem s1) p lit = Some m1" "dir_mounted sy (set_dir_node sy p m1) p nm"
    "mem_eq_on (- {unat p ..< unat p + 184}) (mem s1) (set_dir_node sy p m1)" by blast
  have "mem_eq_on (- P) (mem s1) (set_dir_node sy p m1)"
    by (rule mem_eq_on_mono [OF m1(3)]) (use g(5) in blast)
  with g(8) have "mem_eq_on (- P) (mem s) (set_dir_node sy p m1)" by (rule mem_eq_on_trans)
  moreover have "mem_eq_on P' (mem s1) (set_dir_node sy p m1)"
    by (rule mem_eq_on_mono [OF m1(3)]) (use g(6) in blast)
  then have "avail (s1\<lparr>mem := set_dir_node sy p m1\<rparr>) P' n" by (rule own [OF g(2)])
  ultimately show ?thesis using g m1 by blast
qed

lemma two_dirs_fresh:
  assumes av: "avail s P (184 + 20 + (184 + 20 + n))" and lnk: "linked sy (mem s)"
    and dis: "P \<inter> literal_region sy = {}"
  shows "\<exists>root s1 m1 dev s2 m2 P2. km 184 s = Inr (root, s1) \<and> strcpy (mem s1) root (lit_J sy) = Some m1
    \<and> km 184 (s1\<lparr>mem := set_dir_node sy root m1\<rparr>) = Inr (dev, s2) \<and> strcpy (mem s2) dev (lit_dev sy) = Some m2
    \<and> avail (s2\<lparr>mem := set_dir_node sy dev m2\<rparr>) P2 n \<and> root \<noteq> 0 \<and> dev \<noteq> 0
    \<and> P2 \<subseteq> P \<and> {unat root ..< unat root + 184} \<subseteq> P - P2 \<and> {unat dev ..< unat dev + 184} \<subseteq> P - P2
    \<and> unat root + 184 < 4294967296 \<and> unat dev + 184 < 4294967296
    \<and> dir_mounted sy (set_dir_node sy dev m2) root [74] \<and> dir_mounted sy (set_dir_node sy dev m2) dev dev_name
    \<and> mem_eq_on (- P) (mem s) (set_dir_node sy dev m2)"
proof -
  have lits: "c_string (mem s) (lit_J sy) [74]" "unat (lit_J sy) + 2 < 4294967296" "unat (lit_dev sy) + 4 < 4294967296"
    using lnk by (simp_all add: linked_def)
  have "{unat (lit_J sy) ..< unat (lit_J sy) + (length [74 :: uint8] + 1)} \<inter> P = {}"
    using dis by (auto simp: literal_region_def)
  from make_dir_fresh [OF av lits(1) _ _ _ this, of sy] lits(2) obtain root s1 m1 P1 where
    r: "km 184 s = Inr (root, s1)" "strcpy (mem s1) root (lit_J sy) = Some m1"
      "avail (s1\<lparr>mem := set_dir_node sy root m1\<rparr>) P1 (184 + 20 + n)"
      "P1 \<subseteq> P - {unat root ..< unat root + 184}" "{unat root ..< unat root + 184} \<subseteq> P" "root \<noteq> 0"
      "unat root + 184 < 4294967296" "dir_mounted sy (set_dir_node sy root m1) root [74]"
      "mem_eq_on (- P) (mem s) (set_dir_node sy root m1)"
    by auto
  define sA where "sA = s1\<lparr>mem := set_dir_node sy root m1\<rparr>"
  have "linked sy (mem sA)"
    using linked_eq_on [OF lnk r(9)] dis by (auto simp: sA_def)
  then have litA: "c_string (mem sA) (lit_dev sy) dev_name" by (simp add: linked_def)
  have "{unat (lit_dev sy) ..< unat (lit_dev sy) + (length dev_name + 1)} \<inter> P1 = {}"
    using dis r(4) by (auto simp: literal_region_def dev_name_def)
  from make_dir_fresh [OF r(3) [folded sA_def] litA _ _ _ this, of sy] lits(3) obtain dev s2 m2 P2 where
    d: "km 184 sA = Inr (dev, s2)" "strcpy (mem s2) dev (lit_dev sy) = Some m2"
      "avail (s2\<lparr>mem := set_dir_node sy dev m2\<rparr>) P2 n"
      "P2 \<subseteq> P1 - {unat dev ..< unat dev + 184}" "{unat dev ..< unat dev + 184} \<subseteq> P1" "dev \<noteq> 0"
      "unat dev + 184 < 4294967296" "dir_mounted sy (set_dir_node sy dev m2) dev dev_name"
      "mem_eq_on (- P1) (mem sA) (set_dir_node sy dev m2)"
    by (auto simp: dev_name_def)
  have "dir_mounted sy (set_dir_node sy dev m2) root [74]"
    using r(4,7,8) by (intro dir_mounted_eq_on [OF _ d(9)]) (auto simp: sA_def)
  moreover have "mem_eq_on (- P) (mem s) (set_dir_node sy dev m2)"
    by (rule mem_eq_on_trans [OF _ mem_eq_on_mono [OF d(9)]]) (use r(4,9) in \<open>auto simp: sA_def\<close>)
  moreover have "P2 \<subseteq> P" "{unat root ..< unat root + 184} \<subseteq> P - P2" "{unat dev ..< unat dev + 184} \<subseteq> P - P2"
    using r(4,5) d(4,5) by blast+
  ultimately show ?thesis
    using r(1,2,6,7) d(1-3,6-8) unfolding sA_def by blast
qed

lemma initialise_mounts:
  assumes av: "avail s P (184 + 20 + (184 + 20 + (184 * length files + 20 + r)))"
    and img: "image_at (mem s) loc isize files" and lnk: "linked sy (mem s)"
    and dis: "P \<inter> (image_region loc isize \<union> literal_region sy) = {}"
      "literal_region sy \<inter> image_region loc isize = {}"
  shows "\<exists>ir s'. initialise_initrd_with km sy loc s = Inr (initrd_root ir, ir, s')
    \<and> initrd_header ir = loc \<and> mounted sy ir isize (mem s') files
    \<and> {unat (root_nodes ir) ..< unat (root_nodes ir) + 184 * length files} \<subseteq> P
    \<and> {unat (initrd_root ir) ..< unat (initrd_root ir) + 184} \<subseteq> P
    \<and> {unat (initrd_dev ir) ..< unat (initrd_dev ir) + 184} \<subseteq> P
    \<and> mem_eq_on (- (P \<union> {unat loc + 4 ..< unat loc + 4868})) (mem s) (mem s')"
proof -
  let ?n = "length files"
  have b: "unat loc + isize < 4294967296" "4868 \<le> isize" "?n \<le> 64"
    using img by (simp_all add: image_at_def)
  have "P \<inter> literal_region sy = {}" using dis(1) by blast
  from two_dirs_fresh [OF av lnk this] obtain root s1 m1 dev s2 m2 P2 where
    d: "km 184 s = Inr (root, s1)" "strcpy (mem s1) root (lit_J sy) = Some m1"
      "km 184 (s1\<lparr>mem := set_dir_node sy root m1\<rparr>) = Inr (dev, s2)" "strcpy (mem s2) dev (lit_dev sy) = Some m2"
      "avail (s2\<lparr>mem := set_dir_node sy dev m2\<rparr>) P2 (184 * ?n + 20 + r)" "root \<noteq> 0" "dev \<noteq> 0"
      "P2 \<subseteq> P" "{unat root ..< unat root + 184} \<subseteq> P - P2" "{unat dev ..< unat dev + 184} \<subseteq> P - P2"
      "unat root + 184 < 4294967296" "unat dev + 184 < 4294967296"
      "dir_mounted sy (set_dir_node sy dev m2) root [74]" "dir_mounted sy (set_dir_node sy dev m2) dev dev_name"
      "mem_eq_on (- P) (mem s) (set_dir_node sy dev m2)"
    by blast
  define sB where "sB = s2\<lparr>mem := set_dir_node sy dev m2\<rparr>"
  have eqB: "mem_eq_on (- P) (mem s) (mem sB)" using d(15) by (simp add: sB_def)
  define n where "n = (184 * of_nat ?n :: uint32)"
  have un: "unat n = 184 * ?n" using b(3) unat_of_nat32 [of "184 * ?n"] by (simp add: n_def)
  have "avail sB P2 (unat n + 20 + r)" using d(5) by (simp add: sB_def un)
  from gives [OF this] obtain nodes s4 P3 where
    g: "km n sB = Inr (nodes, s4)" "nodes \<noteq> 0" "unat nodes + 184 * ?n < 4294967296"
      "{unat nodes ..< unat nodes + 184 * ?n} \<subseteq> P2"
      "\<forall>a. unat a \<in> {unat nodes ..< unat nodes + 184 * ?n} \<longrightarrow> mem s4 a = 0"
      "mem_eq_on (- P2) (mem sB) (mem s4)"
    unfolding un by blast
  have eq4: "mem_eq_on (- P) (mem s) (mem s4)"
    by (rule mem_eq_on_trans [OF eqB mem_eq_on_mono [OF g(6)]]) (use d(8) in auto)
  have imgP: "{unat loc ..< unat loc + isize} \<subseteq> - P" using dis(1) by (auto simp: image_region_def)
  have imgB: "nfiles (mem sB) loc = of_nat ?n" and img4: "image_at (mem s4) loc isize files"
    using image_at_eq_on [OF img eqB imgP] image_at_eq_on [OF img eq4 imgP] by (simp_all add: image_at_def)
  have lnk4: "linked sy (mem s4)" using linked_eq_on [OF lnk eq4] dis(1) by blast
  define ir where "ir = \<lparr>initrd_header = loc, file_headers = loc + 4, initrd_root = root, initrd_dev = dev,
    root_nodes = nodes, nroot_nodes = of_nat ?n\<rparr>"
  have "{unat nodes ..< unat nodes + 184 * ?n} \<inter> {unat loc ..< unat loc + isize} = {}"
    using g(4) d(8) imgP by blast
  then have "apart_regions nodes (184 * ?n) loc isize \<or> ?n = 0"
    unfolding apart_regions_def using disjoint_intervals_apart [of "unat nodes" "184 * ?n" "unat loc" isize] b(2)
    by (cases "?n = 0") simp_all
  then have lay: "layout_ok ir isize ?n" using b g(3) by (auto simp: layout_ok_def ir_def)
  have zero: "mem s4 a = 0" if "unat a \<in> node_region ir j" "j < ?n" for a j
  proof -
    have "184 * j + 184 \<le> 184 * ?n" using that(2) by simp
    then show ?thesis using that(1) g(5) by (auto simp: node_region_def ir_def)
  qed
  have img4': "nfiles (mem s4) loc = of_nat ?n" "\<forall>j < ?n. file_in_image (mem s4) loc isize j (files ! j)"
    using img4 by (simp_all add: image_at_def)
  have L: "initrd_header ir = loc" by (simp add: ir_def)
  from init_nodes_mounts [OF lay refl, where i = 0 and m = "mem s4" and sy = sy] img4' zero obtain m5 where
    m5: "init_nodes sy loc ir 0 (mem s4) = Some m5" "\<forall>j < ?n. file_mounted sy ir isize m5 j (files ! j)"
    "mem_eq_on (- loop_region ir ?n) (mem s4) m5" by (auto simp: L)
  have loop: "loop_region ir ?n \<subseteq> P2 \<union> {unat loc + 4 ..< unat loc + 4868}"
    using g(4) by (auto simp: loop_region_def ir_def)
  have eqB5: "mem_eq_on (- (P2 \<union> {unat loc + 4 ..< unat loc + 4868})) (mem sB) m5"
    by (rule mem_eq_on_trans [OF mem_eq_on_mono [OF g(6)] mem_eq_on_mono [OF m5(3)]]) (use loop in auto)
  have headers: "{unat loc + 4 ..< unat loc + 4868} \<subseteq> image_region loc isize"
    using b(2) by (auto simp: image_region_def)
  have keep: "R \<subseteq> - (P2 \<union> {unat loc + 4 ..< unat loc + 4868})" if "R \<subseteq> P - P2" for R
    using that headers dis(1) by blast
  have eq5: "mem_eq_on (- (P \<union> {unat loc + 4 ..< unat loc + 4868})) (mem s) m5"
    by (rule mem_eq_on_trans [OF mem_eq_on_mono [OF eqB] mem_eq_on_mono [OF eqB5]]) (use d(8) in auto)
  have "linked sy m5" using linked_eq_on [OF lnk eq5] dis headers by blast
  moreover have "dir_mounted sy m5 root [74]"
    using d(11,13) by (intro dir_mounted_eq_on [OF _ eqB5 keep]) (use d(9) in \<open>simp_all add: sB_def\<close>)
  moreover have "dir_mounted sy m5 dev dev_name"
    using d(12,14) by (intro dir_mounted_eq_on [OF _ eqB5 keep]) (use d(10) in \<open>simp_all add: sB_def dev_name_def\<close>)
  ultimately have "mounted sy ir isize m5 files"
    using lay m5(2) d(6,7,11,12) g(2) by (simp add: mounted_def linked_def ir_def)
  moreover have "initialise_initrd_with km sy loc s = Inr (initrd_root ir, ir, s4\<lparr>mem := m5\<rparr>)"
    using d(1-4) g(1) m5(1) imgB img4'(1)
    by (simp add: initialise_initrd_with_def sizeof_fs_node_t_def node_name_def Let_def sB_def n_def ir_def
        sizeof_initrd_header_t_def)
  moreover have "{unat (root_nodes ir) ..< unat (root_nodes ir) + 184 * ?n} \<subseteq> P"
    "{unat (initrd_root ir) ..< unat (initrd_root ir) + 184} \<subseteq> P"
    "{unat (initrd_dev ir) ..< unat (initrd_dev ir) + 184} \<subseteq> P"
    using g(4) d(8-10) unfolding ir_def initrd_t.simps by blast+
  ultimately show ?thesis
    using eq5 L by (intro exI [of _ ir] exI [of _ "s4\<lparr>mem := m5\<rparr>"]) simp
qed

end

end
