(* ===== verification/HeapFresh.thy ===== *)
theory HeapFresh
  imports HeapDemo InitrdInit
begin

text \<open>
  The kernel heap as a provider of zeroed memory: as long as nothing was freed, the heap is
  a row of blocks and one hole behind them, and kmalloc carves its blocks from that hole.
  The file system rests on this contract (the locale \<open>fresh_allocator\<close>).
\<close>

section \<open>The heap reads only its bookkeeping\<close>

text \<open>The data of the blocks: what the heap neither reads nor writes.\<close>

fun block_data :: "nat \<Rightarrow> seg list \<Rightarrow> nat set" where
  "block_data a [] = {}"
| "block_data a ((n, h) # ss) = (if h then {} else {a + 12 ..< a + n - 8}) \<union> block_data (a + n) ss"

lemma block_data_append: "block_data a (xs @ ys) = block_data a xs \<union> block_data (a + seg_size xs) ys"
  by (induction xs arbitrary: a) (auto simp: add.assoc)

lemma block_data_bounds: "strict_chain m a ss e \<Longrightarrow> block_data a ss \<subseteq> {a ..< e}"
proof (induction m a ss e rule: strict_chain.induct)
  case (2 m a n h ss e)
  then have "a + n \<le> e" using strict_chain_end by fastforce
  then show ?case using 2 by auto
qed simp

lemma strict_chain_bookkeeping:
  "strict_chain m a ss e \<Longrightarrow> mem_eq_on S m m' \<Longrightarrow> {a ..< e} - block_data a ss \<subseteq> S \<Longrightarrow> e \<le> 4294967296
    \<Longrightarrow> strict_chain m' a ss e"
proof (induction m a ss e rule: strict_chain.induct)
  case (2 m a n h ss e)
  have e: "e = a + n + seg_size ss" and n: "20 \<le> n" using "2.prems"(1) strict_chain_end by fastforce+
  have rest: "strict_chain m (a + n) ss e" using "2.prems"(1) by simp
  note bd = block_data_bounds [OF rest]
  have own: "x \<in> S" if "a \<le> x" "x < e" "\<not> (a + 12 \<le> x \<and> x < a + n - 8)" "x \<notin> block_data (a + n) ss" for x
    using subsetD [OF "2.prems"(3), of x] that by (auto split: if_splits)
  have "x \<notin> block_data (a + n) ss" if "x < a + n" for x using subsetD [OF bd, of x] that by auto
  then have S: "{a ..< a + 12} \<subseteq> S" "{a + n - 8 ..< a + n} \<subseteq> S" "{a + n ..< e} - block_data (a + n) ss \<subseteq> S"
    using own n e by auto
  show ?case
    using "2.prems" n e "2.IH" [OF rest "2.prems"(2) S(3)]
      header_at_eq_on [OF "2.prems"(2) S(1)] footer_at_eq_on [OF "2.prems"(2) S(2)] by simp
qed simp

section \<open>Blocks and one hole\<close>

definition heap_avail :: "kstate \<Rightarrow> nat set \<Rightarrow> nat \<Rightarrow> bool" where
  "heap_avail s P n \<longleftrightarrow> (\<exists>h blocks n0.
     heap_rep s h (blocks @ [(n0, True)]) \<and> (\<forall>b \<in> set blocks. \<not> snd b) \<and> n + 20 \<le> n0
     \<and> P = {unat (array (index h)) ..< unat (end_address h)} - block_data (unat (start_address h)) blocks
     \<and> (\<forall>a. unat a \<in> {unat (start_address h) + seg_size blocks + 12 ..< unat (end_address h) - 8} \<longrightarrow> mem s a = 0))"

lemma holes_at_blocks: "\<forall>b \<in> set blocks. \<not> snd b \<Longrightarrow> holes_at a blocks = []"
  by (induction blocks arbitrary: a) auto

lemma blocks_one_hole:
  assumes "blocks @ [(n0, True)] = xs @ (k, True) # ys" "\<forall>b \<in> set blocks. \<not> snd b"
  shows "xs = blocks \<and> k = n0 \<and> ys = []"
proof (cases ys rule: rev_cases)
  case (snoc zs z)
  with assms(1) have "blocks = xs @ (k, True) # zs" by simp
  then have "(k, True) \<in> set blocks" by simp
  then show ?thesis using assms(2) by fastforce
qed (use assms in auto)

text \<open>So the owners of the blocks may write to their data.\<close>

lemma blocks_own:
  assumes rep: "heap_rep s h (blocks @ [(n0, True)])" and eq: "mem_eq_on P (mem s) m"
    and P: "P = {unat (array (index h)) ..< unat (end_address h)} - block_data (unat (start_address h)) blocks"
  shows "heap_rep (s\<lparr>mem := m\<rparr>) h (blocks @ [(n0, True)])"
    and "{unat (start_address h) + seg_size blocks ..< unat (end_address h)} \<subseteq> P"
proof -
  let ?S = "unat (start_address h)" and ?E = "unat (end_address h)"
  have kh: "kheap s = Some h" and ok: "index_ok h" and ch: "chain (mem s) ?S (blocks @ [(n0, True)]) ?E"
    and items: "mset (oa_items (index h) (mem s)) = mset (map of_nat (holes_at ?S (blocks @ [(n0, True)])))"
    and ftr: "ftr_magic (mem s) (start_address h - 8) \<noteq> HEAP_MAGIC"
    using rep by (simp_all add: heap_rep_def)
  have i: "unat (array (index h)) + 12 \<le> ?S" using ok by (simp add: index_ok_def)
  have c: "strict_chain (mem s) ?S blocks (?S + seg_size blocks)" "header_at (mem s) (?S + seg_size blocks) n0 True"
    "20 \<le> n0" "?E = ?S + seg_size blocks + n0"
    using ch by (auto simp: chain_append)
  have E: "?E \<le> 4294967296" using unat_lt_2p32 [of "end_address h"] by (simp del: unat_lt_2p32)
  note bd = block_data_bounds [OF c(1)]
  have inP: "x \<in> P" if "unat (array (index h)) \<le> x" "x < ?S \<or> ?S + seg_size blocks \<le> x" "x < ?E" for x
    using that subsetD [OF bd, of x] by (auto simp: P)
  have "{?S ..< ?S + seg_size blocks} - block_data ?S blocks \<subseteq> P" using i c(4) by (auto simp: P)
  then have "strict_chain m ?S blocks (?S + seg_size blocks)"
    using c(4) E by (intro strict_chain_bookkeeping [OF c(1) eq]) auto
  moreover have "{?S + seg_size blocks ..< ?S + seg_size blocks + 12} \<subseteq> P"
    using i c(3,4) by (auto intro!: inP)
  then have "header_at m (?S + seg_size blocks) n0 True"
    using header_at_eq_on [OF eq] c(2-4) E by simp
  ultimately have ch': "chain m ?S (blocks @ [(n0, True)]) ?E" using c(3,4) by (simp add: chain_append)
  have idx: "{unat (array (index h)) ..< ?S} \<subseteq> P" using i c(4) by (auto intro!: inP)
  then have "index_region h \<subseteq> P" by (auto simp: index_region_def subset_iff)
  then have items': "oa_items (index h) m = oa_items (index h) (mem s)" by (rule items_eq_on [OF ok eq])
  have u8: "unat (start_address h - 8) = ?S - 8" using i by (subst unat_minus_le) simp_all
  have "{?S - 8 ..< ?S - 8 + 4} \<subseteq> {unat (array (index h)) ..< ?S}" using i by auto
  then have "{?S - 8 ..< ?S - 8 + 4} \<subseteq> P" using idx by blast
  then have "ftr_magic m (start_address h - 8) = ftr_magic (mem s) (start_address h - 8)"
    unfolding ftr_defs using i E c(4) by (intro mem_eq_on_rd32 [OF eq]) (simp_all add: u8)
  then show "heap_rep (s\<lparr>mem := m\<rparr>) h (blocks @ [(n0, True)])"
    using kh ok ch' items items' ftr by (simp add: heap_rep_def)
  show "{?S + seg_size blocks ..< ?E} \<subseteq> P" using i c(4) by (auto intro!: inP)
qed

lemma heap_own:
  assumes av: "heap_avail s P n" and eq: "mem_eq_on P (mem s) m"
  shows "heap_avail (s\<lparr>mem := m\<rparr>) P n"
proof -
  from av obtain h blocks n0 where rep: "heap_rep s h (blocks @ [(n0, True)])"
    and bl: "\<forall>b \<in> set blocks. \<not> snd b" "n + 20 \<le> n0"
    and P: "P = {unat (array (index h)) ..< unat (end_address h)} - block_data (unat (start_address h)) blocks"
    and zero: "\<forall>a. unat a \<in> {unat (start_address h) + seg_size blocks + 12 ..< unat (end_address h) - 8} \<longrightarrow> mem s a = 0"
    unfolding heap_avail_def by blast
  let ?S = "unat (start_address h)" and ?E = "unat (end_address h)"
  note own = blocks_own [OF rep eq P]
  have "m a = 0" if "unat a \<in> {?S + seg_size blocks + 12 ..< ?E - 8}" for a
  proof -
    have "unat a \<in> P" using that own(2) by auto
    then show ?thesis using mem_eq_onD [OF eq] zero that by simp
  qed
  then show ?thesis unfolding heap_avail_def using own(1) bl P by auto
qed

lemma heap_gives:
  assumes av: "heap_avail s P (unat sz + 20 + n)"
  shows "\<exists>p s' P'. kmalloc (Suc fuel) sz s = Inr (p, s') \<and> heap_avail s' P' n \<and> p \<noteq> 0
        \<and> unat p + unat sz < 4294967296
        \<and> {unat p ..< unat p + unat sz} \<subseteq> P \<and> P' \<subseteq> P - {unat p ..< unat p + unat sz}
        \<and> (\<forall>a. unat a \<in> {unat p ..< unat p + unat sz} \<longrightarrow> mem s' a = 0)
        \<and> mem_eq_on (- P) (mem s) (mem s')"
proof -
  from av obtain h blocks n0 where rep: "heap_rep s h (blocks @ [(n0, True)])"
    and bl: "\<forall>b \<in> set blocks. \<not> snd b" "unat sz + 20 + n + 20 \<le> n0"
    and P: "P = {unat (array (index h)) ..< unat (end_address h)} - block_data (unat (start_address h)) blocks"
    and zero: "\<forall>a. unat a \<in> {unat (start_address h) + seg_size blocks + 12 ..< unat (end_address h) - 8} \<longrightarrow> mem s a = 0"
    unfolding heap_avail_def by blast
  let ?S = "unat (start_address h)" and ?E = "unat (end_address h)" and ?r = "unat sz + 20"
  define a where "a = ?S + seg_size blocks"
  have ok: "index_ok h" and ch: "chain (mem s) ?S (blocks @ [(n0, True)]) ?E" and kh: "kheap s = Some h"
    using rep by (simp_all add: heap_rep_def)
  have i: "unat (array (index h)) + 12 \<le> ?S" using ok by (simp add: index_ok_def)
  have c: "strict_chain (mem s) ?S blocks a" "?E = a + n0" using ch by (auto simp: chain_append a_def)
  note bd = block_data_bounds [OF c(1)]
  have E: "?E < 4294967296" by simp
  then have "?r < 4294967296" using bl(2) c(2) by linarith
  from alloc_fits_writes [OF rep this, of n0 fuel] bl obtain xs k ys s' h' ix m' where
    sp: "blocks @ [(n0, True)] = xs @ (k, True) # ys"
    and al: "alloc (Suc fuel) sz 0 s = Inr (of_nat (?S + seg_size xs + 12), s')"
    and rep': "heap_rep s' h' (xs @ carve k ?r @ ys)" "h' = h\<lparr>index := ix\<rparr>" "array ix = array (index h)"
    and s': "s' = s\<lparr>mem := m', kheap := Some h'\<rparr>"
    and eq: "mem_eq_on (- (alloc_writes (?S + seg_size xs) k ?r \<union> index_region h)) (mem s) m'"
    by (auto simp del: alloc.simps)
  have xs: "xs = blocks" "k = n0" "ys = []" using blocks_one_hole [OF sp bl(1)] by simp_all
  have cv: "carve n0 ?r = [(?r, False), (n0 - ?r, True)]" using bl(2) by (simp add: carve_def)
  note eq = eq [unfolded xs, folded a_def]
  define p where "p = (of_nat (a + 12) :: uint32)"
  have up: "unat p = a + 12" unfolding p_def using E c(2) bl(2) by (intro unat_of_nat32) linarith
  have km: "kmalloc (Suc fuel) sz s = Inr (p, s')"
    using al kh by (simp add: kmalloc_def drop_phys_def kmalloc_int_def kmalloc_int_with_def xs p_def a_def
        del: alloc.simps)
  have W: "alloc_writes a n0 ?r \<union> index_region h \<subseteq> {unat (array (index h)) ..< ?S} \<union> {a ..< a + n0}"
    using bl(2) i by (auto simp: alloc_writes_def index_region_def)
  have WP: "alloc_writes a n0 ?r \<union> index_region h \<subseteq> P"
  proof
    fix x assume "x \<in> alloc_writes a n0 ?r \<union> index_region h"
    then have x: "unat (array (index h)) \<le> x" "x < ?S \<or> a \<le> x" "x < ?E"
      using subsetD [OF W] i c(2) a_def by fastforce+
    then show "x \<in> P" using subsetD [OF bd, of x] by (auto simp: P)
  qed
  have fresh: "m' b = 0" if "a + 12 \<le> unat b" "unat b < ?E - 8" "\<not> (a + ?r - 8 \<le> unat b \<and> unat b < a + ?r + 12)" for b
  proof -
    have "unat b \<notin> alloc_writes a n0 ?r \<union> index_region h"
      using that c(2) a_def bl(2) by (auto simp: alloc_writes_def index_region_def)
    then show ?thesis using mem_eq_onD [OF eq] zero that by (simp add: a_def)
  qed
  let ?blocks = "blocks @ [(?r, False)]"
  let ?P = "{unat (array (index h)) ..< ?E} - block_data ?S ?blocks"
  have "heap_avail s' ?P n"
    unfolding heap_avail_def
  proof (intro exI conjI)
    show "heap_rep s' h' (?blocks @ [(n0 - ?r, True)])" using rep'(1) by (simp add: xs cv)
    show "\<forall>b \<in> set ?blocks. \<not> snd b" using bl(1) by simp
    show "n + 20 \<le> n0 - ?r" using bl(2) by simp
    show "?P = {unat (array (index h')) ..< unat (end_address h')} - block_data (unat (start_address h')) ?blocks"
      using rep'(2,3) by simp
    show "\<forall>b. unat b \<in> {unat (start_address h') + seg_size ?blocks + 12 ..< unat (end_address h') - 8} \<longrightarrow> mem s' b = 0"
      using fresh rep'(2) s' by (auto simp: a_def)
  qed
  moreover have "{unat p ..< unat p + unat sz} \<subseteq> P"
    using bl(2) c(2) i up subsetD [OF bd] a_def by (fastforce simp: P)
  moreover have "?P \<subseteq> P - {unat p ..< unat p + unat sz}"
    by (auto simp: P block_data_append up a_def)
  moreover have "\<forall>b. unat b \<in> {unat p ..< unat p + unat sz} \<longrightarrow> mem s' b = 0"
    using fresh bl(2) c(2) by (auto simp: up s')
  moreover have "mem_eq_on (- P) (mem s) (mem s')"
    using mem_eq_on_mono [OF eq] WP by (auto simp: s')
  moreover have "unat p + unat sz < 4294967296" using E c(2) bl(2) up by linarith
  moreover have "p \<noteq> 0" using up by auto
  ultimately show ?thesis using km by blast
qed

interpretation fresh_heap: fresh_allocator "kmalloc (Suc fuel)" heap_avail for fuel
  by unfold_locales (rule heap_gives, assumption, rule heap_own)

section \<open>The heap of create_heap\<close>

lemma create_heap_avail:
  assumes "kheap s = None" "start0 mod 0x1000 = 0" "end_addr mod 0x1000 = 0"
    "unat start0 + 0x80000 + 20 \<le> unat end_addr" "n + 20 \<le> unat end_addr - (unat start0 + 0x80000)"
    and zero: "\<forall>a. unat a \<in> {unat start0 ..< unat end_addr} \<longrightarrow> mem s a = 0"
  shows "\<exists>h s'. create_heap fuel start0 end_addr max_addr superv ro s = Inr (h, s')
    \<and> heap_avail (s'\<lparr>kheap := Some h\<rparr>) {unat start0 ..< unat end_addr} n
    \<and> mem_eq_on (- {unat start0 ..< unat end_addr}) (mem s) (mem s')"
proof -
  from create_heap_rep [OF assms(1-4), of fuel max_addr superv ro] obtain h s' where
    h: "create_heap fuel start0 end_addr max_addr superv ro s = Inr (h, s')"
    "heap_rep (s'\<lparr>kheap := Some h\<rparr>) h ([] @ [(unat end_addr - (unat start0 + 0x80000), True)])"
    "unat (start_address h) = unat start0 + 0x80000" "end_address h = end_addr" "array (index h) = start0"
    "mem_eq_on (- {unat start0 ..< unat start0 + 0x80000 + 12}) (mem s) (mem s')" by auto
  have "mem s' a = 0" if "unat a \<in> {unat start0 + 0x80000 + 12 ..< unat end_addr - 8}" for a
  proof -
    have "mem s' a = mem s a" using that by (intro mem_eq_onD [OF h(6)]) auto
    then show ?thesis using zero that by auto
  qed
  then have "heap_avail (s'\<lparr>kheap := Some h\<rparr>) {unat start0 ..< unat end_addr} n"
    unfolding heap_avail_def using h(2-5) assms(5)
    by (intro exI [of _ h] exI [of _ "[]"] exI [of _ "unat end_addr - (unat start0 + 0x80000)"]) simp
  moreover have "mem_eq_on (- {unat start0 ..< unat end_addr}) (mem s) (mem s')"
    by (rule mem_eq_on_mono [OF h(6)]) (use assms(4) in auto)
  ultimately show ?thesis using h(1) by blast
qed

end
