(* ===== verification/CreateInitrd.thy ===== *)
theory CreateInitrd
  imports InitrdMount "HOL-Library.Signed_Division"
begin

text \<open>
  create_initrd.c, the program of the build that writes the image of the initial ram disk,
  and that the image it writes is one that the kernel reads: the layout of the headers in
  the two programs is the same.
\<close>

section \<open>The program\<close>

text \<open>
  struct initrd_header: 1 + 64 bytes, 3 bytes of padding, two 32-bit words: 76 bytes.
\<close>

record image_header_t =
  ih_magic :: uint8
  ih_name :: "uint8 list"
  ih_padding :: "uint8 list"
  ih_offset :: uint32
  ih_length :: uint32

definition le32 :: "uint32 \<Rightarrow> uint8 list" where
  "le32 v = [ucast v, ucast (drop_bit 8 v), ucast (drop_bit 16 v), ucast (drop_bit 24 v)]"

definition header_bytes :: "image_header_t \<Rightarrow> uint8 list" where
  "header_bytes h = [ih_magic h] @ ih_name h @ ih_padding h @ le32 (ih_offset h) @ le32 (ih_length h)"

text \<open>strcpy of the C library into the 64 bytes of a name; a longer name overruns it.\<close>

definition copy_name :: "uint8 list \<Rightarrow> uint8 list \<Rightarrow> kerror + uint8 list" where
  "copy_name str buf = (if length str < 64 then Inr (str @ [0] @ drop (length str + 1) buf) else Inl OutOfBounds)"

text \<open>
  The first loop, over \<open>k\<close> remaining files. \<open>fopen\<close> is the file system of the build
  machine: the contents of a path. None: a file is missing and the program returns 1.
\<close>

type_synonym fopen_t = "uint8 list \<Rightarrow> uint8 list option"

fun headers_loop :: "fopen_t \<Rightarrow> uint8 list list \<Rightarrow> nat \<Rightarrow> nat \<Rightarrow> uint32 \<Rightarrow> image_header_t list
    \<Rightarrow> kerror + image_header_t list option" where
  "headers_loop fopen argv 0 i off headers = Inr (Some headers)"
| "headers_loop fopen argv (Suc k) i off headers =
     res_bind (copy_name (argv ! (i * 2 + 2)) (ih_name (headers ! i))) (\<lambda>nm.
       case fopen (argv ! (i * 2 + 1)) of
         None \<Rightarrow> Inr None
       | Some contents \<Rightarrow>
           let len = (of_nat (length contents) :: uint32)
           in headers_loop fopen argv k (i + 1) (off + len)
                (headers[i := (headers ! i)\<lparr>ih_name := nm, ih_offset := off, ih_length := len, ih_magic := 0xBF\<rparr>]))"

text \<open>The second loop: the contents, as long as their headers say.\<close>

definition contents_of :: "fopen_t \<Rightarrow> uint8 list list \<Rightarrow> image_header_t list \<Rightarrow> nat \<Rightarrow> uint8 list" where
  "contents_of fopen argv headers i =
     (case fopen (argv ! (i * 2 + 1)) of None \<Rightarrow> [] | Some c \<Rightarrow> take (unat (ih_length (headers ! i))) c)"

text \<open>
  main: argc is a char. The result is the exit status and the image, if it was written.
  \<open>headers0\<close> is what the array of the headers held before.
\<close>

definition create_initrd_main ::
  "fopen_t \<Rightarrow> image_header_t list \<Rightarrow> uint8 list list \<Rightarrow> kerror + int \<times> uint8 list option" where
  "create_initrd_main fopen headers0 argv =
     (let argc = sint (of_nat (length argv) :: 8 word); nheaders = (argc - 1) sdiv 2; off = 76 * 64 + 4
      in res_bind (headers_loop fopen argv (nat nheaders) 0 off headers0) (\<lambda>r.
           case r of
             None \<Rightarrow> Inr (1, None)
           | Some headers \<Rightarrow>
               Inr (0, Some (le32 (of_int nheaders) @ concat (map header_bytes headers)
                 @ concat (map (contents_of fopen argv headers) [0..<nat nheaders])))))"

section \<open>The headers it writes\<close>

text \<open>A file to put into the image: its path on the build machine and its name.\<close>

definition command_line :: "uint8 list \<Rightarrow> (uint8 list \<times> uint8 list) list \<Rightarrow> uint8 list list" where
  "command_line prog args = prog # concat (map (\<lambda>(path, nm). [path, nm]) args)"

lemma length_command_line: "length (command_line prog args) = 1 + 2 * length args"
  by (induction args) (auto simp: command_line_def)

lemma command_line_nth:
  "i < length args \<Longrightarrow> command_line prog args ! (i * 2 + 1) = fst (args ! i)
    \<and> command_line prog args ! (i * 2 + 2) = snd (args ! i)"
proof (induction args arbitrary: i)
  case (Cons a args)
  then show ?case
  proof (cases i)
    case (Suc j)
    then have "j < length args" using Cons.prems by simp
    from Cons.IH [OF this] show ?thesis
      using Suc by (auto simp: command_line_def split: prod.splits)
  qed (auto simp: command_line_def split: prod.splits)
qed simp

definition stack_headers :: "image_header_t list \<Rightarrow> bool" where
  "stack_headers hs \<longleftrightarrow> length hs = 64 \<and> (\<forall>h \<in> set hs. length (ih_name h) = 64 \<and> length (ih_padding h) = 3)"

definition file_of :: "fopen_t \<Rightarrow> uint8 list \<times> uint8 list \<Rightarrow> named_file" where
  "file_of fopen arg = (snd arg, the (fopen (fst arg)))"

definition args_ok :: "fopen_t \<Rightarrow> (uint8 list \<times> uint8 list) list \<Rightarrow> bool" where
  "args_ok fopen args \<longleftrightarrow> length args \<le> 63
     \<and> (\<forall>(path, nm) \<in> set args. fopen path \<noteq> None \<and> nm \<noteq> [] \<and> length nm < 64 \<and> 0 \<notin> set nm)
     \<and> 4868 + sum_list (map (length \<circ> snd \<circ> file_of fopen) args) < 4294967296"

text \<open>Where the contents of file \<open>i\<close> start.\<close>

definition offset_of :: "fopen_t \<Rightarrow> (uint8 list \<times> uint8 list) list \<Rightarrow> nat \<Rightarrow> nat" where
  "offset_of fopen args i = 4868 + sum_list (map (length \<circ> snd \<circ> file_of fopen) (take i args))"

definition header_for :: "fopen_t \<Rightarrow> (uint8 list \<times> uint8 list) list \<Rightarrow> nat \<Rightarrow> image_header_t \<Rightarrow> bool" where
  "header_for fopen args i h \<longleftrightarrow>
     take (length (snd (args ! i)) + 1) (ih_name h) = snd (args ! i) @ [0]
     \<and> ih_offset h = of_nat (offset_of fopen args i)
     \<and> ih_length h = of_nat (length (snd (file_of fopen (args ! i))))"

lemma offset_of_Suc:
  "i < length args \<Longrightarrow> offset_of fopen args (Suc i) = offset_of fopen args i + length (snd (file_of fopen (args ! i)))"
  by (simp add: offset_of_def take_Suc_conv_app_nth)

lemma headers_loop_result:
  assumes ok: "args_ok fopen args"
  shows "k + i = length args \<Longrightarrow> stack_headers hs \<Longrightarrow> \<forall>j < i. header_for fopen args j (hs ! j)
    \<Longrightarrow> \<exists>hs'. headers_loop fopen (command_line prog args) k i (of_nat (offset_of fopen args i)) hs = Inr (Some hs')
      \<and> stack_headers hs' \<and> (\<forall>j < length args. header_for fopen args j (hs' ! j))"
proof (induction k arbitrary: i hs)
  case (Suc k)
  have i: "i < length args" "i < length hs" using Suc.prems(1,2) ok by (auto simp: args_ok_def stack_headers_def)
  have arg: "args ! i \<in> set args" using i(1) by simp
  then obtain c where c: "fopen (fst (args ! i)) = Some c" and nm: "length (snd (args ! i)) < 64"
    using ok by (fastforce simp: args_ok_def)
  note cl = command_line_nth [OF i(1), of prog]
  define h where "h = (hs ! i)\<lparr>ih_name := snd (args ! i) @ [0] @ drop (length (snd (args ! i)) + 1) (ih_name (hs ! i)),
    ih_offset := of_nat (offset_of fopen args i), ih_length := of_nat (length c), ih_magic := 0xBF\<rparr>"
  have step: "headers_loop fopen (command_line prog args) (Suc k) i (of_nat (offset_of fopen args i)) hs =
      headers_loop fopen (command_line prog args) k (i + 1) (of_nat (offset_of fopen args (Suc i))) (hs[i := h])"
    using cl c nm by (simp add: copy_name_def offset_of_Suc [OF i(1)] file_of_def h_def Let_def)
  have "hs ! i \<in> set hs" using i(2) by simp
  then have hi: "length (ih_name (hs ! i)) = 64" "length (ih_padding (hs ! i)) = 3"
    using Suc.prems(2) by (auto simp: stack_headers_def)
  have "stack_headers (hs[i := h])"
    using Suc.prems(2) nm hi by (auto simp: stack_headers_def h_def dest!: subsetD [OF set_update_subset_insert])
  moreover have "\<forall>j < Suc i. header_for fopen args j (hs[i := h] ! j)"
    using Suc.prems(3) c i(2) by (auto simp: less_Suc_eq header_for_def h_def file_of_def)
  ultimately show ?case using step Suc.IH [of "Suc i" "hs[i := h]"] Suc.prems(1) by simp
qed auto

section \<open>Positions in the image\<close>

lemma nth_concat_fixed:
  "\<forall>x \<in> set xss. length x = w \<Longrightarrow> i < length xss \<Longrightarrow> take w (drop (w * i) (concat xss)) = xss ! i"
proof (induction xss arbitrary: i)
  case (Cons x xss)
  then show ?case by (cases i) (auto simp: add.commute [of w])
qed simp

lemma length_concat_fixed: "\<forall>x \<in> set xss. length x = w \<Longrightarrow> length (concat xss) = w * length xss"
  by (induction xss) auto

lemma nth_concat_sum:
  "i < length xss \<Longrightarrow> take (length (xss ! i)) (drop (sum_list (map length (take i xss))) (concat xss)) = xss ! i"
proof (induction xss arbitrary: i)
  case (Cons x xss)
  then show ?case by (cases i) auto
qed simp

lemma take_drop_append2:
  "take n (drop (length xs + k) (xs @ ys)) = take n (drop k ys)"
  "k + n \<le> length xs \<Longrightarrow> take n (drop k (xs @ ys)) = take n (drop k xs)"
  by simp_all

lemma take_drop_sub: "take w (drop p xs) = ys \<Longrightarrow> k + n \<le> w \<Longrightarrow> take n (drop (p + k) xs) = take n (drop k ys)"
  by (auto simp: drop_take add.commute min_def)

lemma length_le32 [simp]: "length (le32 v) = 4"
  by (simp add: le32_def)

lemma bytes_le32: "bytes m a 4 = le32 v \<longleftrightarrow> rd32 m a = v"
proof
  assume b: "bytes m a 4 = le32 v"
  have "m (a + of_nat k) = le32 v ! k" if "k < 4" for k
    using b nth_bytes [of k 4 m a] that by simp
  from this [of 0] this [of 1] this [of 2] this [of 3] have
    "m a = ucast v" "m (a + 1) = ucast (drop_bit 8 v)" "m (a + 2) = ucast (drop_bit 16 v)" "m (a + 3) = ucast (drop_bit 24 v)"
    by (simp_all add: le32_def)
  then have "rd32 m a = rd32 (wr32 m a v) a" by (intro rd32_cong) (simp_all add: wr32_def)
  then show "rd32 m a = v" by simp
next
  assume "rd32 m a = v"
  then have v: "bit v n = bit (m (a + of_nat (n div 8))) (n mod 8)" if "n < 32" for n
    using rd32_bit [OF that, of m a] by simp
  have "m (a + of_nat k) = ucast (drop_bit (8 * k) v)" if "k < 4" for k
  proof (rule bit_word_eqI)
    fix n assume "n < LENGTH(8)"
    then have "8 * k + n < 32" "(8 * k + n) div 8 = k" "(8 * k + n) mod 8 = n" using that by simp_all
    then show "bit (m (a + of_nat k)) n = bit (ucast (drop_bit (8 * k) v) :: uint8) n"
      using v [of "8 * k + n"] \<open>n < LENGTH(8)\<close> by (simp add: bit_simps)
  qed
  from this [of 0] this [of 1] this [of 2] this [of 3] show "bytes m a 4 = le32 v"
    by (simp add: le32_def eval_nat_numeral bytes_Suc add.assoc)
qed

lemma bytes_part:
  assumes "k + n \<le> N"
  shows "bytes m (a + of_nat k) n = take n (drop k (bytes m a N))"
proof (rule nth_equalityI)
  show "length (bytes m (a + of_nat k) n) = length (take n (drop k (bytes m a N)))"
    using assms by simp
  fix j assume "j < length (bytes m (a + of_nat k) n)"
  then have j: "j < n" "k + j < N" using assms by simp_all
  then show "bytes m (a + of_nat k) n ! j = take n (drop k (bytes m a N)) ! j"
    using assms by (simp add: add.assoc)
qed

section \<open>The image that main writes\<close>

definition image_files :: "fopen_t \<Rightarrow> (uint8 list \<times> uint8 list) list \<Rightarrow> named_file list" where
  "image_files fopen args = map (file_of fopen) args"

lemma nheaders_eq:
  "n \<le> 63 \<Longrightarrow> (sint (of_nat (1 + 2 * n) :: 8 word) - 1) sdiv 2 = int n"
proof -
  assume "n \<le> 63"
  then have "sint (of_nat (1 + 2 * n) :: 8 word) = int (1 + 2 * n)"
    by (simp only: signed_of_nat) (simp add: signed_take_bit_int_eq_self)
  then show ?thesis by (cases "n = 0") (simp_all add: signed_divide_int_def sgn_if)
qed

lemma create_initrd_image:
  assumes ok: "args_ok fopen args" and st: "stack_headers hs"
  shows "\<exists>hs' img. create_initrd_main fopen hs (command_line prog args) = Inr (0, Some img)
    \<and> stack_headers hs' \<and> (\<forall>j < length args. header_for fopen args j (hs' ! j))
    \<and> img = le32 (of_nat (length args)) @ concat (map header_bytes hs')
        @ concat (map snd (image_files fopen args))"
proof -
  have n: "length args \<le> 63" using ok by (simp add: args_ok_def)
  have "offset_of fopen args 0 = 4868" by (simp add: offset_of_def)
  then have "\<exists>hs'. headers_loop fopen (command_line prog args) (length args) 0 4868 hs = Inr (Some hs')
      \<and> stack_headers hs' \<and> (\<forall>j < length args. header_for fopen args j (hs' ! j))"
    using headers_loop_result [OF ok, of "length args" 0 hs prog] st by simp
  then obtain hs' where hs': "headers_loop fopen (command_line prog args) (length args) 0 4868 hs = Inr (Some hs')"
    "stack_headers hs'" "\<forall>j < length args. header_for fopen args j (hs' ! j)" by blast
  have "contents_of fopen (command_line prog args) hs' j = snd (image_files fopen args ! j)" if j: "j < length args" for j
  proof -
    have arg: "args ! j \<in> set args" using j by simp
    then obtain c where c: "fopen (fst (args ! j)) = Some c" using ok by (fastforce simp: args_ok_def)
    have "length c \<le> sum_list (map (length \<circ> snd \<circ> file_of fopen) args)"
      using arg c by (intro member_le_sum_list; force simp: file_of_def)
    then have "length c < 4294967296" using ok by (simp add: args_ok_def)
    then have "unat (ih_length (hs' ! j)) = length c"
      using hs'(3) j c by (simp add: header_for_def file_of_def unat_of_nat32)
    then show ?thesis
      using c j command_line_nth [OF j, of prog] by (simp add: contents_of_def image_files_def file_of_def)
  qed
  then have cont: "map (contents_of fopen (command_line prog args) hs') [0..<length args] = map snd (image_files fopen args)"
    by (intro nth_equalityI) (simp_all add: image_files_def)
  have "create_initrd_main fopen hs (command_line prog args) =
      Inr (0, Some (le32 (of_nat (length args)) @ concat (map header_bytes hs') @ concat (map snd (image_files fopen args))))"
    unfolding create_initrd_main_def Let_def length_command_line nheaders_eq [OF n]
    by (simp add: hs'(1) cont)
  then show ?thesis using hs'(2,3) by blast
qed

lemma sum_list_take_le: "sum_list (map g (take k xs)) \<le> sum_list (map g xs)" for g :: "'a \<Rightarrow> nat"
  by (induction xs arbitrary: k) (auto simp: take_Cons' )

lemma c_string_bytes:
  assumes "bytes m a (length nm + 1) = nm @ [0]" "0 \<notin> set nm"
  shows "c_string m a nm"
proof -
  have nth: "m (a + of_nat k) = (nm @ [0]) ! k" if "k < length nm + 1" for k
    using that nth_bytes [of k "length nm + 1" m a] unfolding assms(1) by simp
  have "bytes m a (length nm) = nm"
    by (rule nth_equalityI) (simp_all add: nth nth_append)
  then show ?thesis using nth [of "length nm"] assms(2) by (simp add: c_string_iff)
qed

text \<open>The three fields of a header in the image, and the contents.\<close>

lemma image_header_fields_loaded:
  assumes st: "stack_headers hs'" and i: "i < 64"
    and part: "\<And>k n. k + n \<le> length img \<Longrightarrow> bytes m (loc + of_nat k) n = take n (drop k img)"
    and img: "img = le32 v @ concat (map header_bytes hs') @ rest"
  shows "fh_offset m (image_header loc i) = ih_offset (hs' ! i)"
    and "fh_length m (image_header loc i) = ih_length (hs' ! i)"
    and "k \<le> 64 \<Longrightarrow> bytes m (image_header loc i + 1) k = take k (ih_name (hs' ! i))"
proof -
  let ?hb = "map header_bytes hs'" and ?h = "hs' ! i"
  have w: "\<forall>x \<in> set ?hb. length x = 76" "length hs' = 64" using st by (auto simp: stack_headers_def header_bytes_def)
  then have hl: "length (concat ?hb) = 4864" using length_concat_fixed [OF w(1)] by simp
  have "?h \<in> set hs'" using i w(2) by simp
  then have nm: "length (ih_name ?h) = 64" "length (ih_padding ?h) = 3" using st by (auto simp: stack_headers_def)
  have bound: "76 * i + 76 \<le> 4864" using i by simp
  have "take 76 (drop (4 + 76 * i) img) = take 76 (drop (76 * i) (concat ?hb))"
    using bound hl take_drop_append2(1) [of 76 "le32 v" "76 * i"] by (simp add: img)
  also have "\<dots> = header_bytes ?h" using nth_concat_fixed [OF w(1), of i] i w(2) by simp
  finally have hdr: "take 76 (drop (4 + 76 * i) img) = header_bytes ?h" .
  have at: "bytes m (image_header loc i + of_nat k) n = take n (drop k (header_bytes ?h))" if "k + n \<le> 76" for k n
  proof -
    have "image_header loc i + of_nat k = loc + of_nat (4 + 76 * i + k)" by (simp add: image_header_def add.assoc)
    moreover have "4 + 76 * i + k + n \<le> length img" using that bound hl by (simp add: img)
    ultimately show ?thesis using part [of "4 + 76 * i + k" n] take_drop_sub [OF hdr that] by (simp add: add.assoc)
  qed
  show "fh_offset m (image_header loc i) = ih_offset ?h"
    using at [of 68 4] nm by (simp add: header_bytes_def fh_offset_def bytes_le32)
  show "fh_length m (image_header loc i) = ih_length ?h"
    using at [of 72 4] nm by (simp add: header_bytes_def fh_length_def bytes_le32)
  show "bytes m (image_header loc i + 1) k = take k (ih_name ?h)" if "k \<le> 64"
    using at [of 1 k] nm that by (simp add: header_bytes_def)
qed

lemma image_loaded:
  assumes ok: "args_ok fopen args" and st: "stack_headers hs'"
    and hf: "\<forall>j < length args. header_for fopen args j (hs' ! j)"
    and img: "img = le32 (of_nat (length args)) @ concat (map header_bytes hs') @ concat (map snd (image_files fopen args))"
    and ld: "bytes m loc (length img) = img" "unat loc + length img < 4294967296"
  shows "image_at m loc (length img) (image_files fopen args)"
proof -
  let ?files = "image_files fopen args" and ?hb = "map header_bytes hs'"
  have w: "\<forall>x \<in> set ?hb. length x = 76" "length hs' = 64" using st by (auto simp: stack_headers_def header_bytes_def)
  then have hl: "length (concat ?hb) = 4864" using length_concat_fixed [OF w(1)] by simp
  have total: "length img = 4868 + sum_list (map (length \<circ> snd) ?files)"
    using hl by (simp add: img length_concat comp_def)
  have part: "bytes m (loc + of_nat k) n = take n (drop k img)" if "k + n \<le> length img" for k n
    using bytes_part [OF that, of m loc] ld(1) by simp
  have "bytes m loc 4 = le32 (of_nat (length args))"
    using part [of 0 4] total by (simp add: img)
  then have nf: "nfiles m loc = of_nat (length ?files)" by (simp add: bytes_le32 nfiles_def image_files_def)
  have "file_in_image m loc (length img) i (?files ! i)" if i: "i < length ?files" for i
  proof -
    let ?nm = "snd (args ! i)" and ?h = "image_header loc i" and ?off = "offset_of fopen args i"
    have ia: "i < length args" "i < 64" using i ok by (simp_all add: image_files_def args_ok_def)
    then have "args ! i \<in> set args" by simp
    then have nm: "?nm \<noteq> []" "length ?nm < 64" "0 \<notin> set ?nm" using ok by (fastforce simp: args_ok_def)+
    note fields = image_header_fields_loaded [OF st ia(2) part img]
    have f: "?files ! i = file_of fopen (args ! i)" using ia by (simp add: image_files_def)
    note hd = hf [rule_format, OF ia(1), unfolded header_for_def]
    have cs: "c_string m (?h + 1) ?nm"
      using fields(3) [of "length ?nm + 1"] hd nm by (intro c_string_bytes) simp_all
    have sums: "?off + length (snd (?files ! i)) \<le> length img"
      using offset_of_Suc [OF ia(1), of fopen] ia(1) sum_list_take_le [of "length \<circ> snd \<circ> file_of fopen" "Suc i" args]
      by (simp add: total f offset_of_def image_files_def comp_def)
    then have uoff: "unat (of_nat ?off :: uint32) = ?off" using ld(2) by (intro unat_of_nat32) linarith
    have "drop ?off img = drop (?off - 4868) (concat (map snd ?files))"
      using hl by (simp add: img offset_of_def)
    moreover have "?off - 4868 = sum_list (map length (take i (map snd ?files)))"
      by (simp add: offset_of_def image_files_def take_map comp_def)
    ultimately have "take (length (snd (?files ! i))) (drop ?off img) = snd (?files ! i)"
      using nth_concat_sum [of i "map snd ?files"] i by simp
    then have "bytes m (loc + of_nat ?off) (length (snd (?files ! i))) = snd (?files ! i)"
      using part [OF sums] by simp
    then show ?thesis
      using nm cs fields(1,2) hd sums uoff
      by (simp add: file_in_image_def f) (simp add: file_of_def offset_of_def)
  qed
  then show ?thesis
    using ld(2) total nf ok by (auto simp: image_at_def image_files_def args_ok_def)
qed

end
