(* ===== verification/FileSystem.thy ===== *)
theory FileSystem
  imports HeapFresh CreateInitrd
begin

text \<open>
  The file system as its callers see it: an image written by create_initrd.c, loaded into
  memory and initialised, gives back every file by its name, with its contents; the
  directory lists every name; and what initrd_read returns for every request.
\<close>

section \<open>Frame condition of a mounted file system\<close>

text \<open>The memory the file system rests on.\<close>

definition fs_region :: "initrd_symbols \<Rightarrow> initrd_t \<Rightarrow> nat \<Rightarrow> nat \<Rightarrow> nat set" where
  "fs_region sy ir isize n = image_region (initrd_header ir) isize
     \<union> {unat (root_nodes ir) ..< unat (root_nodes ir) + 184 * n}
     \<union> {unat (initrd_root ir) ..< unat (initrd_root ir) + 184}
     \<union> {unat (initrd_dev ir) ..< unat (initrd_dev ir) + 184}
     \<union> {unat (lit_dev sy) ..< unat (lit_dev sy) + 4}"

lemma mounted_eq_on:
  assumes m: "mounted sy ir isize m files" and eq: "mem_eq_on S m m'"
    and S: "fs_region sy ir isize (length files) \<subseteq> S"
  shows "mounted sy ir isize m' files"
proof -
  have lay: "layout_ok ir isize (length files)"
    and dirs: "dir_mounted sy m (initrd_root ir) [74]" "dir_mounted sy m (initrd_dev ir) dev_name"
      "unat (initrd_root ir) + 184 < 4294967296" "unat (initrd_dev ir) + 184 < 4294967296"
    and dev: "c_string m (lit_dev sy) dev_name" "unat (lit_dev sy) + 4 < 4294967296"
    using m by (simp_all add: mounted_def)
  have "file_mounted sy ir isize m' i (files ! i)" if i: "i < length files" for i
  proof (rule file_mounted_eq_on [OF lay i eq])
    have "184 * i + 184 \<le> 184 * length files" "76 * i + 76 \<le> 76 * 64" using i lay by (auto simp: layout_ok_def)
    then have "header_region ir i \<union> data_region ir isize \<union> node_region ir i \<subseteq> fs_region sy ir isize (length files)"
      using lay by (auto simp: region_defs fs_region_def image_region_def layout_ok_def)
    then show "header_region ir i \<union> data_region ir isize \<union> node_region ir i \<subseteq> S" using S by blast
    show "file_mounted sy ir isize m i (files ! i)" using m i by (simp add: mounted_def)
  qed
  moreover have "dir_mounted sy m' (initrd_root ir) [74]"
    using S by (intro dir_mounted_eq_on [OF dirs(1) eq _ dirs(3)]) (auto simp: fs_region_def)
  moreover have "dir_mounted sy m' (initrd_dev ir) dev_name"
    using S by (intro dir_mounted_eq_on [OF dirs(2) eq _ dirs(4)]) (auto simp: fs_region_def dev_name_def)
  moreover have "c_string m' (lit_dev sy) dev_name \<longleftrightarrow> c_string m (lit_dev sy) dev_name"
    using S dev(2) by (intro c_string_eq_on [OF eq]) (auto simp: fs_region_def dev_name_def)
  ultimately show ?thesis using m by (simp add: mounted_def)
qed

section \<open>initrd_read\<close>

text \<open>
  C34: the number of bytes initrd_read returns is at most what the file has from the offset
  on, except when offset + size wraps around: then the request is not cut and bytes past
  the end of the file are copied.
\<close>

theorem initrd_read_bounds:
  "\<exists>m'. initrd_read ir node offset sz buffer m =
     Inr (if offset > fh_length m (file_header_at ir (node_inode m node)) then 0
          else if unat offset + unat sz \<ge> 4294967296 then sz
          else min sz (fh_length m (file_header_at ir (node_inode m node)) - offset), m')"
proof -
  let ?len = "fh_length m (file_header_at ir (node_inode m node))"
  show ?thesis
  proof (cases "offset > ?len")
    case True
    then show ?thesis by (simp add: initrd_read_def)
  next
    case False
    then have le: "unat offset \<le> unat ?len" by (simp add: word_less_nat_alt)
    have "(if offset + sz > ?len then ?len - offset else sz) =
      (if unat offset + unat sz \<ge> 4294967296 then sz else min sz (?len - offset))"
    proof (cases "unat offset + unat sz \<ge> 4294967296")
      case True
      have "unat (offset + sz) = unat offset + unat sz - 4294967296"
        using True by (simp add: unat_plus_if_size word_size)
      moreover have "unat sz < 4294967296" by simp
      ultimately have "unat (offset + sz) \<le> unat ?len" using le by linarith
      then show ?thesis using True by (simp add: word_less_nat_alt)
    next
      case no: False
      then have u: "unat (offset + sz) = unat offset + unat sz" by (intro unat_plus_no_wrap) simp
      have d: "unat (?len - offset) = unat ?len - unat offset" using le by (rule unat_minus_le)
      show ?thesis
        using no u d le by (auto simp: word_less_nat_alt word_le_nat_alt min_def word_unat_eq_iff)
    qed
    then show ?thesis using False by (simp add: initrd_read_def Let_def)
  qed
qed

lemma read_mounted:
  assumes "mounted sy ir isize m files" "i < length files" "unat offset + unat sz < 4294967296"
    and "unat buffer + unat sz \<le> 4294967296" "apart_regions buffer (unat sz) (initrd_header ir) isize"
  shows "\<exists>k m'. read_fs (call_read sy ir) (root_node_at ir (of_nat i)) offset sz buffer m = Inr (k, m')
    \<and> bytes m' buffer (unat k) = take (unat sz) (drop (unat offset) (snd (files ! i)))
    \<and> unat k = length (take (unat sz) (drop (unat offset) (snd (files ! i))))
    \<and> mem_eq_on (- {unat buffer ..< unat buffer + unat sz}) m m'"
proof -
  have lay: "layout_ok ir isize (length files)" and fm: "file_mounted sy ir isize m i (files ! i)"
    and nz: "sym_read sy \<noteq> 0"
    using assms(1,2) by (simp_all add: mounted_def)
  have "node_read m (root_node_at ir (of_nat i)) = sym_read sy"
    using fm by (simp add: file_mounted_def Let_def)
  then have "read_fs (call_read sy ir) (root_node_at ir (of_nat i)) offset sz buffer m =
      initrd_read ir (root_node_at ir (of_nat i)) offset sz buffer m"
    using nz by (simp add: read_fs_def call_read_def)
  then show ?thesis using initrd_read_file [OF lay assms(2) fm refl assms(3-5)] by simp
qed

text \<open>
  C33: reading a mounted file through its node, with an offset and size that do not wrap
  around and a buffer outside the image, puts the file's bytes from the offset on, at most
  size of them, into the buffer, returns their number and writes nothing else.
\<close>

theorem read_fs_reads_file:
  assumes "mounted sy ir isize m files" "i < length files" "unat offset + unat sz < 4294967296"
    and "unat buffer + unat sz \<le> 4294967296" "apart_regions buffer (unat sz) (initrd_header ir) isize"
  shows "\<exists>k m'. read_fs (call_read sy ir) (root_node_at ir (of_nat i)) offset sz buffer m = Inr (k, m')
    \<and> bytes m' buffer (unat k) = take (unat sz) (drop (unat offset) (snd (files ! i)))
    \<and> unat k = length (take (unat sz) (drop (unat offset) (snd (files ! i))))
    \<and> mem_eq_on (- {unat buffer ..< unat buffer + unat sz}) m m'"
  using assms by (rule read_mounted)

section \<open>The directory\<close>

definition dirent_region :: "initrd_symbols \<Rightarrow> nat set" where
  "dirent_region sy = {unat (sym_dirent sy) ..< unat (sym_dirent sy) + 132}"

text \<open>
  The name is copied without its terminator, which is then written behind it: the two
  branches of initrd_readdir.
\<close>

lemma fill_dirent:
  assumes d: "unat d + 132 < 4294967296" and name: "c_string m src nm" "nm \<noteq> []" "length nm < 128"
    and src: "unat src + length nm < 4294967296" "apart_regions d 132 src (length nm + 1)"
  shows "\<exists>m1. strcpy m d src = Some m1 \<and> c_string m1 src nm \<and> mem_eq_on (- {unat d ..< unat d + length nm}) m m1
    \<and> c_string (wr32 (m1(d + of_nat (length nm) := 0)) (d + 128) ino) d nm
    \<and> dirent_ino (wr32 (m1(d + of_nat (length nm) := 0)) (d + 128) ino) d = ino
    \<and> mem_eq_on (- {unat d ..< unat d + 132}) m (wr32 (m1(d + of_nat (length nm) := 0)) (d + 128) ino)"
proof -
  have "\<exists>m1. strcpy m d src = Some m1 \<and> bytes m1 d (length nm) = nm
      \<and> mem_eq_on (- {unat d ..< unat d + length nm}) m m1"
    using assms by (intro strcpy_string) (auto simp: apart_regions_def)
  then obtain m1 where m1: "strcpy m d src = Some m1" "bytes m1 d (length nm) = nm"
    "mem_eq_on (- {unat d ..< unat d + length nm}) m m1" by blast
  define m2 where "m2 = m1(d + of_nat (length nm) := 0)"
  define m3 where "m3 = wr32 m2 (d + 128) ino"
  have u: "unat (d + of_nat (length nm)) = unat d + length nm" "unat (d + 128) = unat d + 128"
    using d name(3) unat_plus_of_nat [of d 128] by (auto intro!: unat_plus_of_nat)
  have e3: "mem_eq_on {unat d ..< unat d + 128} m2 m3"
    unfolding m3_def using d by (intro mem_eq_on_wr32) (auto simp: u)
  have "bytes m3 d (length nm) = bytes m2 d (length nm)" "m3 (d + of_nat (length nm)) = m2 (d + of_nat (length nm))"
    using d name(3) by (auto intro!: bytes_eq_on [OF e3] mem_eq_onD [OF e3] simp: u)
  moreover have "bytes m2 d (length nm) = bytes m1 d (length nm)"
  proof (rule bytes_eq_on)
    show "mem_eq_on (- {unat d + length nm}) m1 m2" unfolding m2_def by (rule mem_eq_on_upd) (simp add: u)
  qed (use d name(3) in auto)
  ultimately have "c_string m3 d nm" using m1(2) name(1) by (simp add: c_string_iff m2_def)
  moreover have "c_string m1 src nm \<longleftrightarrow> c_string m src nm"
    using src name(3) by (intro c_string_eq_on [OF m1(3)]) (auto simp: apart_regions_def)
  moreover have "mem_eq_on (- {unat d ..< unat d + 132}) m1 m2"
    unfolding m2_def using name(3) by (intro mem_eq_on_upd) (simp add: u)
  moreover have "mem_eq_on (- {unat d ..< unat d + 132}) m2 m3"
    unfolding m3_def using d by (intro mem_eq_on_wr32) (auto simp: u)
  moreover have "mem_eq_on (- {unat d ..< unat d + 132}) m m1"
    by (rule mem_eq_on_mono [OF m1(3)]) (use name(3) in auto)
  ultimately have "c_string m3 d nm" "c_string m1 src nm" "mem_eq_on (- {unat d ..< unat d + 132}) m m3"
    using name(1) by (blast intro: mem_eq_on_trans)+
  moreover have "dirent_ino m3 d = ino" by (simp add: dirent_ino_def m3_def)
  ultimately show ?thesis using m1 by (auto simp: m2_def m3_def)
qed

text \<open>The names the root directory lists, in order.\<close>

definition listed :: "named_file list \<Rightarrow> nat \<Rightarrow> uint8 list option" where
  "listed files i = (if i = 0 then Some dev_name
     else if i \<le> length files then Some (fst (files ! (i - 1))) else None)"

lemma readdir_mounted:
  assumes m: "mounted sy ir isize m files" and i: "i < 4294967296"
    and d: "unat (sym_dirent sy) + 132 < 4294967296" "dirent_region sy \<inter> fs_region sy ir isize (length files) = {}"
  shows "\<exists>p m'. readdir_fs (call_readdir sy ir) (initrd_root ir) (of_nat i) m = Inr (p, m')
    \<and> (case listed files i of None \<Rightarrow> p = 0 \<and> m' = m
       | Some nm \<Rightarrow> p = sym_dirent sy \<and> c_string m' p nm \<and> mem_eq_on (- dirent_region sy) m m')"
proof -
  let ?d = "sym_dirent sy" and ?n = "length files"
  have lay: "layout_ok ir isize ?n" and root: "dir_mounted sy m (initrd_root ir) [74]" "sym_readdir sy \<noteq> 0"
    and dev: "c_string m (lit_dev sy) dev_name" "unat (lit_dev sy) + 4 < 4294967296"
    and nr: "nroot_nodes ir = of_nat ?n"
    using m by (simp_all add: mounted_def)
  have rd: "readdir_fs (call_readdir sy ir) (initrd_root ir) (of_nat i) m = initrd_readdir sy ir (initrd_root ir) (of_nat i) m"
    using root by (simp add: readdir_fs_def dir_mounted_def call_readdir_def FS_DIRECTORY_def)
  have n: "?n \<le> 64" using lay by (simp add: layout_ok_def)
  show ?thesis
  proof (cases "i = 0")
    case True
    have l: "length dev_name + 1 = 4" by (simp add: dev_name_def)
    have "{unat ?d ..< unat ?d + 132} \<inter> {unat (lit_dev sy) ..< unat (lit_dev sy) + (length dev_name + 1)} = {}"
      unfolding l
      using d(2) unfolding fs_region_def dirent_region_def by blast
    then have "apart_regions ?d 132 (lit_dev sy) (length dev_name + 1)"
      unfolding apart_regions_def by (intro disjoint_intervals_apart) (simp_all add: dev_name_def)
    then have "\<exists>m1. strcpy m ?d (lit_dev sy) = Some m1
        \<and> c_string (wr32 (m1(?d + of_nat (length dev_name) := 0)) (?d + 128) 0) ?d dev_name
        \<and> mem_eq_on (- {unat ?d ..< unat ?d + 132}) m (wr32 (m1(?d + of_nat (length dev_name) := 0)) (?d + 128) 0)"
      using fill_dirent [OF d(1) dev(1), of 0] dev(2) by (force simp: dev_name_def simp del: c_string.simps)
    then obtain m1 where m1: "strcpy m ?d (lit_dev sy) = Some m1"
      "c_string (wr32 (m1(?d + 3 := 0)) (?d + 128) 0) ?d dev_name"
      "mem_eq_on (- {unat ?d ..< unat ?d + 132}) m (wr32 (m1(?d + 3 := 0)) (?d + 128) 0)"
      by (auto simp: dev_name_def simp del: c_string.simps)
    then have "readdir_fs (call_readdir sy ir) (initrd_root ir) (of_nat i) m =
        Inr (?d, wr32 (m1(?d + 3 := 0)) (?d + 128) 0)"
      unfolding rd using True by (simp add: initrd_readdir_def Let_def dirent_name_def)
    then show ?thesis using m1(2,3) True by (simp add: listed_def dirent_region_def)
  next
    case i0: False
    define j where "j = i - 1"
    have j: "(of_nat i :: uint32) - 1 = of_nat j" "(of_nat i :: uint32) \<noteq> 0"
      using i0 unat_of_nat32 [OF i] by (auto simp: j_def of_nat_diff)
    have uj: "unat (of_nat j :: uint32) = j" using i by (intro unat_of_nat32) (simp add: j_def)
    have ge: "(of_nat j :: uint32) \<ge> nroot_nodes ir \<longleftrightarrow> ?n \<le> j"
      using n uj by (simp add: nr word_le_nat_alt unat_of_nat32)
    show ?thesis
    proof (cases "?n \<le> j")
      case True
      then have "listed files i = None" using i0 by (auto simp: listed_def j_def)
      then show ?thesis using True ge j by (simp add: rd initrd_readdir_def Let_def)
    next
      case False
      then have jn: "j < ?n" by simp
      let ?node = "root_node_at ir (of_nat j)" and ?nm = "fst (files ! j)"
      have fm: "c_string m ?node ?nm" "?nm \<noteq> []" "length ?nm < 64"
        using m jn by (auto simp: mounted_def file_mounted_def Let_def node_name_def)
      have un: "unat ?node = unat (root_nodes ir) + 184 * j" by (rule image_addresses(3) [OF lay jn])
      have b: "184 * j + 184 \<le> 184 * ?n" "unat (root_nodes ir) + 184 * ?n < 4294967296"
        using jn lay by (simp_all add: layout_ok_def)
      then have "{unat ?node ..< unat ?node + 184} \<subseteq> fs_region sy ir isize ?n" by (auto simp: un fs_region_def)
      then have "{unat ?d ..< unat ?d + 132} \<inter> {unat ?node ..< unat ?node + (length ?nm + 1)} = {}"
        using d(2) fm(3) by (fastforce simp: dirent_region_def)
      then have "apart_regions ?d 132 ?node (length ?nm + 1)"
        unfolding apart_regions_def by (intro disjoint_intervals_apart) simp_all
      then have fill: "\<exists>m1. strcpy m ?d ?node = Some m1 \<and> c_string m1 ?node ?nm
          \<and> c_string (wr32 (m1(?d + of_nat (length ?nm) := 0)) (?d + 128) ino) ?d ?nm
          \<and> mem_eq_on (- {unat ?d ..< unat ?d + 132}) m (wr32 (m1(?d + of_nat (length ?nm) := 0)) (?d + 128) ino)" for ino
        using fill_dirent [OF d(1) fm(1,2), of ino] fm(3) b un by fastforce
      then obtain m1 where m1: "strcpy m ?d ?node = Some m1" "c_string m1 ?node ?nm" by blast
      then have m2: "c_string (wr32 (m1(?d + of_nat (length ?nm) := 0)) (?d + 128) ino) ?d ?nm"
        "mem_eq_on (- {unat ?d ..< unat ?d + 132}) m (wr32 (m1(?d + of_nat (length ?nm) := 0)) (?d + 128) ino)" for ino
        using fill [of ino] by auto
      have "listed files i = Some ?nm" using i0 jn by (auto simp: listed_def j_def)
      then show ?thesis
        using False ge j m1 m2 strlen_string [OF m1(2)]
        by (auto simp: rd initrd_readdir_def Let_def dirent_region_def dirent_name_def node_name_def)
    qed
  qed
qed

section \<open>From the build machine to the running kernel\<close>

text \<open>Looking up the name and reading the node gives the contents.\<close>

definition reads_back :: "initrd_symbols \<Rightarrow> initrd_t \<Rightarrow> nat \<Rightarrow> memory \<Rightarrow> uint8 list \<Rightarrow> uint8 list \<Rightarrow> bool" where
  "reads_back sy ir isize m name contents \<longleftrightarrow>
     (\<forall>nm sz buffer. c_string m nm name \<and> unat buffer + unat sz \<le> 4294967296
        \<and> apart_regions buffer (unat sz) (initrd_header ir) isize \<longrightarrow>
        (\<exists>node k m'. finddir_fs (call_finddir sy ir) (initrd_root ir) nm m = Inr node \<and> node \<noteq> 0
           \<and> read_fs (call_read sy ir) node 0 sz buffer m = Inr (k, m')
           \<and> bytes m' buffer (unat k) = take (unat sz) contents \<and> unat k = min (unat sz) (length contents)))"

lemma find_file_distinct:
  "distinct (map fst files) \<Longrightarrow> i < length files \<Longrightarrow> find_file files (fst (files ! i)) k = Some (k + i)"
proof (induction files arbitrary: i k)
  case (Cons f fs)
  show ?case
  proof (cases i)
    case (Suc j)
    have "fst (fs ! j) \<in> fst ` set fs" using Cons.prems(2) Suc by simp
    moreover have "fst f \<notin> fst ` set fs" using Cons.prems(1) by simp
    ultimately have "fst f \<noteq> fst (fs ! j)" by metis
    then show ?thesis using Cons.IH [of j "Suc k"] Cons.prems Suc by simp
  qed simp
qed simp

lemma root_node_not_null:
  assumes "mounted sy ir isize m files" "i < length files"
  shows "root_node_at ir (of_nat i) \<noteq> 0"
proof -
  have lay: "layout_ok ir isize (length files)" and nz: "root_nodes ir \<noteq> 0"
    using assms(1) by (simp_all add: mounted_def)
  have "unat (root_nodes ir) \<noteq> 0" using nz by (simp add: unat_eq_zero)
  then have "unat (root_node_at ir (of_nat i)) \<noteq> 0" using image_addresses(3) [OF lay assms(2)] by simp
  then show ?thesis by auto
qed

lemma mounted_reads_back:
  assumes m: "mounted sy ir isize m files" and i: "i < length files"
    and names: "distinct (map fst files)" "fst (files ! i) \<noteq> dev_name"
  shows "reads_back sy ir isize m (fst (files ! i)) (snd (files ! i))"
  unfolding reads_back_def
proof (intro allI impI)
  fix nm sz buffer :: uint32
  assume a: "c_string m nm (fst (files ! i)) \<and> unat buffer + unat sz \<le> 4294967296
    \<and> apart_regions buffer (unat sz) (initrd_header ir) isize"
  have "find_file files (fst (files ! i)) 0 = Some i" using find_file_distinct [OF names(1) i, of 0] by simp
  then have "finddir_fs (call_finddir sy ir) (initrd_root ir) nm m = Inr (root_node_at ir (of_nat i))"
    using initrd_finddir_find [OF m conjunct1 [OF a]] names(2) by (simp add: find_result_def)
  then show "\<exists>node k m'. finddir_fs (call_finddir sy ir) (initrd_root ir) nm m = Inr node \<and> node \<noteq> 0
      \<and> read_fs (call_read sy ir) node 0 sz buffer m = Inr (k, m')
      \<and> bytes m' buffer (unat k) = take (unat sz) (snd (files ! i)) \<and> unat k = min (unat sz) (length (snd (files ! i)))"
    using read_mounted [OF m i, of 0 sz buffer] root_node_not_null [OF m i] a by (auto simp: min.commute)
qed

text \<open>
  C31: an image made by create_initrd.c from up to 63 files and loaded into memory is
  mounted by initialise_initrd on the kernel heap, and every file of the command line (but
  one called dev) is found by its name and read back with its contents.
\<close>

theorem initrd_round_trip:
  assumes "args_ok fopen args" "stack_headers stack" "distinct (map snd args)"
    and "create_initrd_main fopen stack (command_line prog args) = Inr (0, Some img)"
    and "bytes (mem s) loc (length img) = img" "unat loc + length img < 4294967296"
    and "heap_avail s P (184 + 20 + (184 + 20 + (184 * length args + 20)))" "linked sy (mem s)"
    and "P \<inter> (image_region loc (length img) \<union> literal_region sy) = {}"
    and "literal_region sy \<inter> image_region loc (length img) = {}"
  shows "\<exists>ir s'. initialise_initrd (Suc fuel) sy loc s = Inr (initrd_root ir, ir, s')
    \<and> (\<forall>(path, nm) \<in> set args. nm \<noteq> dev_name \<longrightarrow>
        reads_back sy ir (length img) (mem s') nm (the (fopen path)))"
proof -
  let ?files = "image_files fopen args"
  from create_initrd_image [OF assms(1,2), of prog] assms(4) obtain hs' where
    hs': "stack_headers hs'" "\<forall>j < length args. header_for fopen args j (hs' ! j)"
    "img = le32 (of_nat (length args)) @ concat (map header_bytes hs') @ concat (map snd ?files)" by auto
  have "image_at (mem s) loc (length img) ?files"
    by (rule image_loaded [OF assms(1) hs' assms(5,6)])
  moreover have "heap_avail s P (184 + 20 + (184 + 20 + (184 * length ?files + 20 + 0)))"
    using assms(7) by (simp add: image_files_def)
  ultimately obtain ir s' where r: "initialise_initrd_with (kmalloc (Suc fuel)) sy loc s = Inr (initrd_root ir, ir, s')"
    "mounted sy ir (length img) (mem s') ?files"
    using fresh_heap.initialise_mounts [of s P ?files 0 loc "length img" sy fuel] assms(8-10) by blast
  have names: "distinct (map fst ?files)"
    using assms(3) by (simp add: image_files_def file_of_def comp_def)
  have "reads_back sy ir (length img) (mem s') nm (the (fopen path))"
    if "(path, nm) \<in> set args" "nm \<noteq> dev_name" for path nm
  proof -
    from that(1) obtain i where i: "i < length args" "args ! i = (path, nm)" by (auto simp: in_set_conv_nth)
    then show ?thesis
      using mounted_reads_back [OF r(2), of i] names that(2) by (simp add: image_files_def file_of_def)
  qed
  then show ?thesis using r(1) by (auto simp: initialise_initrd_def)
qed

section \<open>A concrete image\<close>

text \<open>One file, named a, with three bytes; the heap of main above zeroed memory.\<close>

definition demo_fopen :: fopen_t where "demo_fopen path = Some [1, 2, 3]"

definition demo_args :: "(uint8 list \<times> uint8 list) list" where "demo_args = [([112], [97])]"

definition demo_stack :: "image_header_t list" where
  "demo_stack = replicate 64 \<lparr>ih_magic = 0, ih_name = replicate 64 0, ih_padding = [0, 0, 0], ih_offset = 0, ih_length = 0\<rparr>"

definition demo_symbols :: initrd_symbols where
  "demo_symbols = \<lparr>sym_read = 0x10, sym_readdir = 0x20, sym_finddir = 0x30, sym_dirent = 0x300000,
     lit_J = 0x100000, lit_dev = 0x100010\<rparr>"

definition demo_memory :: "uint8 list \<Rightarrow> memory" where
  "demo_memory img = (\<lambda>a. if 0x200000 \<le> unat a \<and> unat a < 0x200000 + length img then img ! (unat a - 0x200000)
     else if a = 0x100000 then 74 else if a = 0x100010 then 100 else if a = 0x100011 then 101
     else if a = 0x100012 then 118 else 0)"

lemma demo_ok: "args_ok demo_fopen demo_args" "stack_headers demo_stack" "distinct (map snd demo_args)"
  by (simp_all add: args_ok_def demo_fopen_def demo_args_def stack_headers_def demo_stack_def file_of_def)

lemma demo_disjoint:
  "{0xC0000000 ..< 0xC0100000} \<inter> (image_region 0x200000 4871 \<union> literal_region demo_symbols) = {}"
  "literal_region demo_symbols \<inter> image_region 0x200000 4871 = {}"
  by (auto simp: image_region_def literal_region_def demo_symbols_def)

lemma demo_image:
  "\<exists>img. create_initrd_main demo_fopen demo_stack (command_line [] demo_args) = Inr (0, Some img)
    \<and> length img = 4871 \<and> bytes (demo_memory img) 0x200000 (length img) = img \<and> linked demo_symbols (demo_memory img)
    \<and> (\<forall>a. unat a \<in> {0xC0000000 ..< 0xC0100000} \<longrightarrow> demo_memory img a = 0)
    \<and> (\<forall>m. bytes m 0x200000 (length img) = img \<longrightarrow> image_at m 0x200000 4871 [([97], [1, 2, 3])])"
proof -
  from create_initrd_image [OF demo_ok(1,2), of "[]"] obtain hs' img where
    img: "create_initrd_main demo_fopen demo_stack (command_line [] demo_args) = Inr (0, Some img)"
    "stack_headers hs'" "\<forall>j < length demo_args. header_for demo_fopen demo_args j (hs' ! j)"
    "img = le32 (of_nat (length demo_args)) @ concat (map header_bytes hs')
        @ concat (map snd (image_files demo_fopen demo_args))" by blast
  have "\<forall>x \<in> set (map header_bytes hs'). length x = 76" "length hs' = 64"
    using img(2) by (auto simp: stack_headers_def header_bytes_def)
  then have len: "length img = 4871"
    using length_concat_fixed [of "map header_bytes hs'" 76]
    by (simp add: img(4) image_files_def demo_args_def file_of_def demo_fopen_def)
  have "bytes (demo_memory img) 0x200000 (length img) = img"
  proof (rule nth_equalityI)
    fix k assume "k < length (bytes (demo_memory img) 0x200000 (length img))"
    then have k: "k < length img" by simp
    then have "unat (0x200000 + of_nat k :: uint32) = 0x200000 + k"
      using unat_plus_of_nat [of "0x200000 :: uint32" k] len by simp
    then show "bytes (demo_memory img) 0x200000 (length img) ! k = img ! k"
      using k by (simp add: demo_memory_def)
  qed simp
  moreover have "linked demo_symbols (demo_memory img)"
    using len by (simp add: linked_def demo_symbols_def demo_memory_def dev_name_def)
  moreover have "image_at m 0x200000 4871 [([97], [1, 2, 3])]" if "bytes m 0x200000 (length img) = img" for m
    using image_loaded [OF demo_ok(1) img(2,3,4) that] len
    by (simp add: image_files_def demo_args_def file_of_def demo_fopen_def)
  ultimately show ?thesis using img(1) len by (intro exI [of _ img]) (auto simp: demo_memory_def)
qed

lemma demo_loaded:
  "\<exists>img s. create_initrd_main demo_fopen demo_stack (command_line [] demo_args) = Inr (0, Some img)
    \<and> length img = 4871 \<and> bytes (mem s) 0x200000 (length img) = img \<and> linked demo_symbols (mem s)
    \<and> heap_avail s {0xC0000000 ..< 0xC0100000} 612 \<and> image_at (mem s) 0x200000 4871 [([97], [1, 2, 3])]"
proof -
  from demo_image obtain img where img: "create_initrd_main demo_fopen demo_stack (command_line [] demo_args) = Inr (0, Some img)"
    "length img = 4871" "bytes (demo_memory img) 0x200000 (length img) = img" "linked demo_symbols (demo_memory img)"
    "\<forall>a. unat a \<in> {0xC0000000 ..< 0xC0100000} \<longrightarrow> demo_memory img a = 0"
    "\<forall>m. bytes m 0x200000 (length img) = img \<longrightarrow> image_at m 0x200000 4871 [([97], [1, 2, 3])]" by blast
  let ?s = "boot_kstate (demo_memory img) 0x106000"
  have "\<exists>h s'. create_heap 1 0xC0000000 0xC0100000 0xCFFFF000 0 0 ?s = Inr (h, s')
      \<and> heap_avail (s'\<lparr>kheap := Some h\<rparr>) {unat (0xC0000000 :: uint32) ..< unat (0xC0100000 :: uint32)} 612
      \<and> mem_eq_on (- {unat (0xC0000000 :: uint32) ..< unat (0xC0100000 :: uint32)}) (mem ?s) (mem s')"
    using img(5) by (intro create_heap_avail) (simp_all add: boot_kstate_def)
  then obtain h s' where s': "heap_avail (s'\<lparr>kheap := Some h\<rparr>) {0xC0000000 ..< 0xC0100000} 612"
    "mem_eq_on (- {0xC0000000 ..< 0xC0100000}) (demo_memory img) (mem s')" by (auto simp: boot_kstate_def)
  have lnk: "linked demo_symbols (mem s')"
    by (rule linked_eq_on [OF img(4) s'(2)]) (auto simp: literal_region_def demo_symbols_def)
  have sub: "{unat (0x200000 :: uint32) ..< unat (0x200000 :: uint32) + length img} \<subseteq> - {0xC0000000 ..< 0xC0100000}"
    using img(2) by auto
  have ld: "bytes (mem s') 0x200000 (length img) = img" using bytes_eq_on [OF s'(2) sub] img(2,3) by simp
  then show ?thesis using img(1,2,6) lnk s'(1)
    by (intro exI [of _ img] exI [of _ "s'\<lparr>kheap := Some h\<rparr>"]) simp
qed

theorem initrd_round_trip_witness:
  "\<exists>img s ir s'. create_initrd_main demo_fopen demo_stack (command_line [] demo_args) = Inr (0, Some img)
    \<and> bytes (mem s) 0x200000 (length img) = img
    \<and> initialise_initrd 1 demo_symbols 0x200000 s = Inr (initrd_root ir, ir, s')
    \<and> reads_back demo_symbols ir (length img) (mem s') [97] [1, 2, 3]"
proof -
  from demo_loaded obtain img s where d:
    "create_initrd_main demo_fopen demo_stack (command_line [] demo_args) = Inr (0, Some img)"
    "length img = 4871" "bytes (mem s) 0x200000 (length img) = img" "linked demo_symbols (mem s)"
    "heap_avail s {0xC0000000 ..< 0xC0100000} 612" by blast
  have "heap_avail s {0xC0000000 ..< 0xC0100000} (184 + 20 + (184 + 20 + (184 * length demo_args + 20)))"
    using d(5) by (simp add: demo_args_def)
  from initrd_round_trip [OF demo_ok d(1,3) _ this d(4), where fuel = 0] d(2) demo_disjoint show ?thesis
    using d(1,3) by (fastforce simp: demo_args_def demo_fopen_def dev_name_def)
qed

lemma demo_mounted: "\<exists>m ir. mounted demo_symbols ir 4871 m [([97], [1, 2, 3])] \<and> initrd_header ir = 0x200000
    \<and> fs_region demo_symbols ir 4871 1 \<subseteq> - {0x300000 ..< 0x400000}"
proof -
  from demo_loaded obtain s where d: "linked demo_symbols (mem s)"
    "heap_avail s {0xC0000000 ..< 0xC0100000} 612" "image_at (mem s) 0x200000 4871 [([97], [1, 2, 3])]" by blast
  have "heap_avail s {0xC0000000 ..< 0xC0100000} (184 + 20 + (184 + 20 + (184 * length [([97 :: uint8], [1, 2, 3 :: uint8])] + 20 + 0)))"
    using d(2) by simp
  from fresh_heap.initialise_mounts [OF this d(3,1), of 0] demo_disjoint obtain ir m0 where
    m: "mounted demo_symbols ir 4871 m0 [([97], [1, 2, 3])]" "initrd_header ir = 0x200000"
    "{unat (root_nodes ir) ..< unat (root_nodes ir) + 184} \<subseteq> {0xC0000000 ..< 0xC0100000}"
    "{unat (initrd_root ir) ..< unat (initrd_root ir) + 184} \<subseteq> {0xC0000000 ..< 0xC0100000}"
    "{unat (initrd_dev ir) ..< unat (initrd_dev ir) + 184} \<subseteq> {0xC0000000 ..< 0xC0100000}"
    by auto
  have far: "{0xC0000000 ..< 0xC0100000} \<subseteq> - {0x300000 ..< 0x400000 :: nat}" by auto
  have "image_region 0x200000 4871 \<subseteq> - {0x300000 ..< 0x400000}"
    "{unat (lit_dev demo_symbols) ..< unat (lit_dev demo_symbols) + 4} \<subseteq> - {0x300000 ..< 0x400000}"
    by (auto simp: image_region_def demo_symbols_def)
  then have "fs_region demo_symbols ir 4871 1 \<subseteq> - {0x300000 ..< 0x400000}"
    unfolding fs_region_def m(2) using m(3-5) far by (simp only: mult_1_right Un_subset_iff) blast
  with m(1,2) show ?thesis by blast
qed

theorem read_fs_reads_file_witness:
  "\<exists>ir m m' node. read_fs (call_read demo_symbols ir) node 1 8 0x300200 m = Inr (2, m') \<and> bytes m' 0x300200 2 = [2, 3]"
proof -
  from demo_mounted obtain m ir where m: "mounted demo_symbols ir 4871 m [([97], [1, 2, 3])]" "initrd_header ir = 0x200000"
    by blast
  have "apart_regions 0x300200 (unat (8 :: size_t)) (initrd_header ir) 4871" by (simp add: apart_regions_def m(2))
  from read_fs_reads_file [OF m(1), of 0 1 8 "0x300200", simplified, OF this [simplified]] obtain k m' where
    "read_fs (call_read demo_symbols ir) (root_node_at ir 0) 1 8 0x300200 m = Inr (k, m')"
    "bytes m' 0x300200 (Suc (Suc 0)) = [2, 3]" "unat k = Suc (Suc 0)" by auto
  moreover from this(3) have "k = 2" by (simp add: word_unat_eq_iff)
  ultimately show ?thesis unfolding numeral_2_eq_2 by (metis numeral_2_eq_2)
qed

text \<open>
  C32: readdir on the root of a mounted file system lists dev at index 0 and the files, in
  the order of the image, from index 1 on; from the index after the last file on it returns
  a null pointer. The entry is a proper string (readdir writes the zero that strcpy leaves
  out), only the static entry is written and the file system stays mounted.
\<close>

theorem readdir_lists_files:
  assumes "mounted sy ir isize m files" "i < 4294967296"
    and "unat (sym_dirent sy) + 132 < 4294967296" "dirent_region sy \<inter> fs_region sy ir isize (length files) = {}"
  shows "\<exists>p m'. readdir_fs (call_readdir sy ir) (initrd_root ir) (of_nat i) m = Inr (p, m')
    \<and> (case listed files i of None \<Rightarrow> p = 0
       | Some nm \<Rightarrow> p = sym_dirent sy \<and> c_string m' p nm)
    \<and> mem_eq_on (- dirent_region sy) m m' \<and> mounted sy ir isize m' files"
proof -
  from readdir_mounted [OF assms] obtain p m' where r:
    "readdir_fs (call_readdir sy ir) (initrd_root ir) (of_nat i) m = Inr (p, m')"
    "case listed files i of None \<Rightarrow> p = 0 \<and> m' = m
       | Some nm \<Rightarrow> p = sym_dirent sy \<and> c_string m' p nm \<and> mem_eq_on (- dirent_region sy) m m'" by blast
  then have eq: "mem_eq_on (- dirent_region sy) m m'" by (auto split: option.splits)
  then have "mounted sy ir isize m' files" by (rule mounted_eq_on [OF assms(1)]) (use assms(4) in blast)
  then show ?thesis using r eq by (auto split: option.splits)
qed

theorem readdir_lists_files_witness:
  "\<exists>ir m m'. readdir_fs (call_readdir demo_symbols ir) (initrd_root ir) 1 m = Inr (0x300000, m')
    \<and> c_string m' 0x300000 [97]"
proof -
  from demo_mounted obtain m ir where m: "mounted demo_symbols ir 4871 m [([97], [1, 2, 3])]"
    "fs_region demo_symbols ir 4871 1 \<subseteq> - {0x300000 ..< 0x400000}" by blast
  have "dirent_region demo_symbols \<subseteq> {0x300000 ..< 0x400000}" by (auto simp: dirent_region_def demo_symbols_def)
  then have "dirent_region demo_symbols \<inter> fs_region demo_symbols ir 4871 (length [([97 :: uint8], [1, 2, 3 :: uint8])]) = {}"
    using m(2) by auto
  from readdir_lists_files [OF m(1) _ _ this, of 1] show ?thesis
    by (auto simp: demo_symbols_def listed_def)
qed

end
