(* ===== verification/Kernel.thy ===== *)
theory Kernel
  imports Interrupts DescriptorTables FileSystem
begin

text \<open>
  src/kernel.c and src/multiboot.h: kernel_main, which puts the components together, and
  its helpers create_filesystem, print_filesystem_contents and test_heap; run_tests and
  force_page_fault, which read through the page translation, are in KernelTests.
\<close>

section \<open>State\<close>

record kernel =
  mach :: machine
  dts :: dt_state
  initrd :: initrd_t
  fs_root :: uint32
  initial_esp :: size_t

definition kmem :: "kernel \<Rightarrow> memory" where "kmem k = mem (ks (mach k))"

definition set_kmem :: "memory \<Rightarrow> kernel \<Rightarrow> kernel" where
  "set_kmem m k = k\<lparr>mach := (mach k)\<lparr>ks := (ks (mach k))\<lparr>mem := m\<rparr>\<rparr>\<rparr>"

definition set_kstate :: "kstate \<Rightarrow> kernel \<Rightarrow> kernel" where
  "set_kstate s k = k\<lparr>mach := (mach k)\<lparr>ks := s\<rparr>\<rparr>"

definition screen_do :: "(monitor_t \<Rightarrow> monitor_t) \<Rightarrow> kernel \<Rightarrow> kernel" where
  "screen_do f k = k\<lparr>mach := (mach k)\<lparr>mon := f (mon (mach k))\<rparr>\<rparr>"

text \<open>act_itr and deact_itr: sti and cli.\<close>

definition act_itr :: "kernel \<Rightarrow> kernel" where
  "act_itr k = k\<lparr>mach := (mach k)\<lparr>interrupts_on := True\<rparr>\<rparr>"

definition deact_itr :: "kernel \<Rightarrow> kernel" where
  "deact_itr k = k\<lparr>mach := (mach k)\<lparr>interrupts_on := False\<rparr>\<rparr>"

lemma kernel_simps [simp]:
  "kmem (set_kmem m k) = m" "kmem (screen_do f k) = kmem k" "kmem (act_itr k) = kmem k" "kmem (deact_itr k) = kmem k"
  "mon (mach (set_kmem m k)) = mon (mach k)" "mon (mach (screen_do f k)) = f (mon (mach k))"
  "mon (mach (act_itr k)) = mon (mach k)" "mon (mach (deact_itr k)) = mon (mach k)"
  "fs_root (set_kmem m k) = fs_root k" "fs_root (screen_do f k) = fs_root k" "fs_root (deact_itr k) = fs_root k"
  "initrd (set_kmem m k) = initrd k" "initrd (screen_do f k) = initrd k" "initrd (deact_itr k) = initrd k"
  by (simp_all add: kmem_def set_kmem_def screen_do_def act_itr_def deact_itr_def)

text \<open>The characters a char pointer stands for when they are written to the screen.\<close>

definition string_at :: "memory \<Rightarrow> uint32 \<Rightarrow> kerror + uint8 list" where
  "string_at m p = res_bind (returns (strlen m p)) (\<lambda>n. Inr (bytes m p (unat n)))"

definition newline :: char where "newline = CHR 0x0A"
definition tab :: char where "tab = CHR 0x09"
definition quote :: char where "quote = CHR 0x22"

section \<open>create_filesystem\<close>

text \<open>struct multiboot, packed: 32-bit fields one behind the other.\<close>

record multiboot =
  mb_flags :: size_t
  mb_mem_lower :: size_t
  mb_mem_upper :: size_t
  mb_boot_device :: size_t
  mb_cmdline :: size_t
  mb_mods_count :: size_t
  mb_mods_addr :: size_t
  mb_num :: size_t
  mb_size :: size_t
  mb_addr :: size_t
  mb_shndx :: size_t
  mb_mmap_length :: size_t
  mb_mmap_addr :: size_t
  mb_drives_length :: size_t
  mb_drives_addr :: size_t
  mb_config_table :: size_t
  mb_boot_loader_name :: size_t
  mb_apm_table :: size_t
  mb_vbe_control_info :: size_t
  mb_vbe_mode_info :: size_t
  mb_vbe_mode :: size_t
  mb_vbe_interface_seg :: size_t
  mb_vbe_interface_off :: size_t
  mb_vbe_interface_len :: size_t

definition load_multiboot :: "memory \<Rightarrow> uint32 \<Rightarrow> multiboot" where
  "load_multiboot m p = (let field = (\<lambda>i. rd32 m (p + 4 * i)) in
     \<lparr>mb_flags = field 0, mb_mem_lower = field 1, mb_mem_upper = field 2, mb_boot_device = field 3,
      mb_cmdline = field 4, mb_mods_count = field 5, mb_mods_addr = field 6, mb_num = field 7,
      mb_size = field 8, mb_addr = field 9, mb_shndx = field 10, mb_mmap_length = field 11,
      mb_mmap_addr = field 12, mb_drives_length = field 13, mb_drives_addr = field 14,
      mb_config_table = field 15, mb_boot_loader_name = field 16, mb_apm_table = field 17,
      mb_vbe_control_info = field 18, mb_vbe_mode_info = field 19, mb_vbe_mode = field 20,
      mb_vbe_interface_seg = field 21, mb_vbe_interface_off = field 22,
      mb_vbe_interface_len = field 23\<rparr>)"

definition mods_count :: "memory \<Rightarrow> uint32 \<Rightarrow> size_t" where "mods_count m p = mb_mods_count (load_multiboot m p)"
definition mods_addr :: "memory \<Rightarrow> uint32 \<Rightarrow> size_t" where "mods_addr m p = mb_mods_addr (load_multiboot m p)"

definition create_filesystem :: "uint32 \<Rightarrow> kstate \<Rightarrow> kerror + size_t \<times> kstate" where
  "create_filesystem mboot_ptr s =
     res_bind (ASSERT (mods_count (mem s) mboot_ptr > 0) ''mboot_ptr->mods_count > 0'') (\<lambda>_.
       let initrd_location = rd32 (mem s) (mods_addr (mem s) mboot_ptr);
           initrd_end = rd32 (mem s) (mods_addr (mem s) mboot_ptr + 4)
       in Inr (initrd_location, s\<lparr>placement_address := initrd_end\<rparr>))"

section \<open>print_filesystem_contents\<close>

text \<open>\<open>buf\<close> is the address of the local array.\<close>

fun print_loop :: "nat \<Rightarrow> initrd_symbols \<Rightarrow> uint32 \<Rightarrow> size_t \<Rightarrow> kernel \<Rightarrow> kerror + kernel" where
  "print_loop 0 sy buf i k = Inl OutOfFuel"
| "print_loop (Suc fuel) sy buf i k =
     res_bind (readdir_fs (call_readdir sy (initrd k)) (fs_root k) i (kmem k)) (\<lambda>(node, m1).
     if node = 0 then Inr (set_kmem m1 k)
     else
       res_bind (string_at m1 (dirent_name node)) (\<lambda>name.
       res_bind (finddir_fs (call_finddir sy (initrd k)) (fs_root k) (dirent_name node) m1) (\<lambda>fsnode.
         let k1 = screen_do (\<lambda>s. monitor_write_sys name (monitor_write (cstr ''Found file '') s)) (set_kmem m1 k)
         in if node_flags m1 fsnode AND 0x7 = FS_DIRECTORY then
              print_loop fuel sy buf (i + 1)
                (screen_do (monitor_write_sys (cstr ([newline, tab] @ ''(directory)'' @ [newline]))) k1)
            else
              res_bind (read_fs (call_read sy (initrd k)) fsnode 0 256 buf m1) (\<lambda>(sz, m2).
                print_loop fuel sy buf (i + 1)
                  (screen_do (\<lambda>s. monitor_write_sys (cstr [quote, newline])
                     (fold monitor_put (bytes m2 buf (unat sz))
                        (monitor_write_sys (cstr ([newline, tab] @ '' contents: '' @ [quote])) s)))
                     (set_kmem m2 k1))))))"

definition print_filesystem_contents :: "nat \<Rightarrow> initrd_symbols \<Rightarrow> uint32 \<Rightarrow> kernel \<Rightarrow> kerror + kernel" where
  "print_filesystem_contents fuel sy buf k0 =
     (let k1 = deact_itr k0;
          k2 = (if fs_root k1 = 0
                then screen_do (monitor_write (cstr ([newline] @ ''No filesystem found'' @ [newline]))) k1 else k1)
      in res_bind (print_loop fuel sy buf 0 k2) (\<lambda>k3.
           Inr (act_itr (screen_do (monitor_write (cstr [newline])) k3))))"

section \<open>test_heap\<close>

definition test_heap :: "nat \<Rightarrow> kernel \<Rightarrow> kerror + kernel" where
  "test_heap fuel k =
     res_bind (kmalloc fuel 8 (ks (mach k))) (\<lambda>(a, s1).
     res_bind (initialise_paging fuel s1) (\<lambda>s2.
     res_bind (kmalloc fuel 8 s2) (\<lambda>(b, s3).
     res_bind (kmalloc fuel 8 s3) (\<lambda>(c, s4).
     let k4 = screen_do (\<lambda>s. monitor_write_hex c (monitor_write (cstr ([newline] @ ''c: ''))
                (monitor_write_hex b (monitor_write (cstr '', b: '')
                  (monitor_write_hex a (monitor_write (cstr ''a: '') s)))))) (set_kstate s4 k)
     in res_bind (kfree c s4) (\<lambda>s5.
        res_bind (kfree b s5) (\<lambda>s6.
        res_bind (kmalloc fuel 12 s6) (\<lambda>(d, s7).
          Inr (screen_do (\<lambda>s. monitor_write (cstr [newline]) (monitor_write_hex d (monitor_write (cstr '', d: '') s)))
                 (set_kstate s7 k4)))))))))"

section \<open>kernel_main\<close>

text \<open>
  What the linker and the boot loader give: the addresses of the tables, of the stubs and of
  the local array of print_filesystem_contents.
\<close>

record link_map =
  gdt_addr :: size_t
  idt_addr :: size_t
  isr_stub :: "nat \<Rightarrow> size_t"
  irq_stub :: "nat \<Rightarrow> size_t"
  fs_symbols :: initrd_symbols
  print_buf :: uint32

definition kernel_main :: "nat \<Rightarrow> link_map \<Rightarrow> uint32 \<Rightarrow> size_t \<Rightarrow> kernel \<Rightarrow> kerror + kernel" where
  "kernel_main fuel lm mboot_ptr initial_stack k0 =
     (let (d1, s1) = init_descriptor_tables (isr_stub lm) (irq_stub lm) (gdt_addr lm) (idt_addr lm)
            (dts k0, ks (mach k0));
          k1 = screen_do monitor_clear (set_kstate s1 (k0\<lparr>initial_esp := initial_stack, dts := d1\<rparr>))
      in res_bind (create_filesystem mboot_ptr (ks (mach k1))) (\<lambda>(initrd_location, s2).
         res_bind (initialise_paging fuel s2) (\<lambda>s3.
         res_bind (initialise_initrd fuel (fs_symbols lm) initrd_location s3) (\<lambda>(root, ir, s4).
           let k4 = (set_kstate s4 k1)\<lparr>fs_root := root, initrd := ir\<rparr>;
               k5 = act_itr (k4\<lparr>mach := install_keyboard_driver (mach k4)\<rparr>);
               k6 = screen_do (\<lambda>s. monitor_write (cstr ([newline] @ ''=========================='' @ [newline]))
                      (monitor_write (cstr (''Welcome to Josue's Panda OS'' @ [newline])) s)) k5
           in print_filesystem_contents fuel (fs_symbols lm) (print_buf lm) k6))))"

section \<open>What print_filesystem_contents shows\<close>

definition show_name :: "uint8 list \<Rightarrow> monitor_t \<Rightarrow> monitor_t" where
  "show_name name s = monitor_write_sys name (monitor_write (cstr ''Found file '') s)"

definition show_dir :: "uint8 list \<Rightarrow> monitor_t \<Rightarrow> monitor_t" where
  "show_dir name s = monitor_write_sys (cstr ([newline, tab] @ ''(directory)'' @ [newline])) (show_name name s)"

text \<open>A file: its name and at most 256 bytes of its contents, every byte as it is.\<close>

definition show_file :: "named_file \<Rightarrow> monitor_t \<Rightarrow> monitor_t" where
  "show_file f s = monitor_write_sys (cstr [quote, newline])
     (fold monitor_put (take 256 (snd f))
        (monitor_write_sys (cstr ([newline, tab] @ '' contents: '' @ [quote])) (show_name (fst f) s)))"

lemma string_at_string: "c_string m p nm \<Longrightarrow> string_at m p = Inr nm"
  using c_string_length [of m p nm] by (simp add: string_at_def strlen_string unat_of_nat32 c_string_iff)

text \<open>The local array and the static entry lie outside the file system and apart.\<close>

definition print_layout :: "initrd_symbols \<Rightarrow> initrd_t \<Rightarrow> nat \<Rightarrow> nat \<Rightarrow> uint32 \<Rightarrow> bool" where
  "print_layout sy ir isize n buf \<longleftrightarrow>
     unat buf + 256 < 4294967296 \<and> unat (sym_dirent sy) + 132 < 4294967296 \<and> sym_dirent sy \<noteq> 0
     \<and> (dirent_region sy \<union> {unat buf ..< unat buf + 256}) \<inter> fs_region sy ir isize n = {}"

text \<open>The state between two iterations.\<close>

definition printing :: "initrd_symbols \<Rightarrow> nat \<Rightarrow> named_file list \<Rightarrow> uint32 \<Rightarrow> kernel \<Rightarrow> bool" where
  "printing sy isize files buf k \<longleftrightarrow>
     mounted sy (initrd k) isize (kmem k) files \<and> fs_root k = initrd_root (initrd k)
     \<and> print_layout sy (initrd k) isize (length files) buf"

lemma printing_keep:
  assumes "printing sy isize files buf k" "mem_eq_on (- (dirent_region sy \<union> {unat buf ..< unat buf + 256})) (kmem k) m"
    "kmem k' = m" "initrd k' = initrd k" "fs_root k' = fs_root k"
  shows "printing sy isize files buf k'"
proof -
  have "mounted sy (initrd k) isize m files"
    using assms(1) by (intro mounted_eq_on [OF _ assms(2)]) (auto simp: printing_def print_layout_def)
  then show ?thesis using assms(1,3-5) by (simp add: printing_def)
qed

lemma printing_readdir:
  assumes p: "printing sy isize files buf k" and i: "i \<le> length files + 1"
  shows "\<exists>q m1. readdir_fs (call_readdir sy (initrd k)) (fs_root k) (of_nat i) (kmem k) = Inr (q, m1)
    \<and> mem_eq_on (- dirent_region sy) (kmem k) m1 \<and> mounted sy (initrd k) isize m1 files
    \<and> (case listed files i of None \<Rightarrow> q = 0 | Some nm \<Rightarrow> q = sym_dirent sy \<and> q \<noteq> 0 \<and> c_string m1 q nm)"
proof -
  have m: "mounted sy (initrd k) isize (kmem k) files" and r: "fs_root k = initrd_root (initrd k)"
    and d: "unat (sym_dirent sy) + 132 < 4294967296" "sym_dirent sy \<noteq> 0"
      "dirent_region sy \<inter> fs_region sy (initrd k) isize (length files) = {}"
    using p by (auto simp: printing_def print_layout_def)
  have "length files \<le> 64" using m by (simp add: mounted_def layout_ok_def)
  then have "i < 4294967296" using i by simp
  from readdir_mounted [OF m this d(1,3)] obtain q m1 where q:
    "readdir_fs (call_readdir sy (initrd k)) (initrd_root (initrd k)) (of_nat i) (kmem k) = Inr (q, m1)"
    "case listed files i of None \<Rightarrow> q = 0 \<and> m1 = kmem k
       | Some nm \<Rightarrow> q = sym_dirent sy \<and> c_string m1 q nm \<and> mem_eq_on (- dirent_region sy) (kmem k) m1" by blast
  then have eq: "mem_eq_on (- dirent_region sy) (kmem k) m1" by (auto split: option.splits)
  then have "mounted sy (initrd k) isize m1 files" by (rule mounted_eq_on [OF m]) (use d(3) in blast)
  then show ?thesis using q eq d(2) r by (auto split: option.splits)
qed

lemma print_dir_step:
  assumes p: "printing sy isize files buf k"
  shows "\<exists>k'. print_loop (Suc fuel) sy buf 0 k = print_loop fuel sy buf 1 k'
    \<and> printing sy isize files buf k' \<and> mon (mach k') = show_dir dev_name (mon (mach k))"
proof -
  from printing_readdir [OF p, of 0] obtain m1 where r:
    "readdir_fs (call_readdir sy (initrd k)) (fs_root k) 0 (kmem k) = Inr (sym_dirent sy, m1)"
    "mem_eq_on (- dirent_region sy) (kmem k) m1" "mounted sy (initrd k) isize m1 files"
    "sym_dirent sy \<noteq> 0" "c_string m1 (sym_dirent sy) dev_name" by (auto simp: listed_def)
  have fd: "finddir_fs (call_finddir sy (initrd k)) (fs_root k) (sym_dirent sy) m1 = Inr (initrd_dev (initrd k))"
    using initrd_finddir_find [OF r(3,5)] p by (simp add: printing_def)
  have "node_flags m1 (initrd_dev (initrd k)) = FS_DIRECTORY" using r(3) by (simp add: mounted_def dir_mounted_def)
  then have fl: "node_flags m1 (initrd_dev (initrd k)) AND 0x7 = FS_DIRECTORY" by (simp add: FS_DIRECTORY_def)
  let ?k' = "screen_do (show_dir dev_name) (set_kmem m1 k)"
  have "print_loop (Suc fuel) sy buf 0 k = print_loop fuel sy buf 1 ?k'"
    using r(1,4) fd fl string_at_string [OF r(5)]
    by (simp add: dirent_name_def Let_def screen_do_def show_dir_def show_name_def comp_def)
  moreover have "printing sy isize files buf ?k'"
    by (rule printing_keep [OF p mem_eq_on_mono [OF r(2)]]) auto
  ultimately show ?thesis by (intro exI [of _ ?k']) simp
qed

lemma print_file_step:
  assumes p: "printing sy isize files buf k" and j: "j < length files"
    and names: "distinct (map fst files)" "dev_name \<notin> fst ` set files"
  shows "\<exists>k'. print_loop (Suc fuel) sy buf (of_nat (Suc j)) k = print_loop fuel sy buf (of_nat (Suc (Suc j))) k'
    \<and> printing sy isize files buf k' \<and> mon (mach k') = show_file (files ! j) (mon (mach k))"
proof -
  let ?f = "files ! j" and ?ir = "initrd k"
  have "listed files (Suc j) = Some (fst ?f)" using j by (simp add: listed_def)
  then obtain m1 where r:
    "readdir_fs (call_readdir sy ?ir) (fs_root k) (of_nat (Suc j)) (kmem k) = Inr (sym_dirent sy, m1)"
    "mem_eq_on (- dirent_region sy) (kmem k) m1" "mounted sy ?ir isize m1 files"
    "sym_dirent sy \<noteq> 0" "c_string m1 (sym_dirent sy) (fst ?f)"
    using printing_readdir [OF p, of "Suc j"] j by auto
  have "fst ?f \<noteq> dev_name" using names(2) j by (metis imageI nth_mem)
  then have fd: "finddir_fs (call_finddir sy ?ir) (fs_root k) (sym_dirent sy) m1 = Inr (root_node_at ?ir (of_nat j))"
    using initrd_finddir_find [OF r(3,5)] find_file_distinct [OF names(1) j, of 0] p
    by (simp add: printing_def find_result_def)
  have "node_flags m1 (root_node_at ?ir (of_nat j)) = FS_FILE"
    using r(3) j by (simp add: mounted_def file_mounted_def Let_def)
  then have fl: "node_flags m1 (root_node_at ?ir (of_nat j)) AND 0x7 \<noteq> FS_DIRECTORY"
    by (simp add: FS_FILE_def FS_DIRECTORY_def)
  have b: "unat buf + 256 < 4294967296" "image_region (initrd_header ?ir) isize \<inter> {unat buf ..< unat buf + 256} = {}"
    using p unfolding printing_def print_layout_def fs_region_def by blast+
  have "4868 \<le> isize" using r(3) by (simp add: mounted_def layout_ok_def)
  then have "apart_regions buf 256 (initrd_header ?ir) isize"
    using b(2) unfolding apart_regions_def by (intro disjoint_intervals_apart) (auto simp: image_region_def)
  then obtain sz m2 where rd: "read_fs (call_read sy ?ir) (root_node_at ?ir (of_nat j)) 0 256 buf m1 = Inr (sz, m2)"
    "bytes m2 buf (unat sz) = take 256 (snd ?f)" "mem_eq_on (- {unat buf ..< unat buf + 256}) m1 m2"
    using read_mounted [OF r(3) j, of 0 256 buf] b(1) by auto
  let ?k' = "screen_do (show_file ?f) (set_kmem m2 k)"
  have "print_loop (Suc fuel) sy buf (of_nat (Suc j)) k = print_loop fuel sy buf (of_nat (Suc (Suc j))) ?k'"
    using r(1,4) fd fl string_at_string [OF r(5)] rd(1,2)
    by (simp add: dirent_name_def Let_def screen_do_def set_kmem_def show_file_def show_name_def comp_def add.commute)
  moreover have "mem_eq_on (- (dirent_region sy \<union> {unat buf ..< unat buf + 256})) (kmem k) m2"
    by (rule mem_eq_on_trans [OF mem_eq_on_mono [OF r(2)] mem_eq_on_mono [OF rd(3)]]) auto
  then have "printing sy isize files buf ?k'" by (rule printing_keep [OF p]) simp_all
  ultimately show ?thesis by (intro exI [of _ ?k']) simp
qed

lemma print_files:
  assumes names: "distinct (map fst files)" "dev_name \<notin> fst ` set files"
  shows "printing sy isize files buf k \<Longrightarrow> j \<le> length files \<Longrightarrow> length files - j < fuel
    \<Longrightarrow> \<exists>k'. print_loop fuel sy buf (of_nat (Suc j)) k = Inr k' \<and> printing sy isize files buf k'
      \<and> mon (mach k') = fold show_file (drop j files) (mon (mach k))"
proof (induction fuel arbitrary: j k)
  case (Suc fuel)
  show ?case
  proof (cases "j = length files")
    case True
    then have "listed files (Suc j) = None" by (simp add: listed_def)
    then obtain m1 where r: "readdir_fs (call_readdir sy (initrd k)) (fs_root k) (of_nat (Suc j)) (kmem k) = Inr (0, m1)"
      "mem_eq_on (- dirent_region sy) (kmem k) m1"
      using printing_readdir [OF Suc.prems(1), of "Suc j"] True by auto
    have "printing sy isize files buf (set_kmem m1 k)"
      by (rule printing_keep [OF Suc.prems(1) mem_eq_on_mono [OF r(2)]]) auto
    then show ?thesis using r(1) True by simp
  next
    case False
    then have j: "j < length files" using Suc.prems(2) by simp
    from print_file_step [OF Suc.prems(1) j names, of fuel] obtain k' where k':
      "print_loop (Suc fuel) sy buf (of_nat (Suc j)) k = print_loop fuel sy buf (of_nat (Suc (Suc j))) k'"
      "printing sy isize files buf k'" "mon (mach k') = show_file (files ! j) (mon (mach k))" by blast
    have "Suc j \<le> length files" "length files - Suc j < fuel" using j Suc.prems(3) by simp_all
    from Suc.IH [OF k'(2) this] show ?thesis
      unfolding k'(1) using k'(3) by (simp only: Cons_nth_drop_Suc [OF j, symmetric] fold_Cons comp_apply)
  qed
qed simp

text \<open>
  The whole listing: with a mounted file system of files with different names, none of them dev,
  print_filesystem_contents ends and has written the directory dev, then every file of the
  image in order with its name and the first 256 bytes of its contents, and a line end; the
  file system is still mounted and interrupts are on.
\<close>

lemma print_filesystem_mounted:
  assumes "mounted sy (initrd k) isize (kmem k) files" "fs_root k = initrd_root (initrd k)"
    and "print_layout sy (initrd k) isize (length files) buf"
    and "distinct (map fst files)" "dev_name \<notin> fst ` set files" "length files + 2 \<le> fuel"
  shows "\<exists>k'. print_filesystem_contents fuel sy buf k = Inr k'
    \<and> mon (mach k') = monitor_write (cstr [newline]) (fold show_file files (show_dir dev_name (mon (mach k))))
    \<and> mounted sy (initrd k') isize (kmem k') files \<and> interrupts_on (mach k')"
proof -
  obtain f where f: "fuel = Suc f" "length files - 0 < f" using assms(6) by (cases fuel) auto
  have "printing sy isize files buf (deact_itr k)" using assms(1-3) by (simp add: printing_def)
  from print_dir_step [OF this, of f] obtain k1 where k1:
    "print_loop fuel sy buf 0 (deact_itr k) = print_loop f sy buf 1 k1" "printing sy isize files buf k1"
    "mon (mach k1) = show_dir dev_name (mon (mach k))" by (auto simp: f(1))
  from print_files [OF assms(4,5) k1(2) _ f(2)] obtain k2 where k2:
    "print_loop f sy buf 1 k1 = Inr k2" "printing sy isize files buf k2"
    "mon (mach k2) = fold show_file files (mon (mach k1))" by auto
  have "fs_root (deact_itr k) \<noteq> 0" using assms(1,2) by (simp add: mounted_def)
  then have "print_filesystem_contents fuel sy buf k = Inr (act_itr (screen_do (monitor_write (cstr [newline])) k2))"
    using k1(1) k2(1) by (simp add: print_filesystem_contents_def Let_def)
  then show ?thesis using k2(2,3) k1(3)
    by (simp add: printing_def act_itr_def screen_do_def kmem_def)
qed

end
