(* ===== verification/PageMap.thy ===== *)
theory PageMap
  imports PageInit FrameBitmap
begin

text \<open>
  The loops of initialise_paging: get_page finds or makes the page table, and map_page gives
  page after page the next frame.
\<close>

section \<open>Addresses\<close>

lemma page_address:
  assumes "k < 1048576"
  shows "unat (frame_address_of k) = k * 4096" "frame_address_of k div 0x1000 = of_nat k"
    "of_nat k div (1024 :: uint32) = of_nat (k div 1024)" "of_nat k mod (1024 :: uint32) = of_nat (k mod 1024)"
proof -
  have u: "unat (of_nat k :: uint32) = k" using assms by (intro unat_of_nat32) simp
  show "unat (frame_address_of k) = k * 4096"
    using assms u unfolding frame_address_of_def by (subst unat_mult_lem [THEN iffD1]) simp_all
  show "frame_address_of k div 0x1000 = of_nat k" by (rule frame_word(1) [OF assms])
  have "unat (of_nat (k div 1024) :: uint32) = k div 1024" "unat (of_nat (k mod 1024) :: uint32) = k mod 1024"
    using assms by (intro unat_of_nat32; linarith)+
  then show "of_nat k div (1024 :: uint32) = of_nat (k div 1024)" "of_nat k mod (1024 :: uint32) = of_nat (k mod 1024)"
    by (simp_all add: word_unat_eq_iff unat_div unat_mod u)
qed

lemma page_address_Suc: "frame_address_of k + 0x1000 = frame_address_of (Suc k)"
  by (simp add: frame_address_of_def algebra_simps)

lemma page_address_less:
  "k < 1048576 \<Longrightarrow> k' < 1048576 \<Longrightarrow> frame_address_of k < frame_address_of k' \<longleftrightarrow> k < k'"
  by (simp add: word_less_nat_alt page_address)

text \<open>The next page boundary, as the placement allocator computes it.\<close>

definition page_aligned :: "uint32 \<Rightarrow> uint32" where
  "page_aligned p = (if p AND 0xFFF \<noteq> 0 then (p AND 0xFFFFF000) + 0x1000 else p)"

lemma and_page_mask: "p AND 0xFFFFF000 = (p :: uint32) - p mod 0x1000"
proof -
  have "(p AND 0xFFF) AND (p AND 0xFFFFF000) = p AND (0xFFF AND 0xFFFFF000)"
    by (rule bit_word_eqI) (auto simp only: bit_and_iff)
  then have "(p AND 0xFFF) + (p AND 0xFFFFF000) = (p AND 0xFFF) OR (p AND 0xFFFFF000)"
    by (intro disjunctive_add_eq_or) simp
  also have "\<dots> = p AND (0xFFF OR 0xFFFFF000)" by (rule bit_word_eqI) (auto simp only: bit_and_iff bit_or_iff)
  also have "(0xFFF OR 0xFFFFF000 :: uint32) = -1" by simp
  finally show ?thesis by (simp add: and_0xFFF algebra_simps eq_diff_eq)
qed

lemma page_aligned_nat:
  assumes "unat p + 4096 < 4294967296"
  shows "page_aligned p AND 0xFFF = 0" "unat p \<le> unat (page_aligned p)" "unat (page_aligned p) < unat p + 4096"
proof -
  define n r where "n = unat p" and "r = n mod 4096"
  have m: "unat (p mod 0x1000) = r" by (simp add: unat_mod r_def n_def)
  have r: "r < 4096" "r \<le> n" "n - r = 4096 * (n div 4096)"
    by (simp_all add: r_def minus_mod_eq_mult_div)
  have "p mod 0x1000 \<le> p" using r(2) m by (simp add: word_le_nat_alt n_def)
  then have low: "unat (p AND 0xFFFFF000) = n - r"
    unfolding and_page_mask using m by (simp add: unat_sub n_def)
  have "(p AND 0xFFF \<noteq> 0) \<longleftrightarrow> r \<noteq> 0" unfolding and_0xFFF m [symmetric] by (simp add: unat_eq_0)
  moreover have "unat ((p AND 0xFFFFF000) + 0x1000) = n - r + 4096"
    using unat_plus_of_nat [of "p AND 0xFFFFF000" 4096] assms low by (simp add: n_def)
  ultimately have e: "unat (page_aligned p) = (if r \<noteq> 0 then n - r + 4096 else n)"
    by (simp add: page_aligned_def n_def)
  show "unat p \<le> unat (page_aligned p)" "unat (page_aligned p) < unat p + 4096"
    unfolding e n_def [symmetric] using r(1,2) by auto
  have "unat (page_aligned p) mod 4096 = 0" unfolding e r(3) by (auto simp: r_def)
  then have "unat (page_aligned p mod 0x1000) = 0" by (simp add: unat_mod)
  then show "page_aligned p AND 0xFFF = 0" by (simp add: and_0xFFF unat_eq_0)
qed

lemma kmalloc_int_placement:
  assumes "kheap s = None"
  shows "kmalloc_ap fuel sz s = Inr (page_aligned (placement_address s), page_aligned (placement_address s),
      s\<lparr>placement_address := page_aligned (placement_address s) + sz\<rparr>)"
    and "kmalloc_a fuel sz s = Inr (page_aligned (placement_address s),
      s\<lparr>placement_address := page_aligned (placement_address s) + sz\<rparr>)"
  using assms by (simp_all add: kmalloc_ap_def kmalloc_a_def drop_phys_def kmalloc_int_def kmalloc_int_with_def
      placement_alloc_def page_aligned_def PAGE_SIZE_def Let_def)

section \<open>get_page\<close>

lemma get_page_with_present:
  assumes "k < 1048576" "rd32 (mem s) (tables_entry dir (of_nat (k div 1024))) = t" "t \<noteq> 0"
  shows "get_page_with kap (frame_address_of k) mk dir s = Inr (t + 4 * of_nat (k mod 1024), s)"
  using assms(2,3) by (simp add: get_page_with_def page_address [OF assms(1)] Let_def)

lemma get_page_present:
  assumes "k < 1048576" "rd32 (mem s) (tables_entry dir (of_nat (k div 1024))) = t" "t \<noteq> 0"
  shows "get_page fuel (frame_address_of k) mk dir s = Inr (t + 4 * of_nat (k mod 1024), s)"
  unfolding get_page_def by (rule get_page_with_present [OF assms])

lemma entry_addresses:
  assumes "unat dir + 8196 \<le> 4294967296" "i < 1024"
  shows "unat (tables_entry dir (of_nat i)) = unat dir + 4 * i"
    and "unat (tables_physical_entry dir (of_nat i)) = unat dir + 4096 + 4 * i"
proof -
  show "unat (tables_entry dir (of_nat i)) = unat dir + 4 * i"
    unfolding tables_entry_def using assms by (intro unat_word_index) simp
  have "unat (dir + of_nat (4096 + 4 * i)) = unat dir + (4096 + 4 * i)"
    using assms by (intro unat_plus_of_nat) simp
  then show "unat (tables_physical_entry dir (of_nat i)) = unat dir + 4096 + 4 * i"
    by (simp add: tables_physical_entry_def add.assoc)
qed

text \<open>The table is missing, and the placement allocator makes it.\<close>

lemma get_page_new:
  assumes k: "k < 1048576" and i: "i = k div 1024" and nk: "kheap s = None"
    and missing: "rd32 (mem s) (tables_entry dir (of_nat i)) = 0"
    and t: "t = page_aligned (placement_address s)" "t \<noteq> 0" "unat dir + 8196 \<le> unat t" "unat t + 4096 \<le> 4294967296"
  shows "\<exists>m'. get_page fuel (frame_address_of k) True dir s = Inr (t + 4 * of_nat (k mod 1024),
      s\<lparr>mem := m', placement_address := t + 0x1000\<rparr>)
    \<and> rd32 m' (tables_entry dir (of_nat i)) = t \<and> rd32 m' (tables_physical_entry dir (of_nat i)) = t OR 7
    \<and> (\<forall>j < 1024. rd32 m' (t + 4 * of_nat j) = 0)
    \<and> mem_eq_on (- ({unat dir + 4 * i ..< unat dir + 4 * i + 4} \<union> {unat dir + 4096 + 4 * i ..< unat dir + 4096 + 4 * i + 4}
        \<union> {unat t ..< unat t + 4096})) (mem s) m'"
proof -
  let ?e = "tables_entry dir (of_nat i)" and ?p = "tables_physical_entry dir (of_nat i)"
  have i': "i < 1024" using k i by simp
  have d: "unat dir + 8196 \<le> 4294967296" using t(3,4) by linarith
  note a = entry_addresses [OF d i']
  let ?m1 = "wr32 (mem s) ?e t"
  let ?m2 = "memset ?m1 t 0 0x1000"
  let ?m3 = "wr32 ?m2 ?p (t OR 7)"
  have e1: "mem_eq_on (- {unat ?e ..< unat ?e + 4}) (mem s) ?m1"
    using a d i' by (intro mem_eq_on_wr32) auto
  have e2: "mem_eq_on (- {unat t ..< unat t + 4096}) ?m1 ?m2"
    using memset_outside [of t "0x1000" ?m1 0] t(4) by simp
  have e3: "mem_eq_on (- {unat ?p ..< unat ?p + 4}) ?m2 ?m3"
    using a d i' by (intro mem_eq_on_wr32) auto
  have "rd32 ?m2 ?e = rd32 ?m1 ?e"
    using a t(3) i' d by (intro mem_eq_on_rd32 [OF e2]) auto
  moreover have "rd32 ?m3 ?e = rd32 ?m2 ?e"
    using a i' d by (intro mem_eq_on_rd32 [OF e3]) auto
  ultimately have re: "rd32 ?m3 ?e = t" by simp
  have z: "rd32 ?m3 (t + 4 * of_nat j) = 0" if "j < 1024" for j
  proof -
    have u: "unat (t + 4 * of_nat j) = unat t + 4 * j"
      using that t(4) by (intro unat_word_index) simp
    have "rd32 ?m3 (t + 4 * of_nat j) = rd32 ?m2 (t + 4 * of_nat j)"
      using that t(3,4) a i' by (intro mem_eq_on_rd32 [OF e3]) (auto simp: u)
    also have "\<dots> = 0" using that t(4) u by (intro memset_zero_rd32) simp_all
    finally show ?thesis .
  qed
  have "mem_eq_on (- ({unat dir + 4 * i ..< unat dir + 4 * i + 4} \<union> {unat dir + 4096 + 4 * i ..< unat dir + 4096 + 4 * i + 4}
      \<union> {unat t ..< unat t + 4096})) (mem s) ?m3"
    using e1 e2 e3 unfolding a by (auto simp: mem_eq_on_def)
  moreover have "get_page fuel (frame_address_of k) True dir s =
      Inr (t + 4 * of_nat (k mod 1024), s\<lparr>mem := ?m3, placement_address := t + 0x1000\<rparr>)"
    using missing re
    by (simp add: get_page_def get_page_with_def page_address [OF k] kmalloc_int_placement [OF nk] Let_def flip: i t(1))
  ultimately show ?thesis using re z by (intro exI [of _ ?m3]) simp
qed

section \<open>Mapping page after page\<close>

text \<open>
  The state while the kernel maps its pages: the first \<open>n\<close> frames of the first 1024 are in use,
  and the part of the bitmap for these (128 bytes) lies in front of the directory; while
  initialise_paging runs there is no heap yet.
\<close>

definition frame_map :: "kstate \<Rightarrow> nat \<Rightarrow> bool" where
  "frame_map s n \<longleftrightarrow> frame_count s = 4096
     \<and> unat (frames s) + 128 \<le> unat (kernel_directory s) \<and> unat (kernel_directory s) \<le> 0x2FA000
     \<and> (\<forall>g < 1024. frame_used s g \<longleftrightarrow> g < n)"

definition boot_map :: "kstate \<Rightarrow> nat \<Rightarrow> bool" where
  "boot_map s n \<longleftrightarrow> kheap s = None \<and> frame_map s n"

lemmas boot_map_defs = boot_map_def frame_map_def

text \<open>The entry of a mapped page: present, not writeable, accessible to user code.\<close>

definition mapped_frame :: "nat \<Rightarrow> page_t" where
  "mapped_frame f = \<lparr>present = True, rw = False, user = True, accessed = False, dirty = False, unused = 0, frame = of_nat f\<rparr>"

lemma load_page_zero: "rd32 m p = 0 \<Longrightarrow> load_page m p = \<lparr>present = False, rw = False, user = False,
    accessed = False, dirty = False, unused = 0, frame = 0\<rparr>"
  by (simp add: load_page_def page_of_word_def)

lemma frame_used_eq_on:
  assumes "mem_eq_on S (mem s) m" "{unat (frames s) ..< unat (frames s) + 128} \<subseteq> S" "g < 1024"
    "unat (frames s) + 128 \<le> 4294967296"
  shows "frame_used (s\<lparr>mem := m\<rparr>) g = frame_used s g"
proof -
  have "g div 32 < 32" using assms(3) by (simp add: less_mult_imp_div_less)
  then have "unat (frames s + 4 * of_nat (g div 32)) = unat (frames s) + 4 * (g div 32)" "4 * (g div 32) + 4 \<le> 128"
    using assms(4) by (intro unat_word_index, linarith+)
  then have "rd32 m (frames s + 4 * of_nat (g div 32)) = rd32 (mem s) (frames s + 4 * of_nat (g div 32))"
    using assms(2,4) by (intro mem_eq_on_rd32 [OF assms(1)]) auto
  then show ?thesis by (simp add: frame_used_def)
qed

text \<open>A page table behind the directory, entered in it twice.\<close>

definition table_at :: "kstate \<Rightarrow> nat \<Rightarrow> uint32 \<Rightarrow> bool" where
  "table_at s i t \<longleftrightarrow> i < 1024 \<and> rd32 (mem s) (tables_entry (kernel_directory s) (of_nat i)) = t
     \<and> rd32 (mem s) (tables_physical_entry (kernel_directory s) (of_nat i)) = t OR 7
     \<and> unat (kernel_directory s) \<le> 0x2FA000 \<and> unat (kernel_directory s) + 0x3000 \<le> unat t \<and> unat t + 4096 \<le> 0x1000000"

lemma table_address: "table_at s i t \<Longrightarrow> j < 1024 \<Longrightarrow> unat (t + 4 * of_nat j) = unat t + 4 * j"
  by (intro unat_word_index) (simp add: table_at_def)

lemma table_at_keep:
  assumes "table_at s i t" "mem_eq_on S (mem s) (mem s')" "kernel_directory s' = kernel_directory s"
    and "{unat (kernel_directory s) + 4 * i ..< unat (kernel_directory s) + 4 * i + 4} \<subseteq> S"
    "{unat (kernel_directory s) + 4096 + 4 * i ..< unat (kernel_directory s) + 4096 + 4 * i + 4} \<subseteq> S"
  shows "table_at s' i t"
proof -
  have d: "unat (kernel_directory s) + 8196 \<le> 4294967296" "i < 1024" using assms(1) by (simp_all add: table_at_def)
  note a = entry_addresses [OF d]
  have "rd32 (mem s') (tables_entry (kernel_directory s) (of_nat i)) = rd32 (mem s) (tables_entry (kernel_directory s) (of_nat i))"
    using d assms(4) by (intro mem_eq_on_rd32 [OF assms(2)]) (simp_all add: a)
  moreover have "rd32 (mem s') (tables_physical_entry (kernel_directory s) (of_nat i)) =
      rd32 (mem s) (tables_physical_entry (kernel_directory s) (of_nat i))"
    using d assms(5) by (intro mem_eq_on_rd32 [OF assms(2)]) (simp_all add: a)
  ultimately show ?thesis using assms(1,3) by (simp add: table_at_def)
qed

text \<open>alloc_frame on a free entry of a page table takes the next frame.\<close>

lemma map_entry_step:
  assumes b: "frame_map s n" "n < 1024" and t: "table_at s i t" and j: "j < 1024"
    and free: "rd32 (mem s) (t + 4 * of_nat j) = 0"
  shows "\<exists>m'. alloc_frame (t + 4 * of_nat j) k w s = Inr (s\<lparr>mem := m'\<rparr>) \<and> frame_map (s\<lparr>mem := m'\<rparr>) (Suc n)
    \<and> table_at (s\<lparr>mem := m'\<rparr>) i t
    \<and> load_page m' (t + 4 * of_nat j) = (mapped_frame n)\<lparr>rw := (w \<noteq> 0), user := (k = 0)\<rparr>
    \<and> mem_eq_on (- ({unat (frames s) ..< unat (frames s) + 128} \<union> {unat t + 4 * j ..< unat t + 4 * j + 4})) (mem s) m'"
proof -
  let ?p = "t + 4 * of_nat j" and ?D = "kernel_directory s" and ?F = "unat (frames s)"
  have bm: "unat ?D \<le> 0x2FA000" "?F + 128 \<le> unat ?D" "frame_count s = 4096"
    "\<And>g. g < 1024 \<Longrightarrow> frame_used s g \<longleftrightarrow> g < n" using b(1) by (simp_all add: frame_map_def)
  have tb: "unat ?D + 0x3000 \<le> unat t" "unat t + 4096 \<le> 0x1000000" "i < 1024"
    using t by (simp_all add: table_at_def)
  have up: "unat ?p = unat t + 4 * j" by (rule table_address [OF t j])
  have ok: "bitmap_ok s 128" "128 = unat (frame_count s) div 32" using bm by (simp_all add: bitmap_ok_def)
  have out: "entry_outside s 128 ?p" using bm tb j by (simp add: entry_outside_def up)
  have none: "frame (load_page (mem s) ?p) = 0" by (simp add: load_page_zero [OF free])
  have f: "n < 32 * 128" "\<not> frame_used s n" "\<forall>g < n. frame_used s g" using b(2) bm(4) by simp_all
  from alloc_frame_step [OF ok out none f, of k w] obtain m' where
    al: "alloc_frame ?p k w s = Inr (s\<lparr>mem := m'\<rparr>)"
    and ld: "load_page m' ?p = (mapped_frame n)\<lparr>rw := (w \<noteq> 0), user := (k = 0)\<rparr>"
    and us: "\<forall>g < 4096. frame_used (s\<lparr>mem := m'\<rparr>) g \<longleftrightarrow> g = n \<or> frame_used s g"
    and eq: "mem_eq_on (- ({?F + 4 * (n div 32) ..< ?F + 4 * (n div 32) + 4} \<union> {unat ?p ..< unat ?p + 4})) (mem s) m'"
    by (auto simp: load_page_zero [OF free] mapped_frame_def)
  have "n div 32 < 32" using b(2) by (simp add: less_mult_imp_div_less)
  then have "4 * (n div 32) + 4 \<le> 128" by simp
  then have eq': "mem_eq_on (- ({?F ..< ?F + 128} \<union> {unat t + 4 * j ..< unat t + 4 * j + 4})) (mem s) m'"
    by (intro mem_eq_on_mono [OF eq]) (auto simp: up)
  have "frame_map (s\<lparr>mem := m'\<rparr>) (Suc n)"
    using b us bm(4) by (auto simp: frame_map_def less_Suc_eq)
  moreover have "table_at (s\<lparr>mem := m'\<rparr>) i t"
    using bm(2) tb by (intro table_at_keep [OF t, of _ "s\<lparr>mem := m'\<rparr>"]) (use eq' in \<open>auto\<close>)
  ultimately show ?thesis using al ld eq' by (intro exI [of _ m']) simp
qed

lemma map_page_step:
  assumes b: "boot_map s n" "n < 1024" and k: "k < 1048576" and t: "table_at s (k div 1024) t"
    and free: "rd32 (mem s) (t + 4 * of_nat (k mod 1024)) = 0"
  shows "\<exists>m'. map_page fuel (frame_address_of k) s = Inr (s\<lparr>mem := m'\<rparr>) \<and> boot_map (s\<lparr>mem := m'\<rparr>) (Suc n)
    \<and> table_at (s\<lparr>mem := m'\<rparr>) (k div 1024) t \<and> load_page m' (t + 4 * of_nat (k mod 1024)) = mapped_frame n
    \<and> mem_eq_on (- ({unat (frames s) ..< unat (frames s) + 128}
        \<union> {unat t + 4 * (k mod 1024) ..< unat t + 4 * (k mod 1024) + 4})) (mem s) m'"
proof -
  have "rd32 (mem s) (tables_entry (kernel_directory s) (of_nat (k div 1024))) = t" "t \<noteq> 0"
    using t by (auto simp: table_at_def)
  then have "get_page fuel (frame_address_of k) True (kernel_directory s) s = Inr (t + 4 * of_nat (k mod 1024), s)"
    using get_page_present [OF k] by simp
  moreover have "frame_map s n" "k mod 1024 < 1024" using b(1) by (simp_all add: boot_map_defs)
  from map_entry_step [OF this(1) b(2) t this(2) free, of 0 0] have
    "\<exists>m'. alloc_frame (t + 4 * of_nat (k mod 1024)) 0 0 s = Inr (s\<lparr>mem := m'\<rparr>) \<and> boot_map (s\<lparr>mem := m'\<rparr>) (Suc n)
    \<and> table_at (s\<lparr>mem := m'\<rparr>) (k div 1024) t \<and> load_page m' (t + 4 * of_nat (k mod 1024)) = mapped_frame n
    \<and> mem_eq_on (- ({unat (frames s) ..< unat (frames s) + 128}
        \<union> {unat t + 4 * (k mod 1024) ..< unat t + 4 * (k mod 1024) + 4})) (mem s) m'"
    using b(1) by (simp add: boot_map_def mapped_frame_def)
  ultimately show ?thesis by (auto simp: map_page_def)
qed

text \<open>The loop over \<open>c\<close> pages of one table; the mapped pages get the frames from \<open>n\<close> on.\<close>

lemma map_pages:
  assumes "boot_map s n" "n + c \<le> 1024" "k mod 1024 + c \<le> 1024" "k + c < 1048576" "table_at s (k div 1024) t"
    and "\<forall>j < c. rd32 (mem s) (t + 4 * of_nat (k mod 1024 + j)) = 0"
    and "\<forall>m. limit (s\<lparr>mem := m\<rparr>) = frame_address_of (k + c)" and "c < fuel'"
  shows "\<exists>m'. page_loop fuel' (map_page fuel) limit (frame_address_of k) s = Inr (s\<lparr>mem := m'\<rparr>)
    \<and> boot_map (s\<lparr>mem := m'\<rparr>) (n + c) \<and> table_at (s\<lparr>mem := m'\<rparr>) (k div 1024) t
    \<and> (\<forall>j < c. load_page m' (t + 4 * of_nat (k mod 1024 + j)) = mapped_frame (n + j))
    \<and> mem_eq_on (- ({unat (frames s) ..< unat (frames s) + 128}
        \<union> {unat t + 4 * (k mod 1024) ..< unat t + 4 * (k mod 1024 + c)})) (mem s) m'"
  using assms
proof (induction c arbitrary: k n s fuel')
  case 0
  obtain f where f: "fuel' = Suc f" using "0.prems"(8) by (cases fuel') auto
  have lim: "limit s = frame_address_of k" using spec [OF "0.prems"(7), of "mem s"] by simp
  show ?case using "0.prems"(1,5) lim by (intro exI [of _ "mem s"]) (simp add: f)
next
  case (Suc c)
  obtain f where f: "fuel' = Suc f" using Suc.prems(8) by (cases fuel') auto
  let ?i = "k mod 1024"
  have i: "?i + Suc c \<le> 1024" and kk: "k + Suc c < 1048576" using Suc.prems(3,4) by simp_all
  have z: "rd32 (mem s) (t + 4 * of_nat ?i) = 0" using Suc.prems(6) by (auto dest: spec [of _ 0])
  have nk: "n < 1024" "k < 1048576" using Suc.prems(2) kk by simp_all
  from map_page_step [OF Suc.prems(1) nk Suc.prems(5) z, of fuel] obtain m1 where
    m1: "map_page fuel (frame_address_of k) s = Inr (s\<lparr>mem := m1\<rparr>)" "boot_map (s\<lparr>mem := m1\<rparr>) (Suc n)"
    "table_at (s\<lparr>mem := m1\<rparr>) (k div 1024) t" "load_page m1 (t + 4 * of_nat ?i) = mapped_frame n"
    and eq1: "mem_eq_on (- ({unat (frames s) ..< unat (frames s) + 128}
        \<union> {unat t + 4 * ?i ..< unat t + 4 * ?i + 4})) (mem s) m1" by blast
  let ?s1 = "s\<lparr>mem := m1\<rparr>"
  have lim: "limit s = frame_address_of (k + Suc c)" using spec [OF Suc.prems(7), of "mem s"] by simp
  have "frame_address_of k < limit s" unfolding lim using kk by (subst page_address_less) simp_all
  then have step: "page_loop fuel' (map_page fuel) limit (frame_address_of k) s =
      page_loop f (map_page fuel) limit (frame_address_of (Suc k)) ?s1"
    using m1(1) by (simp add: f page_address_Suc)
  have F: "unat (frames s) + 128 \<le> unat (kernel_directory s)" using Suc.prems(1) by (simp add: boot_map_defs)
  have T: "unat (kernel_directory s) + 0x3000 \<le> unat t" "unat t + 4096 \<le> 0x1000000"
    using Suc.prems(5) by (simp_all add: table_at_def)
  have adr: "unat (t + 4 * of_nat j) = unat t + 4 * j" if "j < 1024" for j
    by (rule table_address [OF Suc.prems(5) that])
  show ?case
  proof (cases "c = 0")
    case True
    have "f \<noteq> 0" using Suc.prems(8) f True by simp
    then obtain f' where f': "f = Suc f'" by (cases f) auto
    have "limit ?s1 = frame_address_of (Suc k)" using spec [OF Suc.prems(7), of m1] True by simp
    then have "page_loop fuel' (map_page fuel) limit (frame_address_of k) s = Inr ?s1"
      unfolding step f' by simp
    then show ?thesis using m1(2-4) eq1 True by (intro exI [of _ m1]) (simp add: ac_simps)
  next
    case False
    then have km: "Suc k mod 1024 = Suc ?i" "Suc k div 1024 = k div 1024" using i by (simp_all add: mod_Suc div_Suc)
    have pre: "boot_map ?s1 (Suc n)" "Suc n + c \<le> 1024" "Suc k mod 1024 + c \<le> 1024" "Suc k + c < 1048576"
      "table_at ?s1 (Suc k div 1024) t" "\<forall>m. limit (?s1\<lparr>mem := m\<rparr>) = frame_address_of (Suc k + c)" "c < f"
      using m1(2,3) Suc.prems(2,7,8) i kk f unfolding km by simp_all
    have zs: "\<forall>j < c. rd32 (mem ?s1) (t + 4 * of_nat (Suc k mod 1024 + j)) = 0"
    proof (intro allI impI)
      fix j assume j: "j < c"
      have "rd32 m1 (t + 4 * of_nat (?i + Suc j)) = rd32 (mem s) (t + 4 * of_nat (?i + Suc j))"
        using i j F T adr [of "?i + Suc j"] by (intro mem_eq_on_rd32 [OF eq1]) auto
      moreover have "rd32 (mem s) (t + 4 * of_nat (?i + Suc j)) = 0" using Suc.prems(6) j by blast
      ultimately show "rd32 (mem ?s1) (t + 4 * of_nat (Suc k mod 1024 + j)) = 0" by (simp add: km del: of_nat_Suc of_nat_add)
    qed
    from Suc.IH [OF pre(1-5) zs pre(6,7)] obtain m2 where
      m2: "page_loop f (map_page fuel) limit (frame_address_of (Suc k)) ?s1 = Inr (s\<lparr>mem := m2\<rparr>)"
      "boot_map (s\<lparr>mem := m2\<rparr>) (n + Suc c)" "table_at (s\<lparr>mem := m2\<rparr>) (k div 1024) t"
      "\<forall>j < c. load_page m2 (t + 4 * of_nat (Suc ?i + j)) = mapped_frame (Suc n + j)"
      and eq2: "mem_eq_on (- ({unat (frames s) ..< unat (frames s) + 128}
        \<union> {unat t + 4 * Suc ?i ..< unat t + 4 * (Suc ?i + c)})) m1 m2"
      unfolding km by (auto simp del: of_nat_add of_nat_Suc)
    have "load_page m2 (t + 4 * of_nat ?i) = load_page m1 (t + 4 * of_nat ?i)"
      using i F T adr [of ?i] unfolding load_page_def by (subst mem_eq_on_rd32 [OF eq2]) auto
    then have "load_page m2 (t + 4 * of_nat (?i + j)) = mapped_frame (n + j)" if "j < Suc c" for j
      using that m1(4) m2(4) by (cases j) (simp_all del: of_nat_add of_nat_Suc)
    moreover have "mem_eq_on (- ({unat (frames s) ..< unat (frames s) + 128}
        \<union> {unat t + 4 * ?i ..< unat t + 4 * (?i + Suc c)})) (mem s) m2"
      by (rule mem_eq_on_trans [OF mem_eq_on_mono [OF eq1] mem_eq_on_mono [OF eq2]]) auto
    ultimately show ?thesis using step m2(1-3) by (intro exI [of _ m2]) simp
  qed
qed

text \<open>The first loop over the pages of the heap only makes sure that they have a table.\<close>

lemma touch_pages:
  assumes "k mod 1024 + c \<le> 1024" "k + c < 1048576" "table_at s (k div 1024) t" "c < fuel'"
  shows "page_loop fuel' (touch_page fuel) (\<lambda>_. frame_address_of (k + c)) (frame_address_of k) s = Inr s"
  using assms
proof (induction c arbitrary: k fuel')
  case 0
  then show ?case by (cases fuel') simp_all
next
  case (Suc c)
  obtain f where f: "fuel' = Suc f" using Suc.prems(4) by (cases fuel') auto
  have t: "rd32 (mem s) (tables_entry (kernel_directory s) (of_nat (k div 1024))) = t" "t \<noteq> 0"
    using Suc.prems(3) by (auto simp: table_at_def)
  have k: "k < 1048576" using Suc.prems(2) by simp
  have "frame_address_of k < frame_address_of (k + Suc c)"
    using Suc.prems(2) by (subst page_address_less) simp_all
  then have "page_loop fuel' (touch_page fuel) (\<lambda>_. frame_address_of (k + Suc c)) (frame_address_of k) s =
      page_loop f (touch_page fuel) (\<lambda>_. frame_address_of (Suc k + c)) (frame_address_of (Suc k)) s"
    by (simp add: f touch_page_def get_page_present [OF k t] page_address_Suc)
  also have "\<dots> = Inr s"
  proof (cases "c = 0")
    case True
    then show ?thesis using Suc.prems(4) f by (cases f) simp_all
  next
    case False
    then have km: "Suc k mod 1024 = Suc (k mod 1024)" "Suc k div 1024 = k div 1024"
      using Suc.prems(1) by (simp_all add: mod_Suc div_Suc)
    show ?thesis using Suc.prems f by (intro Suc.IH) (simp_all add: km)
  qed
  finally show ?case .
qed

section \<open>A new table\<close>

lemma frame_map_keep:
  assumes b: "frame_map s n" and eq: "mem_eq_on S (mem s) (mem s')" "{unat (frames s) ..< unat (frames s) + 128} \<subseteq> S"
    and g: "kernel_directory s' = kernel_directory s" "frames s' = frames s" "frame_count s' = frame_count s"
  shows "frame_map s' n"
proof -
  have f: "unat (frames s) + 128 \<le> 4294967296" using b by (simp add: frame_map_def)
  have "frame_used s' i = frame_used s i" if "i < 1024" for i
    using frame_used_eq_on [OF eq that f] by (simp add: frame_used_def g)
  then show ?thesis using b g by (simp add: frame_map_def)
qed

lemma boot_map_keep:
  assumes "boot_map s n" "mem_eq_on S (mem s) m" "{unat (frames s) ..< unat (frames s) + 128} \<subseteq> S"
  shows "boot_map (s\<lparr>mem := m, placement_address := p\<rparr>) n"
  using assms by (auto simp: boot_map_def intro: frame_map_keep)

lemma table_made:
  assumes b: "boot_map s n" and k: "k < 1048576" and i: "i = k div 1024"
    and missing: "rd32 (mem s) (tables_entry (kernel_directory s) (of_nat i)) = 0"
    and t: "t = page_aligned (placement_address s)" "unat (kernel_directory s) + 0x3000 \<le> unat t" "unat t + 4096 \<le> 0x1000000"
  shows "\<exists>m' s'. s' = s\<lparr>mem := m', placement_address := t + 0x1000\<rparr>
    \<and> get_page fuel (frame_address_of k) True (kernel_directory s) s = Inr (t + 4 * of_nat (k mod 1024), s')
    \<and> get_page fuel (frame_address_of k) True (kernel_directory s') s' = Inr (t + 4 * of_nat (k mod 1024), s')
    \<and> boot_map s' n \<and> table_at s' i t \<and> (\<forall>j < 1024. rd32 m' (t + 4 * of_nat j) = 0)
    \<and> mem_eq_on (- ({unat (kernel_directory s) + 4 * i ..< unat (kernel_directory s) + 4 * i + 4}
        \<union> {unat (kernel_directory s) + 4096 + 4 * i ..< unat (kernel_directory s) + 4096 + 4 * i + 4}
        \<union> {unat t ..< unat t + 4096})) (mem s) m'"
proof -
  let ?D = "kernel_directory s"
  have nk: "kheap s = None" and d: "unat ?D \<le> 0x2FA000" "unat (frames s) + 128 \<le> unat ?D" using b by (simp_all add: boot_map_defs)
  have "t \<noteq> 0" using t(2) by auto
  moreover have "unat ?D + 8196 \<le> unat t" "unat t + 4096 \<le> 4294967296" using t(2,3) by simp_all
  ultimately obtain m' where
    gp: "get_page fuel (frame_address_of k) True ?D s =
      Inr (t + 4 * of_nat (k mod 1024), s\<lparr>mem := m', placement_address := t + 0x1000\<rparr>)"
    and e: "rd32 m' (tables_entry ?D (of_nat i)) = t" "rd32 m' (tables_physical_entry ?D (of_nat i)) = t OR 7"
    and z: "\<forall>j < 1024. rd32 m' (t + 4 * of_nat j) = 0"
    and eq: "mem_eq_on (- ({unat ?D + 4 * i ..< unat ?D + 4 * i + 4} \<union> {unat ?D + 4096 + 4 * i ..< unat ?D + 4096 + 4 * i + 4}
        \<union> {unat t ..< unat t + 4096})) (mem s) m'"
    using get_page_new [OF k i nk missing t(1), of fuel] by blast
  let ?s' = "s\<lparr>mem := m', placement_address := t + 0x1000\<rparr>"
  have "get_page fuel (frame_address_of k) True ?D ?s' = Inr (t + 4 * of_nat (k mod 1024), ?s')"
    using get_page_present [OF k, of ?s' ?D t] e(1) i \<open>t \<noteq> 0\<close> by simp
  moreover have "boot_map ?s' n"
    using d t(2) by (intro boot_map_keep [OF b eq]) auto
  moreover have "table_at ?s' i t" using e t(2,3) d(1) i k by (simp add: table_at_def)
  ultimately show ?thesis using gp z eq by (intro exI [of _ m'] exI [of _ ?s']) simp
qed

text \<open>A loop over pages may as well start with the table that its first step makes.\<close>

lemma first_page:
  assumes "get_page fuel a True (kernel_directory s) s = Inr (p, s')"
    "get_page fuel a True (kernel_directory s') s' = Inr (p, s')" "a < limit s" "a < limit s'"
  shows "page_loop (Suc f) (map_page fuel) limit a s = page_loop (Suc f) (map_page fuel) limit a s'"
    "page_loop (Suc f) (touch_page fuel) limit a s = page_loop (Suc f) (touch_page fuel) limit a s'"
  using assms by (simp_all add: map_page_def touch_page_def)

end
