(* ===== verification/PagingBoot.thy ===== *)
theory PagingBoot
  imports PageMap HeapFresh
begin

text \<open>
  initialise_paging as a whole: what the kernel's page directory maps when paging is turned
  on, and the heap that it leaves.
\<close>

section \<open>The bitmap and the directory\<close>

lemma aligned_dvd: "p AND 0xFFF = (0 :: uint32) \<longleftrightarrow> 4096 dvd unat p"
proof -
  have "unat (p mod 0x1000) = unat p mod 4096" by (simp add: unat_mod)
  then show ?thesis unfolding and_0xFFF by (metis dvd_eq_mod_eq_0 unat_eq_0)
qed

lemma page_aligned_next:
  assumes "d AND 0xFFF = (0 :: uint32)" "unat d \<le> 0x2FA000"
  shows "page_aligned (d + 8196) = d + 0x3000" "page_aligned (d + 0x4000) = d + 0x4000"
proof -
  have u: "unat (d + 8196) = unat d + 8196" "unat (d + 0x3000) = unat d + 0x3000" "unat (d + 0x4000) = unat d + 0x4000"
    using unat_plus_of_nat [of d 8196] unat_plus_of_nat [of d "0x3000"] unat_plus_of_nat [of d "0x4000"] assms(2) by simp_all
  obtain q where q: "unat d = 4096 * q" using assms(1) unfolding aligned_dvd by (rule dvdE)
  show "page_aligned (d + 0x4000) = d + 0x4000"
    using q u(3) unfolding page_aligned_def aligned_dvd by simp
  let ?r = "page_aligned (d + 8196)"
  note al = page_aligned_nat [of "d + 8196"]
  have "unat d + 8196 \<le> unat ?r" "unat ?r < unat d + 8196 + 4096" "4096 dvd unat ?r"
    using al assms(2) u(1) by (simp_all flip: aligned_dvd)
  moreover from this(3) obtain r where r: "unat ?r = 4096 * r" by (rule dvdE)
  ultimately have "q + 2 < r" "r < q + 4" using q by linarith+
  then have "unat ?r = unat d + 0x3000" using r q by simp
  then show "?r = d + 0x3000" using u(2) by (simp add: word_unat_eq_iff)
qed

text \<open>The directory has entries only for the tables \<open>I\<close>.\<close>

definition dir_only :: "memory \<Rightarrow> uint32 \<Rightarrow> nat set \<Rightarrow> bool" where
  "dir_only m D I \<longleftrightarrow> (\<forall>i < 1024. i \<notin> I \<longrightarrow>
     rd32 m (tables_entry D (of_nat i)) = 0 \<and> rd32 m (tables_physical_entry D (of_nat i)) = 0)"

lemma dir_onlyD:
  assumes "dir_only m D I" "i < 1024" "i \<notin> I"
  shows "rd32 m (tables_entry D (of_nat i)) = 0" "rd32 m (tables_physical_entry D (of_nat i)) = 0"
  using assms by (simp_all add: dir_only_def)

lemma dir_only_step:
  assumes "dir_only m D I" "mem_eq_on S m m'" "unat D \<le> 0x2FA000" "I \<subseteq> J"
    and "\<And>i. i < 1024 \<Longrightarrow> i \<notin> J \<Longrightarrow> {unat D + 4 * i ..< unat D + 4 * i + 4}
      \<union> {unat D + 4096 + 4 * i ..< unat D + 4096 + 4 * i + 4} \<subseteq> S"
  shows "dir_only m' D J"
  unfolding dir_only_def
proof (intro allI impI)
  fix i :: nat assume i: "i < 1024" "i \<notin> J"
  have dd: "unat D + 8196 \<le> 4294967296" using assms(3) by simp
  note a = entry_addresses [OF dd i(1)]
  have "rd32 m' (tables_entry D (of_nat i)) = rd32 m (tables_entry D (of_nat i))"
    "rd32 m' (tables_physical_entry D (of_nat i)) = rd32 m (tables_physical_entry D (of_nat i))"
    using a i dd assms(5) [OF i] by (auto intro!: mem_eq_on_rd32 [OF assms(2)])
  moreover have "i \<notin> I" using i(2) assms(4) by blast
  ultimately show "rd32 m' (tables_entry D (of_nat i)) = 0 \<and> rd32 m' (tables_physical_entry D (of_nat i)) = 0"
    using assms(1) i(1) by (simp add: dir_only_def)
qed

text \<open>After alloc_bitmap and alloc_directory: no frame is in use and the directory is empty.\<close>

lemma bitmap_and_directory:
  assumes nk: "kheap s = None" and room: "unat (placement_address s) + 128 + 4096 \<le> 0x2FA000"
    and D: "D = page_aligned (placement_address s + 128)"
  shows "\<exists>m s1 s2. alloc_bitmap fuel s = Inr s1 \<and> alloc_directory fuel s1 = Inr s2
    \<and> s2 = s\<lparr>mem := m, placement_address := D + 8196, kernel_directory := D, frames := placement_address s, frame_count := 4096\<rparr>
    \<and> boot_map s2 0 \<and> dir_only m D {}
    \<and> D AND 0xFFF = 0 \<and> unat D \<le> 0x2FA000 \<and> unat (placement_address s) + 128 \<le> unat D
    \<and> rd32 m (D + 8192) = D + 4096
    \<and> mem_eq_on (- {unat (placement_address s) ..< unat D + 8196}) (mem s) m"
proof -
  let ?F = "placement_address s"
  have u128: "unat (?F + 128) = unat ?F + 128" using unat_plus_of_nat [of ?F 128] room by simp
  note al = page_aligned_nat [of "?F + 128", folded D]
  have d: "D AND 0xFFF = 0" "unat ?F + 128 \<le> unat D" "unat D \<le> 0x2FA000"
    using al u128 room by simp_all
  let ?m1 = "memset (mem s) ?F 0 128"
  let ?m2 = "memset ?m1 D 0 8196"
  let ?m3 = "wr32 ?m2 (D + 8192) (D + 4096)"
  let ?s1 = "s\<lparr>mem := ?m1, placement_address := ?F + 128, frames := ?F, frame_count := 4096\<rparr>"
  let ?s2 = "s\<lparr>mem := ?m3, placement_address := D + 8196, kernel_directory := D, frames := ?F, frame_count := 4096\<rparr>"
  have u: "unat (D + 8192) = unat D + 8192" using unat_plus_of_nat [of D 8192] d by simp
  have e1: "mem_eq_on (- {unat ?F ..< unat ?F + 128}) (mem s) ?m1"
    using memset_outside [of ?F 128 "mem s" 0] room by simp
  have e2: "mem_eq_on (- {unat D ..< unat D + 8196}) ?m1 ?m2"
    using memset_outside [of D 8196 ?m1 0] d by simp
  have e3: "mem_eq_on (- {unat D + 8192 ..< unat D + 8196}) ?m2 ?m3"
    using d u by (intro mem_eq_on_wr32) auto
  have e: "mem_eq_on (- {unat ?F ..< unat D + 8196}) (mem s) ?m3"
    using e1 e2 e3 d by (auto simp: mem_eq_on_def)
  have e23: "mem_eq_on (- {unat D ..< unat D + 8196}) ?m1 ?m3" using e2 e3 by (auto simp: mem_eq_on_def)
  have ab: "alloc_bitmap fuel s = Inr ?s1"
    using nk by (simp add: alloc_bitmap_def kmalloc_before_heap INDEX_FROM_BIT_def)
  have "kheap ?s1 = None" using nk by simp
  from kmalloc_int_placement(2) [OF this, of fuel 8196] have
    ad: "alloc_directory fuel ?s1 = Inr ?s2"
    by (simp add: alloc_directory_def sizeof_page_directory_t_def flip: D)
  have unused: "\<not> frame_used ?s2 g" if g: "g < 1024" for g
  proof -
    have gd: "g div 32 < 32" using g by (simp add: less_mult_imp_div_less)
    then have w: "unat (?F + 4 * of_nat (g div 32)) = unat ?F + 4 * (g div 32)" "4 * (g div 32) + 4 \<le> 128"
      using gd room by (intro unat_word_index, linarith+)
    have "rd32 ?m3 (?F + 4 * of_nat (g div 32)) = rd32 ?m1 (?F + 4 * of_nat (g div 32))"
      using w d by (intro mem_eq_on_rd32 [OF e23]) auto
    also have "\<dots> = 0" using w room by (intro memset_zero_rd32) simp_all
    finally show ?thesis by (simp add: frame_used_def)
  qed
  then have "boot_map ?s2 0" using nk d by (simp add: boot_map_defs)
  moreover have "rd32 ?m2 (tables_entry D (of_nat i)) = 0 \<and> rd32 ?m2 (tables_physical_entry D (of_nat i)) = 0"
    if i: "i < 1024" for i
  proof -
    have dd: "unat D + 8196 \<le> 4294967296" using d by simp
    show ?thesis using entry_addresses [OF dd i] i dd by (auto intro!: memset_zero_rd32)
  qed
  then have "dir_only ?m2 D {}" by (simp add: dir_only_def)
  then have "dir_only ?m3 D {}" by (rule dir_only_step [OF _ e3]) (use d in auto)
  ultimately show ?thesis using ab ad d e by (intro exI [of _ ?m3] exI [of _ ?s1] exI [of _ ?s2]) simp
qed

section \<open>The three loops\<close>

text \<open>Page \<open>k\<close> is mapped to frame \<open>f\<close> by the kernel directory.\<close>

definition maps :: "kstate \<Rightarrow> nat \<Rightarrow> nat \<Rightarrow> bool" where
  "maps s k f \<longleftrightarrow> (\<exists>t. table_at s (k div 1024) t \<and> load_page (mem s) (t + 4 * of_nat (k mod 1024)) = mapped_frame f)"

lemma maps_keep:
  assumes "maps s k f" "mem_eq_on S (mem s) (mem s')" "kernel_directory s' = kernel_directory s" "{0 ..< 0x1000000} \<subseteq> S"
  shows "maps s' k f"
proof -
  from assms(1) obtain t where t: "table_at s (k div 1024) t"
    "load_page (mem s) (t + 4 * of_nat (k mod 1024)) = mapped_frame f" by (auto simp: maps_def)
  have d: "unat (kernel_directory s) \<le> 0x2FA000" "unat t + 4096 \<le> 0x1000000" "k div 1024 < 1024"
    using t(1) by (simp_all add: table_at_def)
  have "table_at s' (k div 1024) t"
    by (rule table_at_keep [OF t(1) assms(2,3)]; rule subset_trans [OF _ assms(4)]) (use d in auto)
  moreover have "load_page (mem s') (t + 4 * of_nat (k mod 1024)) = load_page (mem s) (t + 4 * of_nat (k mod 1024))"
    unfolding load_page_def
    by (subst mem_eq_on_rd32 [OF assms(2)]; (rule refl subset_trans [OF _ assms(4)])?)
      (use d table_address [OF t(1), of "k mod 1024"] mod_less_divisor [of 1024 k] in auto)
  ultimately show ?thesis using t(2) by (auto simp: maps_def)
qed

lemma entry_keep:
  assumes "table_at s i t" "j < 1024" "mem_eq_on S (mem s) m" "{unat t + 4 * j ..< unat t + 4 * j + 4} \<subseteq> S"
  shows "rd32 m (t + 4 * of_nat j) = rd32 (mem s) (t + 4 * of_nat j)"
    "load_page m (t + 4 * of_nat j) = load_page (mem s) (t + 4 * of_nat j)"
proof -
  have "unat t + 4096 \<le> 0x1000000" using assms(1) by (simp add: table_at_def)
  then show "rd32 m (t + 4 * of_nat j) = rd32 (mem s) (t + 4 * of_nat j)"
    using assms(2,4) table_address [OF assms(1,2)] by (intro mem_eq_on_rd32 [OF assms(3)]) simp_all
  then show "load_page m (t + 4 * of_nat j) = load_page (mem s) (t + 4 * of_nat j)" by (simp add: load_page_def)
qed

abbreviation heap_page :: nat where "heap_page \<equiv> 786432"

lemma heap_page_address:
  "KHEAP_START = frame_address_of heap_page" "KHEAP_START + KHEAP_INITIAL_SIZE = frame_address_of (heap_page + 256)"
  by (simp_all add: KHEAP_START_def KHEAP_INITIAL_SIZE_def frame_address_of_def)

text \<open>
  From an empty directory at \<open>D\<close>: the table of the heap goes to \<open>D + 0x3000\<close>, the table of the
  low pages to \<open>D + 0x4000\<close>; the low pages are mapped up to and with the page behind the tables.
\<close>

lemma loop_heap_table:
  assumes b: "boot_map s 0" and D: "kernel_directory s = D" "D AND 0xFFF = 0" and p: "placement_address s = D + 8196"
    and empty: "dir_only (mem s) D {}"
  shows "\<exists>m s'. page_loop page_fuel (touch_page fuel) (\<lambda>_. KHEAP_START + KHEAP_INITIAL_SIZE) KHEAP_START s = Inr s'
    \<and> s' = s\<lparr>mem := m, placement_address := D + 0x4000\<rparr> \<and> boot_map s' 0 \<and> table_at s' 768 (D + 0x3000)
    \<and> (\<forall>j < 1024. rd32 m (D + 0x3000 + 4 * of_nat j) = 0) \<and> dir_only m D {768}
    \<and> mem_eq_on (- ({unat D ..< unat D + 8192} \<union> {unat D + 0x3000 ..< unat D + 0x5000})) (mem s) m"
proof -
  have d: "unat D \<le> 0x2FA000" using b by (simp add: boot_map_defs D(1))
  define t where "t = D + 0x3000"
  have t: "unat t = unat D + 0x3000" using unat_plus_of_nat [of D "0x3000"] d by (simp add: t_def)
  have al: "page_aligned (placement_address s) = t"
    using page_aligned_next [OF D(2) d(1)] by (simp add: p t_def)
  have i: "768 = heap_page div 1024" "heap_page < 1048576" by simp_all
  have missing: "rd32 (mem s) (tables_entry (kernel_directory s) (of_nat 768)) = 0"
    using dir_onlyD(1) [OF empty, of 768] by (simp add: D(1))
  obtain m s' where s': "s' = s\<lparr>mem := m, placement_address := t + 0x1000\<rparr>"
    "get_page fuel KHEAP_START True (kernel_directory s) s = Inr (t + 4 * of_nat (heap_page mod 1024), s')"
    "get_page fuel KHEAP_START True (kernel_directory s') s' = Inr (t + 4 * of_nat (heap_page mod 1024), s')"
    "boot_map s' 0" "table_at s' 768 t" "\<forall>j < 1024. rd32 m (t + 4 * of_nat j) = 0"
    and eq: "mem_eq_on (- ({unat D + 4 * 768 ..< unat D + 4 * 768 + 4} \<union> {unat D + 4096 + 4 * 768 ..< unat D + 4096 + 4 * 768 + 4}
        \<union> {unat t ..< unat t + 4096})) (mem s) m"
    using table_made [OF b i(2,1) missing al [symmetric], of fuel] d t unfolding heap_page_address(1) D(1) by auto
  have "KHEAP_START < KHEAP_START + KHEAP_INITIAL_SIZE" by (simp add: KHEAP_START_def KHEAP_INITIAL_SIZE_def)
  from first_page(2) [OF s'(2,3) this this, of 1048576] touch_pages [of heap_page 256 s' t page_fuel fuel] s'(5)
  have "page_loop page_fuel (touch_page fuel) (\<lambda>_. KHEAP_START + KHEAP_INITIAL_SIZE) KHEAP_START s = Inr s'"
    unfolding heap_page_address(2) unfolding heap_page_address(1) by (simp add: page_fuel_def del: page_loop.simps)
  moreover have "dir_only m D {768}" by (rule dir_only_step [OF empty eq d]) (use t in auto)
  moreover have "mem_eq_on (- ({unat D ..< unat D + 8192} \<union> {unat D + 0x3000 ..< unat D + 0x5000})) (mem s) m"
    by (rule mem_eq_on_mono [OF eq]) (use t in auto)
  ultimately show ?thesis using s'(1,4-6) unfolding t_def by (intro exI [of _ m] exI [of _ s']) (simp add: add.assoc)
qed

lemma loop_low_pages:
  assumes b: "boot_map s 0" and D: "kernel_directory s = D" "D AND 0xFFF = 0" and p: "placement_address s = D + 0x4000"
    and only: "dir_only (mem s) D {768}" and N: "N = unat D div 4096 + 6"
    and t1: "table_at s 768 (D + 0x3000)" "\<forall>j < 1024. rd32 (mem s) (D + 0x3000 + 4 * of_nat j) = 0"
  shows "\<exists>m s'. page_loop page_fuel (map_page fuel) (\<lambda>s. placement_address s + 0x1000) 0 s = Inr s'
    \<and> s' = s\<lparr>mem := m, placement_address := D + 0x5000\<rparr> \<and> boot_map s' N
    \<and> table_at s' 768 (D + 0x3000) \<and> (\<forall>j < 1024. rd32 m (D + 0x3000 + 4 * of_nat j) = 0)
    \<and> table_at s' 0 (D + 0x4000) \<and> (\<forall>j < N. load_page m (D + 0x4000 + 4 * of_nat j) = mapped_frame j)
    \<and> (\<forall>j < 1024. N \<le> j \<longrightarrow> rd32 m (D + 0x4000 + 4 * of_nat j) = 0) \<and> dir_only m D {0, 768}
    \<and> mem_eq_on (- ({unat (frames s) ..< unat D + 8192} \<union> {unat D + 0x3000 ..< unat D + 0x5000})) (mem s) m"
proof -
  define F where "F = unat (frames s)"
  have d: "unat D \<le> 0x2FA000" "F + 128 \<le> unat D" using b by (simp_all add: boot_map_defs D(1) F_def)
  obtain q where q: "unat D = 4096 * q" using D(2) unfolding aligned_dvd by (rule dvdE)
  have Nq: "N = q + 6" "N \<le> 768" using N q d by simp_all
  define t where "t = D + 0x4000"
  have t: "unat t = unat D + 0x4000" "unat (D + 0x3000) = unat D + 0x3000"
    using unat_plus_of_nat [of D "0x3000"] unat_plus_of_nat [of D "0x4000"] d by (simp_all add: t_def)
  have al: "page_aligned (placement_address s) = t"
    using page_aligned_next [OF D(2) d(1)] by (simp add: p t_def)
  have i: "(0::nat) = 0 div 1024" "(0::nat) < 1048576" by simp_all
  have missing': "rd32 (mem s) (tables_entry (kernel_directory s) (of_nat 0)) = 0" using dir_onlyD(1) [OF only, of 0] D(1) by simp
  obtain m2 s2 where s2: "s2 = s\<lparr>mem := m2, placement_address := t + 0x1000\<rparr>"
    "get_page fuel 0 True (kernel_directory s) s = Inr (t + 4 * of_nat 0, s2)"
    "get_page fuel 0 True (kernel_directory s2) s2 = Inr (t + 4 * of_nat 0, s2)"
    "boot_map s2 0" "table_at s2 0 t" "\<forall>j < 1024. rd32 m2 (t + 4 * of_nat j) = 0"
    and eq2: "mem_eq_on (- ({unat D ..< unat D + 4} \<union> {unat D + 4096 ..< unat D + 4100}
        \<union> {unat t ..< unat t + 4096})) (mem s) m2"
    using table_made [OF b i(2,1) missing' al [symmetric], of fuel] d t D(1) by (auto simp: frame_address_of_def add.commute)
  have k2: "kernel_directory s2 = D" "placement_address s2 = D + 0x5000" "mem s2 = m2" "frames s2 = frames s"
    using s2(1) D(1) by (simp_all add: t_def)
  have N': "frame_address_of N = D + 0x6000"
    using Nq q unat_plus_of_nat [of D "0x6000"] d by (simp add: word_unat_eq_iff page_address)
  have "0 < placement_address s + 0x1000" "0 < placement_address s2 + 0x1000"
    using unat_plus_of_nat [of D "0x5000"] unat_plus_of_nat [of D "0x6000"] d p k2(2)
    by (auto simp: word_less_nat_alt add.assoc)
  from first_page(1) [OF s2(2,3), of "\<lambda>s. placement_address s + 0x1000" 1048576] this
  have start: "page_loop page_fuel (map_page fuel) (\<lambda>s. placement_address s + 0x1000) 0 s =
      page_loop page_fuel (map_page fuel) (\<lambda>s. placement_address s + 0x1000) (frame_address_of 0) s2"
    by (simp add: page_fuel_def frame_address_of_def del: page_loop.simps)
  have pre: "0 + N \<le> 1024" "0 mod 1024 + N \<le> 1024" "0 + N < 1048576" "N < page_fuel"
    "\<forall>j < N. rd32 (mem s2) (t + 4 * of_nat (0 mod 1024 + j)) = 0"
    "\<forall>m. placement_address (s2\<lparr>mem := m\<rparr>) + 0x1000 = frame_address_of (0 + N)"
    using Nq s2(6) k2 N' by (simp_all add: page_fuel_def add.assoc)
  obtain m where m: "page_loop page_fuel (map_page fuel) (\<lambda>s. placement_address s + 0x1000) 0 s = Inr (s2\<lparr>mem := m\<rparr>)"
    "boot_map (s2\<lparr>mem := m\<rparr>) N" "table_at (s2\<lparr>mem := m\<rparr>) 0 t"
    "\<forall>j < N. load_page m (t + 4 * of_nat j) = mapped_frame j"
    and eq3: "mem_eq_on (- ({F ..< F + 128} \<union> {unat t ..< unat t + 4 * N})) m2 m"
    using map_pages [OF s2(4) pre(1-3) _ pre(5,6,4), of fuel] s2(5) unfolding start k2(3,4) F_def by auto
  have eq: "mem_eq_on (- ({F ..< F + 128} \<union> {unat D ..< unat D + 4} \<union> {unat D + 4096 ..< unat D + 4100}
        \<union> {unat t ..< unat t + 4096})) (mem s) m"
    by (rule mem_eq_on_trans [OF mem_eq_on_mono [OF eq2] mem_eq_on_mono [OF eq3]]) (use Nq(2) in auto)
  have "dir_only m D {0, 768}" by (rule dir_only_step [OF only eq d(1)]) (use t d in auto)
  moreover have "rd32 m (t + 4 * of_nat j) = 0" if j: "j < 1024" "N \<le> j" for j
  proof -
    have u: "unat (t + 4 * of_nat j) = unat t + 4 * j" using table_address [OF s2(5) j(1)] .
    have "rd32 m (t + 4 * of_nat j) = rd32 m2 (t + 4 * of_nat j)"
      using j t d u by (intro mem_eq_on_rd32 [OF eq3]) auto
    then show ?thesis using s2(6) j(1) by simp
  qed
  moreover have "table_at (s2\<lparr>mem := m\<rparr>) 768 (D + 0x3000)"
    by (rule table_at_keep [OF t1(1), of _ "s2\<lparr>mem := m\<rparr>"]) (use eq D(1) k2 t d in auto)
  moreover have "rd32 m (D + 0x3000 + 4 * of_nat j) = 0" if "j < 1024" for j
  proof -
    have "{unat D + 0x3000 + 4 * j ..< unat D + 0x3000 + 4 * j + 4} \<subseteq> - ({F ..< F + 128} \<union> {unat D ..< unat D + 4}
        \<union> {unat D + 4096 ..< unat D + 4100} \<union> {unat t ..< unat t + 4096})" using that t d by auto
    from entry_keep(1) [OF t1(1) that eq, unfolded t(2), OF this] t1(2) that show ?thesis by simp
  qed
  moreover have "mem_eq_on (- ({F ..< unat D + 8192} \<union> {unat D + 0x3000 ..< unat D + 0x5000})) (mem s) m"
    by (rule mem_eq_on_mono [OF eq]) (use t d in auto)
  ultimately show ?thesis
    using m s2(1) unfolding t_def F_def by (intro exI [of _ m] exI [of _ "s2\<lparr>mem := m\<rparr>"]) (simp add: add.assoc)
qed

lemma loop_heap_pages:
  assumes b: "boot_map s N" "N \<le> 768" and t1: "table_at s 768 t" "\<forall>j < 1024. rd32 (mem s) (t + 4 * of_nat j) = 0"
  shows "\<exists>m. page_loop page_fuel (map_page fuel) (\<lambda>_. KHEAP_START + KHEAP_INITIAL_SIZE) KHEAP_START s = Inr (s\<lparr>mem := m\<rparr>)
    \<and> (\<forall>k < 256. maps (s\<lparr>mem := m\<rparr>) (heap_page + k) (N + k))
    \<and> (\<forall>j < 256. load_page m (t + 4 * of_nat j) = mapped_frame (N + j))
    \<and> (\<forall>j < 1024. 256 \<le> j \<longrightarrow> rd32 m (t + 4 * of_nat j) = 0) \<and> frame_map (s\<lparr>mem := m\<rparr>) (N + 256)
    \<and> mem_eq_on (- ({unat (frames s) ..< unat (frames s) + 128} \<union> {unat t ..< unat t + 1024})) (mem s) m"
proof -
  have pre: "N + 256 \<le> 1024" "heap_page mod 1024 + 256 \<le> 1024" "heap_page + 256 < 1048576" "256 < page_fuel"
    "\<forall>j < 256. rd32 (mem s) (t + 4 * of_nat (heap_page mod 1024 + j)) = 0" "table_at s (heap_page div 1024) t"
    using b(2) t1 by (simp_all add: page_fuel_def)
  have lim: "\<forall>m. (\<lambda>_. frame_address_of (heap_page + 256)) (s\<lparr>mem := m\<rparr>) = frame_address_of (heap_page + 256)" by simp
  from map_pages [OF b(1) pre(1-3,6,5) lim pre(4), of fuel] obtain m where
    m: "page_loop page_fuel (map_page fuel) (\<lambda>_. KHEAP_START + KHEAP_INITIAL_SIZE) KHEAP_START s = Inr (s\<lparr>mem := m\<rparr>)"
    "frame_map (s\<lparr>mem := m\<rparr>) (N + 256)" "table_at (s\<lparr>mem := m\<rparr>) 768 t" "\<forall>j < 256. load_page m (t + 4 * of_nat j) = mapped_frame (N + j)"
    and eq: "mem_eq_on (- ({unat (frames s) ..< unat (frames s) + 128} \<union> {unat t ..< unat t + 1024})) (mem s) m"
    unfolding heap_page_address(2) unfolding heap_page_address(1) boot_map_def by auto
  have "maps (s\<lparr>mem := m\<rparr>) (heap_page + k) (N + k)" if "k < 256" for k
  proof -
    have "heap_page + k = 1024 * 768 + k" by simp
    then have "(heap_page + k) div 1024 = 768" "(heap_page + k) mod 1024 = k"
      using that by (simp_all only: div_mult_self4 mod_mult_self4) simp_all
    then show ?thesis using m(3,4) that unfolding maps_def by auto
  qed
  moreover have "rd32 m (t + 4 * of_nat j) = 0" if j: "j < 1024" "256 \<le> j" for j
  proof -
    have T: "unat (frames s) + 128 \<le> unat (kernel_directory s)" "unat (kernel_directory s) + 0x3000 \<le> unat t" "unat t + 4096 \<le> 0x1000000"
      using b(1) t1(1) by (simp_all add: boot_map_defs table_at_def)
    have "rd32 m (t + 4 * of_nat j) = rd32 (mem s) (t + 4 * of_nat j)"
      using j T table_address [OF t1(1) j(1)] by (intro mem_eq_on_rd32 [OF eq]) auto
    then show ?thesis using t1(2) j(1) by simp
  qed
  ultimately show ?thesis using m(1,2,4) eq by blast
qed

section \<open>initialise_paging\<close>

text \<open>Up to the second loop: the low pages are mapped.\<close>

lemma paging_low:
  assumes nk: "kheap s = None" and room: "unat (placement_address s) + 128 + 4096 \<le> 0x2FA000"
    and D: "D = page_aligned (placement_address s + 128)" and N: "N = unat D div 4096 + 6"
  shows "\<exists>m s1 s2 s3 s4. alloc_bitmap fuel s = Inr s1 \<and> alloc_directory fuel s1 = Inr s2
    \<and> page_loop page_fuel (touch_page fuel) (\<lambda>_. KHEAP_START + KHEAP_INITIAL_SIZE) KHEAP_START s2 = Inr s3
    \<and> page_loop page_fuel (map_page fuel) (\<lambda>s. placement_address s + 0x1000) 0 s3 = Inr s4
    \<and> s4 = s\<lparr>mem := m, placement_address := D + 0x5000, kernel_directory := D, frames := placement_address s, frame_count := 4096\<rparr>
    \<and> boot_map s4 N \<and> table_at s4 768 (D + 0x3000) \<and> (\<forall>j < 1024. rd32 m (D + 0x3000 + 4 * of_nat j) = 0)
    \<and> table_at s4 0 (D + 0x4000) \<and> (\<forall>j < N. load_page m (D + 0x4000 + 4 * of_nat j) = mapped_frame j)
    \<and> (\<forall>j < 1024. N \<le> j \<longrightarrow> rd32 m (D + 0x4000 + 4 * of_nat j) = 0) \<and> dir_only m D {0, 768} \<and> D AND 0xFFF = 0
    \<and> rd32 m (D + 8192) = D + 4096 \<and> unat D \<le> 0x2FA000 \<and> unat (placement_address s) + 128 \<le> unat D
    \<and> mem_eq_on (- {unat (placement_address s) ..< unat D + 0x5000}) (mem s) m"
proof -
  let ?F = "unat (placement_address s)"
  from bitmap_and_directory [OF nk room D, of fuel] obtain m2 s1 s2 where
    init: "alloc_bitmap fuel s = Inr s1" "alloc_directory fuel s1 = Inr s2"
    and s2: "s2 = s\<lparr>mem := m2, placement_address := D + 8196, kernel_directory := D, frames := placement_address s, frame_count := 4096\<rparr>"
    and b2: "boot_map s2 0" and empty: "dir_only m2 D {}"
    and d: "D AND 0xFFF = 0" "unat D \<le> 0x2FA000" "?F + 128 \<le> unat D" and phys: "rd32 m2 (D + 8192) = D + 4096"
    and eq2: "mem_eq_on (- {?F ..< unat D + 8196}) (mem s) m2" by blast
  have k2: "kernel_directory s2 = D" "placement_address s2 = D + 8196" "mem s2 = m2" using s2 by simp_all
  obtain m3 s3 where l1: "page_loop page_fuel (touch_page fuel) (\<lambda>_. KHEAP_START + KHEAP_INITIAL_SIZE) KHEAP_START s2 = Inr s3"
    and s3: "s3 = s2\<lparr>mem := m3, placement_address := D + 0x4000\<rparr>" and b3: "boot_map s3 0" "table_at s3 768 (D + 0x3000)"
    and z3: "\<forall>j < 1024. rd32 m3 (D + 0x3000 + 4 * of_nat j) = 0" "dir_only m3 D {768}"
    and eq3: "mem_eq_on (- ({unat D ..< unat D + 8192} \<union> {unat D + 0x3000 ..< unat D + 0x5000})) m2 m3"
    using loop_heap_table [OF b2 k2(1) d(1) k2(2), of fuel] empty k2(3) by auto
  have k3: "kernel_directory s3 = D" "placement_address s3 = D + 0x4000" "mem s3 = m3" "frames s3 = placement_address s"
    using s3 s2 by simp_all
  obtain m4 s4 where l2: "page_loop page_fuel (map_page fuel) (\<lambda>s. placement_address s + 0x1000) 0 s3 = Inr s4"
    and s4: "s4 = s3\<lparr>mem := m4, placement_address := D + 0x5000\<rparr>" and b4: "boot_map s4 N" "table_at s4 768 (D + 0x3000)"
    and z4: "\<forall>j < 1024. rd32 m4 (D + 0x3000 + 4 * of_nat j) = 0"
    and low: "table_at s4 0 (D + 0x4000)" "\<forall>j < N. load_page m4 (D + 0x4000 + 4 * of_nat j) = mapped_frame j"
    and low0: "\<forall>j < 1024. N \<le> j \<longrightarrow> rd32 m4 (D + 0x4000 + 4 * of_nat j) = 0" "dir_only m4 D {0, 768}"
    and eq4: "mem_eq_on (- ({?F ..< unat D + 8192} \<union> {unat D + 0x3000 ..< unat D + 0x5000})) m3 m4"
    using loop_low_pages [OF b3(1) k3(1) d(1) k3(2) _ N b3(2), of fuel] z3 k3(3,4) by auto
  let ?S = "- ({?F ..< unat D + 8192} \<union> {unat D + 0x3000 ..< unat D + 0x5000})"
  have e: "mem_eq_on ?S m2 m4" by (rule mem_eq_on_trans [OF mem_eq_on_mono [OF eq3] eq4]) (use d in auto)
  have "unat (D + 8192) = unat D + 8192" using unat_plus_of_nat [of D 8192] d by simp
  then have "rd32 m4 (D + 8192) = rd32 m2 (D + 8192)" using d by (intro mem_eq_on_rd32 [OF e]) auto
  moreover have "mem_eq_on (- {?F ..< unat D + 0x5000}) (mem s) m4"
    by (rule mem_eq_on_trans [OF mem_eq_on_mono [OF eq2] mem_eq_on_mono [OF e]]) (use d in auto)
  moreover have "s4 = s\<lparr>mem := m4, placement_address := D + 0x5000, kernel_directory := D, frames := placement_address s, frame_count := 4096\<rparr>"
    unfolding s4 s3 s2 by simp
  ultimately show ?thesis
    using init l1 l2 b4 z4 low low0 phys d by (intro exI [of _ m4] exI [of _ s1] exI [of _ s2] exI [of _ s3] exI [of _ s4]) simp
qed

text \<open>
  All that the kernel directory says when paging is turned on: two tables, at \<open>D + 0x3000\<close> for
  the 256 pages of the heap and at \<open>D + 0x4000\<close> for the \<open>N\<close> low pages; every other entry is zero.
\<close>

definition no_page :: page_t where "no_page = page_of_word 0"

definition boot_tables :: "memory \<Rightarrow> uint32 \<Rightarrow> nat \<Rightarrow> bool" where
  "boot_tables m D N \<longleftrightarrow> D AND 0xFFF = 0 \<and> unat D \<le> 0x2FA000 \<and> dir_only m D {0, 768}
     \<and> rd32 m (tables_physical_entry D (of_nat 0)) = (D + 0x4000) OR 7
     \<and> rd32 m (tables_physical_entry D (of_nat 768)) = (D + 0x3000) OR 7
     \<and> (\<forall>j < 1024. load_page m (D + 0x4000 + 4 * of_nat j) = (if j < N then mapped_frame j else no_page))
     \<and> (\<forall>j < 1024. load_page m (D + 0x3000 + 4 * of_nat j) = (if j < 256 then mapped_frame (N + j) else no_page))"

lemma boot_tables_keep:
  assumes "boot_tables m D N" "mem_eq_on S m m'" "{unat D ..< unat D + 0x5000} \<subseteq> S"
  shows "boot_tables m' D N"
proof -
  have d: "unat D \<le> 0x2FA000" "unat D + 8196 \<le> 4294967296" using assms(1) by (simp_all add: boot_tables_def)
  have dir: "dir_only m' D {0, 768}" using assms(1,3) by (intro dir_only_step [OF _ assms(2) d(1)]) (auto simp: boot_tables_def)
  have phys: "rd32 m' (tables_physical_entry D (of_nat i)) = rd32 m (tables_physical_entry D (of_nat i))" if "i < 1024" for i
    using entry_addresses [OF d(2) that] that d assms(3) by (intro mem_eq_on_rd32 [OF assms(2)]) auto
  have T: "unat (D + 0x3000) = unat D + 0x3000" "unat (D + 0x4000) = unat D + 0x4000"
    using unat_plus_of_nat [of D "0x3000"] unat_plus_of_nat [of D "0x4000"] d by simp_all
  have "load_page m' (t + 4 * of_nat j) = load_page m (t + 4 * of_nat j)"
    if "j < 1024" "t = D + 0x3000 \<or> t = D + 0x4000" for t j
  proof -
    have "unat (t + 4 * of_nat j) = unat t + 4 * j" using that T d by (intro unat_word_index) auto
    then have "rd32 m' (t + 4 * of_nat j) = rd32 m (t + 4 * of_nat j)"
      using that T d assms(3) by (intro mem_eq_on_rd32 [OF assms(2)]) auto
    then show ?thesis by (simp add: load_page_def)
  qed
  then show ?thesis using assms(1) dir phys [of 0] phys [of 768] by (simp add: boot_tables_def)
qed

text \<open>Up to the third loop: the pages of the heap are mapped as well, to the next frames.\<close>

lemma paging_mapped:
  assumes nk: "kheap s = None" and room: "unat (placement_address s) + 128 + 4096 \<le> 0x2FA000"
    and D: "D = page_aligned (placement_address s + 128)" and N: "N = unat D div 4096 + 6"
  shows "\<exists>m s5. initialise_paging fuel s =
      res_bind (create_heap fuel KHEAP_START (KHEAP_START + KHEAP_INITIAL_SIZE) 0xCFFFF000 0 0
        (switch_page_directory D (register_interrupt_handler 14 page_fault_isr s5))) (\<lambda>(h, s7). Inr (s7\<lparr>kheap := Some h\<rparr>))
    \<and> s5 = s\<lparr>mem := m, placement_address := D + 0x5000, kernel_directory := D, frames := placement_address s, frame_count := 4096\<rparr>
    \<and> (\<forall>k < N. maps s5 k k) \<and> (\<forall>k < 256. maps s5 (heap_page + k) (N + k)) \<and> boot_tables m D N
    \<and> frame_map s5 (N + 256) \<and> table_at s5 768 (D + 0x3000)
    \<and> rd32 m (D + 8192) = D + 4096 \<and> unat D \<le> 0x2FA000 \<and> unat (placement_address s) + 128 \<le> unat D
    \<and> mem_eq_on (- {unat (placement_address s) ..< unat D + 0x5000}) (mem s) m"
proof -
  let ?F = "unat (placement_address s)"
  from paging_low [OF assms, of fuel] obtain m4 s1 s2 s3 s4 where
    run: "alloc_bitmap fuel s = Inr s1" "alloc_directory fuel s1 = Inr s2"
      "page_loop page_fuel (touch_page fuel) (\<lambda>_. KHEAP_START + KHEAP_INITIAL_SIZE) KHEAP_START s2 = Inr s3"
      "page_loop page_fuel (map_page fuel) (\<lambda>s. placement_address s + 0x1000) 0 s3 = Inr s4"
    and s4: "s4 = s\<lparr>mem := m4, placement_address := D + 0x5000, kernel_directory := D, frames := placement_address s, frame_count := 4096\<rparr>"
    and b4: "boot_map s4 N" "table_at s4 768 (D + 0x3000)" and z4: "\<forall>j < 1024. rd32 m4 (D + 0x3000 + 4 * of_nat j) = 0"
    and low: "table_at s4 0 (D + 0x4000)" "\<forall>j < N. load_page m4 (D + 0x4000 + 4 * of_nat j) = mapped_frame j"
    and low0: "\<forall>j < 1024. N \<le> j \<longrightarrow> rd32 m4 (D + 0x4000 + 4 * of_nat j) = 0" "dir_only m4 D {0, 768}"
    and phys: "rd32 m4 (D + 8192) = D + 4096" and d: "unat D \<le> 0x2FA000" "?F + 128 \<le> unat D" "D AND 0xFFF = 0"
    and eq4: "mem_eq_on (- {?F ..< unat D + 0x5000}) (mem s) m4" by blast
  have k4: "kernel_directory s4 = D" "mem s4 = m4" "frames s4 = placement_address s" using s4 by simp_all
  have Nq: "N \<le> 768" using N d(1) by simp
  have T: "unat (D + 0x3000) = unat D + 0x3000" "unat (D + 0x4000) = unat D + 0x4000" "unat (D + 8192) = unat D + 8192"
    using unat_plus_of_nat [of D "0x3000"] unat_plus_of_nat [of D "0x4000"] unat_plus_of_nat [of D 8192] d by simp_all
  obtain m5 where l3: "page_loop page_fuel (map_page fuel) (\<lambda>_. KHEAP_START + KHEAP_INITIAL_SIZE) KHEAP_START s4 = Inr (s4\<lparr>mem := m5\<rparr>)"
    and heap: "\<forall>k < 256. maps (s4\<lparr>mem := m5\<rparr>) (heap_page + k) (N + k)"
    and high: "\<forall>j < 256. load_page m5 (D + 0x3000 + 4 * of_nat j) = mapped_frame (N + j)"
      "\<forall>j < 1024. 256 \<le> j \<longrightarrow> rd32 m5 (D + 0x3000 + 4 * of_nat j) = 0"
    and fm5: "frame_map (s4\<lparr>mem := m5\<rparr>) (N + 256)"
    and eq5: "mem_eq_on (- ({?F ..< ?F + 128} \<union> {unat D + 0x3000 ..< unat D + 0x3000 + 1024})) m4 m5"
    using loop_heap_pages [OF b4(1) Nq b4(2), of fuel] z4 k4(2,3) T(1) by auto
  let ?s5 = "s4\<lparr>mem := m5\<rparr>"
  have t5: "table_at ?s5 0 (D + 0x4000)"
    by (rule table_at_keep [OF low(1), of _ ?s5]) (use eq5 k4 d in auto)
  have t5h: "table_at ?s5 768 (D + 0x3000)"
    by (rule table_at_keep [OF b4(2), of _ ?s5]) (use eq5 k4 d in auto)
  have keep: "rd32 m5 (D + 0x4000 + 4 * of_nat j) = rd32 m4 (D + 0x4000 + 4 * of_nat j)"
    "load_page m5 (D + 0x4000 + 4 * of_nat j) = load_page m4 (D + 0x4000 + 4 * of_nat j)" if "j < 1024" for j
  proof -
    have "{unat (D + 0x4000) + 4 * j ..< unat (D + 0x4000) + 4 * j + 4}
        \<subseteq> - ({?F ..< ?F + 128} \<union> {unat D + 0x3000 ..< unat D + 0x3000 + 1024})" using T d by auto
    from entry_keep [OF low(1) that, unfolded k4(2), OF eq5 this]
    show "rd32 m5 (D + 0x4000 + 4 * of_nat j) = rd32 m4 (D + 0x4000 + 4 * of_nat j)"
      "load_page m5 (D + 0x4000 + 4 * of_nat j) = load_page m4 (D + 0x4000 + 4 * of_nat j)" by simp_all
  qed
  have "maps ?s5 k k" if "k < N" for k
  proof -
    have k: "k div 1024 = 0" "k mod 1024 = k" "k < 1024" using that Nq by simp_all
    have "load_page m5 (D + 0x4000 + 4 * of_nat k) = mapped_frame k" using keep [OF k(3)] low(2) that by simp
    then show ?thesis using t5 unfolding maps_def k by auto
  qed
  moreover have "dir_only m5 D {0, 768}" by (rule dir_only_step [OF low0(2) eq5 d(1)]) (use d in auto)
  then have "boot_tables m5 D N"
    using t5 t5h keep low(2) low0(1) high d(1,3) k4(1)
    by (auto simp: boot_tables_def table_at_def no_page_def load_page_def)
  moreover have "rd32 m5 (D + 8192) = rd32 m4 (D + 8192)"
    using T d by (intro mem_eq_on_rd32 [OF eq5]) auto
  moreover have "mem_eq_on (- {?F ..< unat D + 0x5000}) (mem s) m5"
    by (rule mem_eq_on_trans [OF eq4 mem_eq_on_mono [OF eq5]]) (use d in auto)
  moreover have "?s5 = s\<lparr>mem := m5, placement_address := D + 0x5000, kernel_directory := D, frames := placement_address s, frame_count := 4096\<rparr>"
    unfolding s4 by simp
  moreover have "initialise_paging fuel s =
      res_bind (create_heap fuel KHEAP_START (KHEAP_START + KHEAP_INITIAL_SIZE) 0xCFFFF000 0 0
        (switch_page_directory D (register_interrupt_handler 14 page_fault_isr ?s5))) (\<lambda>(h, s7). Inr (s7\<lparr>kheap := Some h\<rparr>))"
    using k4(1) by (simp add: initialise_paging_def run l3 Let_def)
  ultimately show ?thesis using heap phys d fm5 t5h by (intro exI [of _ m5] exI [of _ ?s5]) simp
qed

lemma create_heap_state:
  assumes "kheap s = None" "create_heap fuel start0 end_addr mx sv ro s = Inr (h, s')"
  shows "\<exists>m. s' = s\<lparr>placement_address := placement_address s + sizeof_heap_t, mem := m\<rparr>"
  using assms(2) unfolding create_heap_def create_heap_with_def kmalloc_before_heap [OF assms(1)]
  by (auto simp: res_bind_eq_Inr Let_def split: prod.splits)

lemma initialise_paging_result:
  assumes nk: "kheap s = None" and room: "unat (placement_address s) + 128 + 4096 \<le> 0x2FA000"
    and D: "D = page_aligned (placement_address s + 128)" and N: "N = unat D div 4096 + 6"
    and n: "n + 20 \<le> 0x80000" and zero: "\<forall>a. unat a \<in> {0xC0000000 ..< 0xC0100000} \<longrightarrow> mem s a = 0"
  shows "\<exists>s'. initialise_paging fuel s = Inr s'
    \<and> current_directory s' = D \<and> kernel_directory s' = D \<and> cr3 s' = D + 4096 \<and> cr0 s' = cr0 s OR 0x80000000
    \<and> (\<forall>k < N. maps s' k k) \<and> (\<forall>k < 256. maps s' (heap_page + k) (N + k))
    \<and> unat (frames s') + 128 \<le> unat D \<and> boot_tables (mem s') D N
    \<and> frame_map s' (N + 256) \<and> table_at s' 768 (D + 0x3000)
    \<and> interrupt_handlers s' = (interrupt_handlers s)(14 \<mapsto> page_fault_isr)
    \<and> (\<exists>h. heap_rep s' h [(0x80000, True)] \<and> start_address h = 0xC0080000 \<and> end_address h = 0xC0100000
         \<and> array (index h) = 0xC0000000 \<and> max_address h = 0xCFFFF000)
    \<and> heap_avail s' {0xC0000000 ..< 0xC0100000} n
    \<and> mem_eq_on (- ({unat (placement_address s) ..< unat D + 0x5000} \<union> {0xC0000000 ..< 0xC0100000})) (mem s) (mem s')"
proof -
  from paging_mapped [OF nk room D N, of fuel] obtain m s5 where
    run: "initialise_paging fuel s = res_bind (create_heap fuel KHEAP_START (KHEAP_START + KHEAP_INITIAL_SIZE) 0xCFFFF000 0 0
        (switch_page_directory D (register_interrupt_handler 14 page_fault_isr s5))) (\<lambda>(h, s7). Inr (s7\<lparr>kheap := Some h\<rparr>))"
    and s5: "s5 = s\<lparr>mem := m, placement_address := D + 0x5000, kernel_directory := D, frames := placement_address s, frame_count := 4096\<rparr>"
    and maps: "\<forall>k < N. maps s5 k k" "\<forall>k < 256. maps s5 (heap_page + k) (N + k)" "boot_tables m D N"
    and fm: "frame_map s5 (N + 256)" "table_at s5 768 (D + 0x3000)"
    and phys: "rd32 m (D + 8192) = D + 4096" "unat D \<le> 0x2FA000" "unat (placement_address s) + 128 \<le> unat D"
    and eq: "mem_eq_on (- {unat (placement_address s) ..< unat D + 0x5000}) (mem s) m" by blast
  let ?s6 = "switch_page_directory D (register_interrupt_handler 14 page_fault_isr s5)"
  have h: "unat KHEAP_START = 0xC0000000" "unat (KHEAP_START + KHEAP_INITIAL_SIZE) = 0xC0100000"
    by (simp_all add: KHEAP_START_def KHEAP_INITIAL_SIZE_def)
  have k6: "kheap ?s6 = None" "mem ?s6 = m" "kernel_directory ?s6 = D" "current_directory ?s6 = D" "cr3 ?s6 = D + 4096"
    "cr0 ?s6 = cr0 s OR 0x80000000"
    using nk phys s5 by (simp_all add: switch_page_directory_def register_interrupt_handler_def)
  have f6: "frames ?s6 = placement_address s" "interrupt_handlers ?s6 = (interrupt_handlers s)(14 \<mapsto> page_fault_isr)"
    by (simp_all add: s5 switch_page_directory_def register_interrupt_handler_def)
  have "m a = 0" if "unat a \<in> {0xC0000000 ..< 0xC0100000}" for a
    using zero that mem_eq_onD [OF eq, of a] phys(2) by auto
  then obtain hp s7 where s7: "create_heap fuel KHEAP_START (KHEAP_START + KHEAP_INITIAL_SIZE) 0xCFFFF000 0 0 ?s6 = Inr (hp, s7)"
    "heap_avail (s7\<lparr>kheap := Some hp\<rparr>) {0xC0000000 ..< 0xC0100000} n"
    "mem_eq_on (- {0xC0000000 ..< 0xC0100000}) m (mem s7)"
    using create_heap_avail [OF k6(1), of KHEAP_START "KHEAP_START + KHEAP_INITIAL_SIZE" n fuel "0xCFFFF000" 0 0] n k6(2)
    unfolding h by (auto simp: KHEAP_START_def KHEAP_INITIAL_SIZE_def)
  from create_heap_rep [OF k6(1), of KHEAP_START "KHEAP_START + KHEAP_INITIAL_SIZE" fuel "0xCFFFF000" 0 0] s7(1) h
  have rep: "heap_rep (s7\<lparr>kheap := Some hp\<rparr>) hp [(0x80000, True)] \<and> start_address hp = 0xC0080000
      \<and> end_address hp = 0xC0100000 \<and> array (index hp) = 0xC0000000 \<and> max_address hp = 0xCFFFF000"
    by (auto simp: KHEAP_START_def KHEAP_INITIAL_SIZE_def word_unat_eq_iff)
  from create_heap_state [OF k6(1) s7(1)] have k7: "frames s7 = placement_address s" "frame_count s7 = 4096" "interrupt_handlers s7 = (interrupt_handlers s)(14 \<mapsto> page_fault_isr)" "kernel_directory s7 = D" "current_directory s7 = D" "cr3 s7 = D + 4096"
    "cr0 s7 = cr0 s OR 0x80000000" using k6 f6 s5 by (auto simp: switch_page_directory_def register_interrupt_handler_def)
  let ?s' = "s7\<lparr>kheap := Some hp\<rparr>"
  have d5: "kernel_directory s5 = D" "frames s5 = placement_address s" "frame_count s5 = 4096" "mem s5 = m" using s5 by simp_all
  have "frame_map ?s' (N + 256)"
    by (rule frame_map_keep [OF fm(1), of "- {0xC0000000 ..< 0xC0100000}"]) (use s7(3) d5 k7 phys in auto)
  moreover have "table_at ?s' 768 (D + 0x3000)"
    by (rule table_at_keep [OF fm(2), of "- {0xC0000000 ..< 0xC0100000}"]) (use s7(3) d5 k7 phys in auto)
  moreover have "maps ?s' k f" if "maps s5 k f" for k f
    by (rule maps_keep [OF that, of "- {0xC0000000 ..< 0xC0100000}"]) (use s7(3) s5 k7 in auto)
  moreover have "mem_eq_on (- ({unat (placement_address s) ..< unat D + 0x5000} \<union> {0xC0000000 ..< 0xC0100000})) (mem s) (mem ?s')"
    using mem_eq_on_trans [OF mem_eq_on_mono [OF eq] mem_eq_on_mono [OF s7(3)]] by auto
  moreover have "{unat D ..< unat D + 0x5000} \<subseteq> - {0xC0000000 ..< 0xC0100000}" using phys(2) by auto
  from boot_tables_keep [OF maps(3) s7(3) this] have bt: "boot_tables (mem ?s') D N" by simp
  ultimately show ?thesis
    using run s7(1,2) k7 maps rep phys(3) bt by (intro exI [of _ ?s']) auto
qed

end
