(* ===== verification/MemFrame.thy ===== *)
theory MemFrame
  imports PageInit
begin

text \<open>
  What the memory management never touches, whatever it is asked for and whether or not the
  heap is well formed: the directories, the frame bitmap's place, the registers of the
  processor and the table of interrupt handlers. One lemma per operation of kheap.c and of the
  part of paging.c that it calls.
\<close>

definition same_globals :: "kstate \<Rightarrow> kstate \<Rightarrow> bool" where
  "same_globals s s' \<longleftrightarrow> kernel_directory s' = kernel_directory s \<and> current_directory s' = current_directory s
     \<and> frames s' = frames s \<and> frame_count s' = frame_count s \<and> interrupt_handlers s' = interrupt_handlers s
     \<and> cr0 s' = cr0 s \<and> cr3 s' = cr3 s"

named_theorems globals "operations that keep the globals"

lemma same_globals_refl [simp, intro]: "same_globals s s"
  by (simp add: same_globals_def)

lemma same_globals_trans [trans]: "same_globals s1 s2 \<Longrightarrow> same_globals s2 s3 \<Longrightarrow> same_globals s1 s3"
  by (simp add: same_globals_def)

lemma same_globals_upd [simp]:
  "same_globals s (s'\<lparr>mem := m\<rparr>) = same_globals s s'" "same_globals s (s'\<lparr>kheap := h\<rparr>) = same_globals s s'"
  "same_globals s (s'\<lparr>placement_address := p\<rparr>) = same_globals s s'"
  "same_globals (s\<lparr>mem := m\<rparr>) s' = same_globals s s'"
  by (simp_all add: same_globals_def)

section \<open>Pages\<close>

lemma set_frame_globals [simp]: "same_globals s (set_frame a s)" "same_globals s (clear_frame a s)"
  by (simp_all add: set_frame_def clear_frame_def Let_def)

lemma free_frame_globals [simp]: "same_globals s (free_frame page s)"
  by (simp add: free_frame_def Let_def)

lemma alloc_frame_globals [globals]: "alloc_frame page k w s = Inr s' \<Longrightarrow> same_globals s s'"
  by (auto simp: alloc_frame_def res_bind_eq_Inr Let_def split: if_splits)

lemma get_page_globals:
  assumes "\<And>sz s p q s'. kap sz s = Inr (p, q, s') \<Longrightarrow> same_globals s s'" "get_page_with kap a mk dir s = Inr (p, s')"
  shows "same_globals s s'"
  using assms(2) by (auto simp: get_page_with_def res_bind_eq_Inr Let_def split: if_splits dest: assms(1))

lemma get_page_no_alloc_globals [globals]: "get_page_with no_alloc a mk dir s = Inr (p, s') \<Longrightarrow> same_globals s s'"
  by (erule get_page_globals [rotated]) (simp add: no_alloc_def)

section \<open>The index\<close>

lemma index_globals [globals]:
  "insert_index item s = Inr s' \<Longrightarrow> same_globals s s'"
  "remove_index i s = Inr s' \<Longrightarrow> same_globals s s'"
  by (auto simp: insert_index_def remove_index_def res_bind_eq_Inr case_prod_beta)

section \<open>alloc\<close>

text \<open>An allocator of the heap that keeps the globals.\<close>

definition alloc_keeps :: "alloc_fn \<Rightarrow> bool" where
  "alloc_keeps al \<longleftrightarrow> (\<forall>sz pa s p s'. al sz pa s = Inr (p, s') \<longrightarrow> same_globals s s')"

lemma alloc_keepsD: "alloc_keeps al \<Longrightarrow> al sz pa s = Inr (p, s') \<Longrightarrow> same_globals s s'"
  by (auto simp: alloc_keeps_def)

lemma kmalloc_int_with_globals:
  assumes "alloc_keeps al" "kmalloc_int_with al sz al' want s = Inr (p, q, s')"
  shows "same_globals s s'"
  using assms(2)
  by (auto simp: kmalloc_int_with_def placement_alloc_def res_bind_eq_Inr Let_def split: option.splits if_splits
      dest!: alloc_keepsD [OF assms(1)] get_page_no_alloc_globals intro: same_globals_trans)

lemma expand_loop_globals:
  assumes al: "alloc_keeps al"
  shows "expand_loop (kmalloc_ap_with al) fuel i n s = Inr s' \<Longrightarrow> same_globals s s'"
proof (induction fuel arbitrary: i s)
  case (Suc fuel)
  show ?case
  proof (cases "i < n")
    case True
    with Suc.prems obtain h :: heap_t and page s1 s2 where
      r: "get_page_with (kmalloc_ap_with al) (start_address h + i) True (kernel_directory s) s = Inr (page, s1)"
      "alloc_frame page (if supervisor h \<noteq> 0 then 1 else 0) (if readonly h \<noteq> 0 then 0 else 1) s1 = Inr s2"
      "expand_loop (kmalloc_ap_with al) fuel (i + PAGE_SIZE) n s2 = Inr s'"
      by (auto simp: res_bind_eq_Inr)
    have "same_globals s s1"
      by (rule get_page_globals [OF _ r(1)]) (simp add: kmalloc_ap_with_def kmalloc_int_with_globals [OF al])
    also have "same_globals s1 s2" using r(2) by (rule alloc_frame_globals)
    also have "same_globals s2 s'" using r(3) by (rule Suc.IH)
    finally show ?thesis .
  next
    case False
    then show ?thesis using Suc.prems by simp
  qed
qed simp

lemma alloc_grow_globals:
  assumes al: "alloc_keeps al" and run: "alloc_grow al n s = Inr s'"
  shows "same_globals s s'"
proof -
  from run obtain h s1 where s1: "expand_with al (heap_length h + n) s = Inr s1"
    "same_globals s1 s'"
    by (fastforce simp: alloc_grow_def res_bind_eq_Inr Let_def split: if_splits dest: index_globals(1))
  have "same_globals s s1" using s1(1)
    by (auto simp: expand_with_def res_bind_eq_Inr Let_def dest: expand_loop_globals [OF al])
  with s1(2) show ?thesis by (blast intro: same_globals_trans)
qed

lemma alloc_place_globals [globals]: "alloc_place sz n pa i s = Inr (p, s') \<Longrightarrow> same_globals s s'"
  by (fastforce simp: alloc_place_def res_bind_eq_Inr Let_def split: if_splits
      dest!: index_globals intro: same_globals_trans)

lemma alloc_globals: "alloc_keeps (alloc fuel)"
proof (induction fuel)
  case (Suc fuel)
  show ?case unfolding alloc_keeps_def
  proof (intro allI impI)
    fix sz pa s p s' assume run: "alloc (Suc fuel) sz pa s = Inr (p, s')"
    show "same_globals s s'"
    proof (cases "\<exists>s1. alloc_grow (alloc fuel) (sz + sizeof_header_t + sizeof_footer_t) s = Inr s1 \<and> alloc fuel sz pa s1 = Inr (p, s')")
      case True
      then show ?thesis using alloc_grow_globals [OF Suc] alloc_keepsD [OF Suc] by (blast intro: same_globals_trans)
    next
      case False
      then show ?thesis using run
        by (auto simp: res_bind_eq_Inr Let_def split: if_splits dest: alloc_place_globals)
    qed
  qed
qed (simp add: alloc_keeps_def)

section \<open>The kmalloc family and free\<close>

lemma kmalloc_globals [globals]:
  "kmalloc fuel sz s = Inr (p, s') \<Longrightarrow> same_globals s s'" "kmalloc_a fuel sz s = Inr (p, s') \<Longrightarrow> same_globals s s'"
  "kmalloc_p fuel sz s = Inr (p, q, s') \<Longrightarrow> same_globals s s'" "kmalloc_ap fuel sz s = Inr (p, q, s') \<Longrightarrow> same_globals s s'"
  by (auto simp: kmalloc_def kmalloc_a_def kmalloc_p_def kmalloc_ap_def drop_phys_def kmalloc_int_def res_bind_eq_Inr
      dest: kmalloc_int_with_globals [OF alloc_globals])

lemma contract_loop_globals: "contract_loop fuel n i s = Inr s' \<Longrightarrow> same_globals s s'"
proof (induction fuel arbitrary: i s)
  case (Suc fuel)
  show ?case
  proof (cases "n < i")
    case True
    with Suc.prems obtain h :: heap_t and page s1 where
      r: "get_page_with no_alloc (start_address h + i) False (kernel_directory s) s = Inr (page, s1)"
      "contract_loop fuel n (i - PAGE_SIZE) (free_frame page s1) = Inr s'"
      by (auto simp: res_bind_eq_Inr)
    have "same_globals s s1" using r(1) by (rule get_page_no_alloc_globals)
    also have "same_globals s1 (free_frame page s1)" by simp
    also have "same_globals (free_frame page s1) s'" using r(2) by (rule Suc.IH)
    finally show ?thesis .
  next
    case False
    then show ?thesis using Suc.prems by simp
  qed
qed simp

lemma free_globals [globals]: "free p s = Inr s' \<Longrightarrow> same_globals s s'"
proof -
  have ur: "unify_right hd ft s = Inr (ft', s') \<Longrightarrow> same_globals s s'" for hd ft s ft' s'
    by (auto simp: unify_right_def res_bind_eq_Inr Let_def split: if_splits dest: index_globals)
  have ct: "contract n s = Inr (k, s') \<Longrightarrow> same_globals s s'" for n s k s'
    by (auto simp: contract_def res_bind_eq_Inr Let_def dest: contract_loop_globals)
  have fc: "free_contract hd ft th s = Inr s' \<Longrightarrow> same_globals s s'" for hd ft th s s'
    by (fastforce simp: free_contract_def res_bind_eq_Inr Let_def split: if_splits
        dest!: ct index_globals(2) intro: same_globals_trans)
  assume "free p s = Inr s'"
  then show ?thesis
    by (fastforce simp: free_def res_bind_eq_Inr Let_def split: if_splits prod.splits
        dest!: ur fc index_globals(1) intro: same_globals_trans)
qed

end
