(* ===== verification/Boot.thy ===== *)
theory Boot
  imports Kernel PagingBoot MemFrame
begin

text \<open>
  kernel_main from the boot loader to the idle loop: the components together, on a ram disk
  that create_initrd.c has written.
\<close>

text \<open>What initialise_paging writes above the ram disk that ends at \<open>e\<close>, and the heap.\<close>

definition taken :: "uint32 \<Rightarrow> nat set" where
  "taken e = {unat e ..< unat e + 0x7000} \<union> {0xC0000000 ..< 0xC0100000}"

text \<open>Where the boot loader and the linker put things: the ram disk of \<open>isize\<close> bytes at \<open>loc\<close>.\<close>

definition boot_layout :: "link_map \<Rightarrow> uint32 \<Rightarrow> nat \<Rightarrow> uint32 \<Rightarrow> bool" where
  "boot_layout lm loc isize e \<longleftrightarrow>
     (let sy = fs_symbols lm; buf = print_buf lm; entry = dirent_region sy \<union> {unat buf ..< unat buf + 256};
          image = image_region loc isize; literals = literal_region sy
      in unat e + 128 + 4096 \<le> 0x2FA000 \<and> unat loc + isize < 4294967296
       \<and> (image \<union> literals) \<inter> taken e = {} \<and> literals \<inter> image = {}
       \<and> unat buf + 256 < 4294967296 \<and> unat (sym_dirent sy) + 132 < 4294967296 \<and> sym_dirent sy \<noteq> 0
       \<and> entry \<inter> (taken e \<union> image \<union> literals) = {})"

text \<open>The multiboot structure names one module, from \<open>loc\<close> to \<open>e\<close>.\<close>

definition boot_info :: "memory \<Rightarrow> uint32 \<Rightarrow> uint32 \<Rightarrow> uint32 \<Rightarrow> bool" where
  "boot_info m mboot_ptr loc e \<longleftrightarrow> mods_count m mboot_ptr > 0
     \<and> rd32 m (mods_addr m mboot_ptr) = loc \<and> rd32 m (mods_addr m mboot_ptr + 4) = e"

lemma create_filesystem_result:
  "boot_info (mem s) mboot_ptr loc e \<Longrightarrow> create_filesystem mboot_ptr s = Inr (loc, s\<lparr>placement_address := e\<rparr>)"
  by (simp add: boot_info_def create_filesystem_def Let_def)

section \<open>What booting leaves alone\<close>

lemma initialise_initrd_globals:
  "initialise_initrd fuel sy loc s = Inr (root, ir, s') \<Longrightarrow> same_globals s s'"
  by (fastforce simp: initialise_initrd_def initialise_initrd_with_def res_bind_eq_Inr Let_def
      dest!: kmalloc_globals(1) intro: same_globals_trans)

text \<open>The machine outside memory, the screen and the interrupt flag.\<close>

definition same_machine :: "machine \<Rightarrow> machine \<Rightarrow> bool" where
  "same_machine m m' \<longleftrightarrow> keyboard_flags m' = keyboard_flags m \<and> tick m' = tick m \<and> current_task m' = current_task m
     \<and> ready_queue m' = ready_queue m \<and> m_ports m' = m_ports m
     \<and> interrupt_handlers (ks m') = interrupt_handlers (ks m)"

lemma same_machine_refl [simp]: "same_machine m m"
  by (simp add: same_machine_def)

lemma same_machine_kernel [simp]:
  "same_machine (mach (set_kmem x k)) m = same_machine (mach k) m" "same_machine (mach (screen_do f k)) m = same_machine (mach k) m"
  "same_machine (mach (deact_itr k)) m = same_machine (mach k) m"
  "same_machine m (mach (set_kmem x k)) = same_machine m (mach k)" "same_machine m (mach (screen_do f k)) = same_machine m (mach k)"
  "same_machine m (mach (act_itr k)) = same_machine m (mach k)"
  by (simp_all add: same_machine_def set_kmem_def screen_do_def act_itr_def deact_itr_def)

lemma print_loop_machine: "print_loop fuel sy buf i k = Inr k' \<Longrightarrow> same_machine (mach k) (mach k')"
proof (induction fuel arbitrary: i k)
  case (Suc fuel)
  then show ?case by (auto simp: res_bind_eq_Inr Let_def split: if_splits dest!: Suc.IH)
qed simp

lemma print_filesystem_machine:
  "print_filesystem_contents fuel sy buf k = Inr k' \<Longrightarrow> same_machine (mach k) (mach k')"
  by (auto simp: print_filesystem_contents_def res_bind_eq_Inr Let_def split: if_splits dest!: print_loop_machine)

text \<open>The handlers at the end of kernel_main: its call of init_timer is commented out.\<close>

definition booted :: "machine \<Rightarrow> machine \<Rightarrow> bool" where
  "booted m m' \<longleftrightarrow> same_machine (m\<lparr>ks := (ks m)\<lparr>interrupt_handlers :=
      (\<lambda>_. None)(14 \<mapsto> page_fault_isr, IRQ1 \<mapsto> keyboard_handler_isr)\<rparr>\<rparr>) m' \<and> interrupts_on m'"

section \<open>kernel_main\<close>

text \<open>Paging leaves the ram disk and the literals alone and gives the file system its heap.\<close>

lemma boot_mounts:
  assumes lay: "boot_layout lm loc isize (placement_address s)" and nk: "kheap s = None"
    and zero: "\<forall>a. unat a \<in> {0xC0000000 ..< 0xC0100000} \<longrightarrow> mem s a = 0"
    and lnk: "linked (fs_symbols lm) (mem s)" and len: "length files \<le> 64"
    and img: "\<And>m. mem_eq_on (- taken (placement_address s)) (mem s) m \<Longrightarrow> image_at m loc isize files"
  shows "\<exists>s3 s4 ir. initialise_paging (Suc fuel) s = Inr s3
    \<and> initialise_initrd (Suc fuel) (fs_symbols lm) loc s3 = Inr (initrd_root ir, ir, s4)
    \<and> mounted (fs_symbols lm) ir isize (mem s4) files \<and> print_layout (fs_symbols lm) ir isize (length files) (print_buf lm)
    \<and> interrupt_handlers s4 = (interrupt_handlers s)(14 \<mapsto> page_fault_isr)"
proof -
  let ?sy = "fs_symbols lm" and ?e = "placement_address s" and ?H = "{0xC0000000 ..< 0xC0100000 :: nat}"
  have l: "unat ?e + 128 + 4096 \<le> 0x2FA000" "image_region loc isize \<inter> taken ?e = {}" "literal_region ?sy \<inter> taken ?e = {}"
    "literal_region ?sy \<inter> image_region loc isize = {}"
    using lay by (auto simp: boot_layout_def Let_def)
  let ?D = "page_aligned (?e + 128)"
  have "unat (?e + 128) = unat ?e + 128" using unat_plus_of_nat [of ?e 128] l(1) by simp
  then have D: "unat ?D < unat ?e + 128 + 4096" using page_aligned_nat [of "?e + 128"] l(1) by simp
  have H: "?H \<subseteq> taken ?e" by (auto simp: taken_def)
  from initialise_paging_result [OF nk l(1) refl refl _ zero, of "0x80000 - 20" "Suc fuel"] obtain s3 where
    s3: "initialise_paging (Suc fuel) s = Inr s3" "heap_avail s3 ?H (0x80000 - 20)"
    "mem_eq_on (- ({unat ?e ..< unat ?D + 0x5000} \<union> ?H)) (mem s) (mem s3)"
    "interrupt_handlers s3 = (interrupt_handlers s)(14 \<mapsto> page_fault_isr)" by auto
  have eq: "mem_eq_on (- taken ?e) (mem s) (mem s3)"
    by (rule mem_eq_on_mono [OF s3(3)]) (use D in \<open>auto simp: taken_def\<close>)
  have lnk3: "linked ?sy (mem s3)" by (rule linked_eq_on [OF lnk eq]) (use l(3) in blast)
  have dis: "?H \<inter> (image_region loc isize \<union> literal_region ?sy) = {}" using l(2,3) H by blast
  have "184 + 20 + (184 + 20 + (184 * length files + 20 + (0x80000 - 20 - (428 + 184 * length files)))) = 0x80000 - (20 :: nat)"
    using len by simp
  with s3(2) have "heap_avail s3 ?H (184 + 20 + (184 + 20 + (184 * length files + 20 + (0x80000 - 20 - (428 + 184 * length files)))))"
    by simp
  from fresh_heap.initialise_mounts [OF this img [OF eq] lnk3 dis l(4), of fuel] obtain ir s4 where
    s4: "initialise_initrd_with (kmalloc (Suc fuel)) ?sy loc s3 = Inr (initrd_root ir, ir, s4)" "initrd_header ir = loc"
    "mounted ?sy ir isize (mem s4) files"
    "{unat (root_nodes ir) ..< unat (root_nodes ir) + 184 * length files} \<subseteq> ?H"
    "{unat (initrd_root ir) ..< unat (initrd_root ir) + 184} \<subseteq> ?H"
    "{unat (initrd_dev ir) ..< unat (initrd_dev ir) + 184} \<subseteq> ?H" by blast
  have "fs_region ?sy ir isize (length files) \<subseteq> taken ?e \<union> image_region loc isize \<union> literal_region ?sy"
    using s4(2,4-6) H unfolding fs_region_def literal_region_def by blast
  then have "print_layout ?sy ir isize (length files) (print_buf lm)"
    using lay unfolding print_layout_def boot_layout_def Let_def by blast
  moreover have run: "initialise_initrd (Suc fuel) ?sy loc s3 = Inr (initrd_root ir, ir, s4)"
    using s4(1) by (simp add: initialise_initrd_def)
  then have "interrupt_handlers s4 = (interrupt_handlers s)(14 \<mapsto> page_fault_isr)"
    using initialise_initrd_globals s3(4) by (fastforce simp: same_globals_def)
  ultimately show ?thesis using s3(1) s4(3) run by blast
qed

text \<open>What kernel_main writes before it lists the files.\<close>

definition banner :: "monitor_t \<Rightarrow> monitor_t" where
  "banner s = monitor_write (cstr ([newline] @ ''=========================='' @ [newline]))
     (monitor_write (cstr (''Welcome to Josue's Panda OS'' @ [newline])) (monitor_clear s))"

lemma kernel_main_mounts:
  assumes info: "boot_info (kmem k) mboot_ptr loc e" and lay: "boot_layout lm loc isize e" and nk: "kheap (ks (mach k)) = None"
    and zero: "\<forall>a. unat a \<in> {0xC0000000 ..< 0xC0100000} \<longrightarrow> kmem k a = 0" and lnk: "linked (fs_symbols lm) (kmem k)"
    and img: "\<And>m. mem_eq_on (- taken e) (kmem k) m \<Longrightarrow> image_at m loc isize files" and len: "length files \<le> 64"
    and names: "distinct (map fst files)" "dev_name \<notin> fst ` set files" and fuel: "length files + 2 \<le> fuel"
  shows "\<exists>k'. kernel_main fuel lm mboot_ptr initial_stack k = Inr k'
    \<and> mon (mach k') = monitor_write (cstr [newline]) (fold show_file files (show_dir dev_name (banner (mon (mach k)))))
    \<and> mounted (fs_symbols lm) (initrd k') isize (kmem k') files \<and> booted (mach k) (mach k')"
proof -
  obtain f where f: "fuel = Suc f" using fuel by (cases fuel) auto
  obtain d1 s1 where i: "init_descriptor_tables (isr_stub lm) (irq_stub lm) (gdt_addr lm) (idt_addr lm) (dts k, ks (mach k)) = (d1, s1)"
    and s1: "s1 = (ks (mach k))\<lparr>interrupt_handlers := (\<lambda>_. None)\<rparr>" by (simp add: init_descriptor_tables_def)
  let ?s2 = "s1\<lparr>placement_address := e\<rparr>"
  have cf: "create_filesystem mboot_ptr s1 = Inr (loc, ?s2)"
    using info s1 by (intro create_filesystem_result) (simp add: kmem_def)
  have "boot_layout lm loc isize (placement_address ?s2)" "kheap ?s2 = None" "\<forall>a. unat a \<in> {0xC0000000 ..< 0xC0100000} \<longrightarrow> mem ?s2 a = 0"
    "linked (fs_symbols lm) (mem ?s2)" "\<And>m. mem_eq_on (- taken (placement_address ?s2)) (mem ?s2) m \<Longrightarrow> image_at m loc isize files"
    using lay nk zero lnk img by (simp_all add: s1 kmem_def)
  from boot_mounts [OF this(1-4) len this(5), of f] obtain s3 s4 ir where
    run: "initialise_paging fuel ?s2 = Inr s3" "initialise_initrd fuel (fs_symbols lm) loc s3 = Inr (initrd_root ir, ir, s4)"
    and m: "mounted (fs_symbols lm) ir isize (mem s4) files" "print_layout (fs_symbols lm) ir isize (length files) (print_buf lm)"
    and h4: "interrupt_handlers s4 = (\<lambda>_. None)(14 \<mapsto> page_fault_isr)"
    unfolding f by (auto simp: s1)
  let ?k1 = "screen_do monitor_clear (set_kstate s1 (k\<lparr>initial_esp := initial_stack, dts := d1\<rparr>))"
  let ?k4 = "(set_kstate s4 ?k1)\<lparr>fs_root := initrd_root ir, initrd := ir\<rparr>"
  let ?k5 = "act_itr (?k4\<lparr>mach := install_keyboard_driver (mach ?k4)\<rparr>)"
  let ?k6 = "screen_do (\<lambda>s. monitor_write (cstr ([newline] @ ''=========================='' @ [newline]))
      (monitor_write (cstr (''Welcome to Josue's Panda OS'' @ [newline])) s)) ?k5"
  have k6: "kmem ?k6 = mem s4" "initrd ?k6 = ir" "fs_root ?k6 = initrd_root ir" "mon (mach ?k6) = banner (mon (mach k))"
    by (simp_all add: kmem_def screen_do_def set_kstate_def act_itr_def install_keyboard_driver_def m_register_def
        register_interrupt_handler_def banner_def)
  have "kernel_main fuel lm mboot_ptr initial_stack k = print_filesystem_contents fuel (fs_symbols lm) (print_buf lm) ?k6"
  proof -
    have "ks (mach ?k1) = s1" by (simp add: screen_do_def set_kstate_def)
    then show ?thesis unfolding kernel_main_def i by (simp add: cf run Let_def)
  qed
  moreover have "mounted (fs_symbols lm) (initrd ?k6) isize (kmem ?k6) files" "fs_root ?k6 = initrd_root (initrd ?k6)"
    "print_layout (fs_symbols lm) (initrd ?k6) isize (length files) (print_buf lm)"
    using m unfolding k6 by simp_all
  from print_filesystem_mounted [OF this names fuel] have "\<exists>k'. print_filesystem_contents fuel (fs_symbols lm) (print_buf lm) ?k6 = Inr k'
      \<and> mon (mach k') = monitor_write (cstr [newline]) (fold show_file files (show_dir dev_name (mon (mach ?k6))))
      \<and> mounted (fs_symbols lm) (initrd k') isize (kmem k') files \<and> interrupts_on (mach k')" .
  then obtain k' where k': "print_filesystem_contents fuel (fs_symbols lm) (print_buf lm) ?k6 = Inr k'"
    "mon (mach k') = monitor_write (cstr [newline]) (fold show_file files (show_dir dev_name (mon (mach ?k6))))"
    "mounted (fs_symbols lm) (initrd k') isize (kmem k') files" "interrupts_on (mach k')" by blast
  have "booted (mach k) (mach k')"
    using print_filesystem_machine [OF k'(1)] k'(4) h4
    by (simp add: booted_def same_machine_def screen_do_def set_kstate_def act_itr_def install_keyboard_driver_def
        m_register_def register_interrupt_handler_def)
  ultimately show ?thesis using k' unfolding k6(4) by (intro exI [of _ k']) simp
qed

text \<open>
  The image of create_initrd.c, loaded by the boot loader as the first module below 3 MB, is
  what kernel_main_mounts asks for.
\<close>

lemma kernel_main_files:
  assumes "args_ok fopen args" "stack_headers stack" "distinct (map snd args)" "dev_name \<notin> snd ` set args"
    and "create_initrd_main fopen stack (command_line prog args) = Inr (0, Some img)"
    and "bytes (kmem k) loc (length img) = img" "boot_info (kmem k) mboot_ptr loc e" "boot_layout lm loc (length img) e"
    and "linked (fs_symbols lm) (kmem k)" "kheap (ks (mach k)) = None"
    and "\<forall>a. unat a \<in> {0xC0000000 ..< 0xC0100000} \<longrightarrow> kmem k a = 0" "length args + 2 \<le> fuel"
  shows "\<exists>k'. kernel_main fuel lm mboot_ptr initial_stack k = Inr k'
    \<and> mon (mach k') = monitor_write (cstr [newline])
        (fold show_file (image_files fopen args) (show_dir dev_name (banner (mon (mach k)))))
    \<and> mounted (fs_symbols lm) (initrd k') (length img) (kmem k') (image_files fopen args) \<and> booted (mach k) (mach k')"
proof (rule kernel_main_mounts [OF assms(7,8,10,11,9)])
  from create_initrd_image [OF assms(1,2), of prog] assms(5) obtain hs' where
    hs': "stack_headers hs'" "\<forall>j < length args. header_for fopen args j (hs' ! j)"
    "img = le32 (of_nat (length args)) @ concat (map header_bytes hs') @ concat (map snd (image_files fopen args))" by auto
  fix m assume eq: "mem_eq_on (- taken e) (kmem k) m"
  have fits: "unat loc + length img < 4294967296" "image_region loc (length img) \<inter> taken e = {}"
    using assms(8) by (auto simp: boot_layout_def Let_def)
  then have "{unat loc ..< unat loc + length img} \<subseteq> - taken e" by (auto simp: image_region_def)
  from bytes_eq_on [OF eq this] fits(1) assms(6) have "bytes m loc (length img) = img" by simp
  from image_loaded [OF assms(1) hs' this fits(1)] show "image_at m loc (length img) (image_files fopen args)" .
next
  show "length (image_files fopen args) \<le> 64" "length (image_files fopen args) + 2 \<le> fuel"
    using assms(1,12) by (simp_all add: args_ok_def image_files_def)
  show "distinct (map fst (image_files fopen args))" "dev_name \<notin> fst ` set (image_files fopen args)"
    using assms(3,4) by (auto simp: image_files_def file_of_def comp_def image_image)
qed

section \<open>A concrete boot\<close>

text \<open>The image of one file at 2 MB; the multiboot structure is at 0x9000, the module list at 0x9100.\<close>

definition boot_links :: link_map where
  "boot_links = \<lparr>gdt_addr = 0x101000, idt_addr = 0x102000, isr_stub = (\<lambda>n. 0x103000), irq_stub = (\<lambda>n. 0x104000),
     fs_symbols = demo_symbols, print_buf = 0x300200\<rparr>"

definition boot_memory :: "uint8 list \<Rightarrow> memory" where
  "boot_memory img = wr32 (wr32 (wr32 (wr32 (demo_memory img) 0x9014 1) 0x9018 0x9100) 0x9100 0x200000) 0x9104 0x202000"

definition booting :: "uint8 list \<Rightarrow> kernel" where
  "booting img = \<lparr>mach = initial_machine (boot_kstate (boot_memory img) 0), dts = initial_dt_state,
     initrd = \<lparr>initrd_header = 0, file_headers = 0, initrd_root = 0, initrd_dev = 0, root_nodes = 0, nroot_nodes = 0\<rparr>,
     fs_root = 0, initial_esp = 0\<rparr>"

lemma boot_memory_low: "mem_eq_on (- {0x9000 ..< 0x9200}) (demo_memory img) (boot_memory img)"
  unfolding boot_memory_def by (intro mem_eq_on_wr32_step mem_eq_on_refl) auto

lemma boot_memory_info: "boot_info (boot_memory img) 0x9000 0x200000 0x202000"
  by (simp add: boot_info_def mods_count_def mods_addr_def load_multiboot_def boot_memory_def mem_simps)

lemma boot_links_layout: "boot_layout boot_links 0x200000 4871 0x202000"
  unfolding boot_layout_def Let_def
  by (auto simp: boot_links_def demo_symbols_def taken_def image_region_def literal_region_def dirent_region_def)

lemma booting_state:
  "kmem (booting img) = boot_memory img" "kheap (ks (mach (booting img))) = None" "keyboard_flags (mach (booting img)) = 0"
  "fs_symbols boot_links = demo_symbols"
  by (simp_all add: booting_def kmem_def initial_machine_def boot_kstate_def boot_links_def)

lemma booting_ready:
  "\<exists>img. create_initrd_main demo_fopen demo_stack (command_line [] demo_args) = Inr (0, Some img)
    \<and> bytes (kmem (booting img)) 0x200000 (length img) = img \<and> boot_info (kmem (booting img)) 0x9000 0x200000 0x202000
    \<and> boot_layout boot_links 0x200000 (length img) 0x202000 \<and> linked (fs_symbols boot_links) (kmem (booting img))
    \<and> (\<forall>a. unat a \<in> {0xC0000000 ..< 0xC0100000} \<longrightarrow> kmem (booting img) a = 0)"
proof -
  from demo_image obtain img where img: "create_initrd_main demo_fopen demo_stack (command_line [] demo_args) = Inr (0, Some img)"
    "length img = 4871" "bytes (demo_memory img) 0x200000 (length img) = img" "linked demo_symbols (demo_memory img)"
    "\<forall>a. unat a \<in> {0xC0000000 ..< 0xC0100000} \<longrightarrow> demo_memory img a = 0" by blast
  have "{unat (0x200000 :: uint32) ..< unat (0x200000 :: uint32) + length img} \<subseteq> - {0x9000 ..< 0x9200}" by auto
  from bytes_eq_on [OF boot_memory_low this] img(2,3)
  have b: "bytes (kmem (booting img)) 0x200000 (length img) = img" by (simp add: booting_state)
  have l: "linked (fs_symbols boot_links) (kmem (booting img))" unfolding booting_state
    by (rule linked_eq_on [OF img(4) boot_memory_low]) (auto simp: literal_region_def demo_symbols_def)
  have z: "\<forall>a. unat a \<in> {0xC0000000 ..< 0xC0100000} \<longrightarrow> kmem (booting img) a = 0"
    using img(5) mem_eq_onD [OF boot_memory_low] unfolding booting_state by auto
  have "boot_info (kmem (booting img)) 0x9000 0x200000 0x202000" using boot_memory_info by (simp add: booting_state)
  moreover have "boot_layout boot_links 0x200000 (length img) 0x202000" using boot_links_layout img(2) by simp
  ultimately show ?thesis using img(1) b l z by blast
qed

end
