(* ===== verification/IrqMachine.thy ===== *)
theory IrqMachine
  imports Interrupts KeyboardProps
begin

text \<open>
  The machine under interrupts, as a step relation: between two interrupts the processor runs
  the current task; an interrupt that is enabled runs irq_handler to its end (the gate turns
  interrupts off, the iret of the stub, or the sti before the jump of switch_task, turns them
  on again), and a task that has been switched to comes out of read_eip and writes its
  message. What holds after any sequence of such steps, whatever their order.
\<close>

section \<open>Steps\<close>

datatype irq_event = IRQ hardware registers_t | Resume

text \<open>
  The vectors of the sixteen IRQs are 32 to 47 (interrupt.s); read_eip returns an address of
  the kernel's code, which starts at 1 MB, so never the dummy value 0x12345. \<open>Resume\<close> may
  happen at any time, which includes the times at which it does happen.
\<close>

inductive irq_step :: "machine \<Rightarrow> irq_event \<Rightarrow> machine \<Rightarrow> bool" where
  Interrupt: "interrupts_on m \<Longrightarrow> 32 \<le> int_no regs \<Longrightarrow> int_no regs < 48 \<Longrightarrow> r_eip (hw_cpu hw) \<noteq> 0x12345
    \<Longrightarrow> irq_handler hw regs (m\<lparr>interrupts_on := False\<rparr>) = Inr (m', jump)
    \<Longrightarrow> irq_step m (IRQ hw regs) (m'\<lparr>interrupts_on := True\<rparr>)"
| Resumed: "irq_step m Resume (m_write (''parent task found, return'' @ [CHR 0x0A]) m)"

inductive_cases irq_step_IRQ: "irq_step m (IRQ hw regs) m'"
inductive_simps irq_step_Resume_iff [simp]: "irq_step m Resume m'"

inductive irq_run :: "machine \<Rightarrow> irq_event list \<Rightarrow> machine \<Rightarrow> bool" where
  run_Nil [intro, simp]: "irq_run m [] m"
| run_snoc: "irq_run m tr m1 \<Longrightarrow> irq_step m1 e m2 \<Longrightarrow> irq_run m (tr @ [e]) m2"

section \<open>Well-formed machines\<close>

text \<open>
  The handlers as install_keyboard_driver and, when \<open>timer\<close> holds, init_timer leave them; no other
  IRQ has one. (kernel_main installs only the keyboard, its call of init_timer is commented out.)
\<close>

definition irq_handlers_installed :: "bool \<Rightarrow> machine \<Rightarrow> bool" where
  "irq_handlers_installed timer m \<longleftrightarrow> (\<forall>v. 32 \<le> v \<and> v < 48 \<longrightarrow> interrupt_handlers (ks m) v =
     (if v = IRQ0 then (if timer then Some timer_callback_isr else None) else if v = IRQ1 then Some keyboard_handler_isr else None))"

definition machine_ok :: "machine \<Rightarrow> uint32 list \<Rightarrow> bool" where
  "machine_ok m ts \<longleftrightarrow> task_queue m ts \<and> current_task m \<in> set ts \<and> on_screen (mon m)
     \<and> irq_handlers_installed True m \<and> interrupts_on m"

lemma handlers_installed_at_boot:
  assumes "init_timer f m = Inr m1" "interrupt_handlers (ks m) = (\<lambda>_. None)"
  shows "irq_handlers_installed True (install_keyboard_driver m1)"
  using assms by (auto simp: init_timer_def irq_handlers_installed_def install_keyboard_driver_def m_register_def
      m_outb_def register_interrupt_handler_def IRQ0_def IRQ1_def Let_def split: if_splits)

lemma current_in_queue:
  assumes "machine_ok m ts"
  obtains i where "i < length ts" "current_task m = ts ! i"
  using assms by (auto simp: machine_ok_def in_set_conv_nth)

lemma monitor_write_on_screen: "on_screen s \<Longrightarrow> on_screen (monitor_write str s)"
  by (simp add: monitor_write_fold screen.run_ok)

lemma task_queue_simps [simp]:
  "task_queue (m\<lparr>interrupts_on := b\<rparr>) ts = task_queue m ts" "task_queue (m\<lparr>m_ports := p\<rparr>) ts = task_queue m ts"
  "task_queue (m\<lparr>tick := t\<rparr>) ts = task_queue m ts" "task_queue (m\<lparr>mon := s\<rparr>) ts = task_queue m ts"
  "task_queue (m\<lparr>keyboard_flags := f\<rparr>) ts = task_queue m ts"
  by (simp_all add: task_queue_def)

lemma irq_handlers_installed_cong:
  "interrupt_handlers (ks m') = interrupt_handlers (ks m) \<Longrightarrow> irq_handlers_installed True m' = irq_handlers_installed True m"
  by (simp add: irq_handlers_installed_def)

text \<open>What switch_task never changes.\<close>

lemma switch_task_frame:
  "keyboard_flags (fst (switch_task cpu m)) = keyboard_flags m" "tick (fst (switch_task cpu m)) = tick m"
  "interrupt_handlers (ks (fst (switch_task cpu m))) = interrupt_handlers (ks m)"
  "ready_queue (fst (switch_task cpu m)) = ready_queue m"
  by (simp_all add: switch_task_def m_write_def Let_def)

lemma switch_task_on_screen: "on_screen (mon m) \<Longrightarrow> on_screen (mon (fst (switch_task cpu m)))"
  by (simp add: switch_task_def m_write_def Let_def monitor_write_on_screen)

text \<open>With one task switch_task stays with it; with more it goes to the next: to \<open>Suc i mod n\<close> in either case.\<close>

lemma switch_task_queue:
  assumes "task_queue m ts" "i < length ts" "current_task m = ts ! i" "r_eip cpu \<noteq> 0x12345"
  shows "task_queue (fst (switch_task cpu m)) ts \<and> current_task (fst (switch_task cpu m)) = ts ! (Suc i mod length ts)"
proof (cases "1 < length ts")
  case True
  from switch_task_next [OF assms(1,2) True assms(3,4)] show ?thesis by auto
next
  case False
  then have "ts = [ts ! 0]" "i = 0" using assms(2) by (cases ts; simp)+
  then have one: "length ts = 1" "i = 0" by (metis length_Cons list.size(3) One_nat_def)+
  note q = queue_nth [OF assms(1), of 0]
  have "current_task m \<noteq> 0" "current_task m = ready_queue m" "task_next (mem (ks m)) (current_task m) = 0"
    using q one assms(3) by auto
  then have "switch_task cpu m = (m_write (''only one task found, not going to switch'' @ [CHR 0x0A]) m, None)"
    by (simp add: switch_task_def)
  then show ?thesis using assms(1,3) one by (simp add: m_write_def task_queue_def)
qed

section \<open>One interrupt\<close>

definition irq_ports :: "size_t \<Rightarrow> (uint16 \<times> uint8) list" where
  "irq_ports n = (if n \<ge> 40 then [(0xA0, 0x20)] else []) @ [(0x20, 0x20)]"

lemma irq_vector:
  fixes n :: size_t
  assumes "32 \<le> n" "n < 48"
  shows "32 \<le> (ucast n :: uint8)" "(ucast n :: uint8) < 48" "(ucast n :: uint8) = IRQ0 \<longleftrightarrow> n = 32"
    "(ucast n :: uint8) = IRQ1 \<longleftrightarrow> n = 33" "unat n < 256"
proof -
  have u: "32 \<le> unat n" "unat n < 48" using assms by (simp_all add: word_le_nat_alt word_less_nat_alt)
  then show "unat n < 256" by simp
  have "take_bit 8 (unat n) = unat n" using u by (intro take_bit_nat_eq_self) simp
  then have v: "unat (ucast n :: uint8) = unat n" by (simp add: unsigned_ucast_eq)
  show "32 \<le> (ucast n :: uint8)" "(ucast n :: uint8) < 48" using u v by (simp_all add: word_le_nat_alt word_less_nat_alt)
  show "(ucast n :: uint8) = IRQ0 \<longleftrightarrow> n = 32" "(ucast n :: uint8) = IRQ1 \<longleftrightarrow> n = 33"
    using v by (simp_all add: IRQ0_def IRQ1_def word_unat_eq_iff)
qed

lemma irq_handler_eq:
  assumes "irq_handlers_installed t m" "32 \<le> int_no regs" "int_no regs < 48"
    and m2: "m2 = m\<lparr>m_ports := m_ports m @ irq_ports (int_no regs)\<rparr>"
    and kb: "keyboard_handler (hw_port60 hw) (keyboard_flags m, mon m) = (fl, mn)"
  shows "irq_handler hw regs m = Inr (
    if int_no regs = 32 \<and> t then timer_callback (hw_cpu hw) m2
    else if int_no regs = 33 then (m2\<lparr>mon := mn, keyboard_flags := fl\<rparr>, None) else (m2, None))"
proof -
  note v = irq_vector [OF assms(2,3)]
  have ports: "m_outb 0x20 0x20 (if int_no regs \<ge> 40 then m_outb 0xA0 0x20 m else m) = m2"
    by (simp add: m2 m_outb_def irq_ports_def)
  have "handler_at (int_no regs) m2 = Inr (if int_no regs = 32 then (if t then Some timer_callback_isr else None)
      else if int_no regs = 33 then Some keyboard_handler_isr else None)"
    using assms(1) v by (simp add: handler_at_def irq_handlers_installed_def m2)
  then show ?thesis
    using kb by (simp add: irq_handler_def Let_def ports call_isr_def m2)
qed

lemma keyboard_on_screen: "on_screen s \<Longrightarrow> keyboard_handler sc (f, s) = (f', s') \<Longrightarrow> on_screen s'"
  by (auto simp: keyboard_handler_def Let_def screen.put_ok split: if_splits)

text \<open>Whether an event is a timer interrupt, the scan code it delivers, and what it acknowledges.\<close>

fun timer_irqs :: "irq_event \<Rightarrow> nat" where
  "timer_irqs (IRQ hw regs) = of_bool (int_no regs = 32)"
| "timer_irqs Resume = 0"

fun scan_codes :: "irq_event \<Rightarrow> uint8 list" where
  "scan_codes (IRQ hw regs) = (if int_no regs = 33 then [hw_port60 hw] else [])"
| "scan_codes Resume = []"

fun acknowledged :: "irq_event \<Rightarrow> (uint16 \<times> uint8) list" where
  "acknowledged (IRQ hw regs) = irq_ports (int_no regs)"
| "acknowledged Resume = []"

lemma irq_step_ok:
  assumes step: "irq_step m e m'" and ok: "machine_ok m ts" and i: "i < length ts" "current_task m = ts ! i"
  shows "machine_ok m' ts" "current_task m' = ts ! ((i + timer_irqs e) mod length ts)"
    and "tick m' = tick m + of_nat (timer_irqs e)"
    and "keyboard_flags m' = fst (fold keyboard_handler (scan_codes e) (keyboard_flags m, mon m))"
    and "m_ports m' = m_ports m @ acknowledged e"
proof -
  have main: "machine_ok m' ts \<and> current_task m' = ts ! ((i + timer_irqs e) mod length ts)
    \<and> tick m' = tick m + of_nat (timer_irqs e)
    \<and> keyboard_flags m' = fst (fold keyboard_handler (scan_codes e) (keyboard_flags m, mon m))
    \<and> m_ports m' = m_ports m @ acknowledged e"
  proof (cases e)
    case Resume
    then show ?thesis
      using step ok i by (simp add: machine_ok_def m_write_def monitor_write_on_screen irq_handlers_installed_def)
  next
    case (IRQ hw regs)
    from step [unfolded IRQ] obtain m1 j where n: "32 \<le> int_no regs" "int_no regs < 48" and cpu: "r_eip (hw_cpu hw) \<noteq> 0x12345"
      and run: "irq_handler hw regs (m\<lparr>interrupts_on := False\<rparr>) = Inr (m1, j)" and m': "m' = m1\<lparr>interrupts_on := True\<rparr>"
      by (elim irq_step_IRQ)
    let ?m0 = "m\<lparr>interrupts_on := False\<rparr>"
    define m2 where "m2 = ?m0\<lparr>m_ports := m_ports ?m0 @ irq_ports (int_no regs)\<rparr>"
    obtain fl mn where kb: "keyboard_handler (hw_port60 hw) (keyboard_flags ?m0, mon ?m0) = (fl, mn)" by fastforce
    have "irq_handlers_installed True ?m0" using ok by (simp add: machine_ok_def irq_handlers_installed_def)
    from irq_handler_eq [OF this n m2_def kb] run have
      r: "(if int_no regs = 32 then timer_callback (hw_cpu hw) m2
        else if int_no regs = 33 then (m2\<lparr>mon := mn, keyboard_flags := fl\<rparr>, None) else (m2, None)) = (m1, j)" by simp
    have q2: "task_queue (m2\<lparr>tick := t\<rparr>) ts" "current_task (m2\<lparr>tick := t\<rparr>) = ts ! i" for t
      using ok i by (simp_all add: m2_def machine_ok_def)
    consider (timer) "int_no regs = 32" | (key) "int_no regs = 33" | (other) "int_no regs \<noteq> 32" "int_no regs \<noteq> 33" by blast
    then show ?thesis
    proof cases
      case timer
      let ?t = "m2\<lparr>tick := tick m2 + 1\<rparr>"
      have m1: "m1 = fst (switch_task (hw_cpu hw) ?t)"
        using r timer by (metis fst_conv timer_callback_def)
      note f = switch_task_frame [of "hw_cpu hw" ?t, folded m1] switch_task_ports [of "hw_cpu hw" ?t, folded m1]
      have q3: "task_queue m1 ts" "current_task m1 = ts ! (Suc i mod length ts)"
        using switch_task_queue [OF q2(1) i(1) q2(2) cpu] m1 by simp_all
      have "Suc i mod length ts < length ts" using i by (intro mod_less_divisor) linarith
      then have "current_task m1 \<in> set ts" using q3(2) by simp
      moreover have "on_screen (mon m1)"
        using switch_task_on_screen [of ?t "hw_cpu hw", folded m1] ok by (simp add: m2_def machine_ok_def)
      moreover have "irq_handlers_installed True m1"
        using f ok irq_handlers_installed_cong [of m1 m] by (simp add: m2_def machine_ok_def)
      ultimately show ?thesis
        using q3 f by (simp add: IRQ timer m' machine_ok_def m2_def irq_handlers_installed_def irq_ports_def)
    next
      case key
      then have m1: "m1 = m2\<lparr>mon := mn, keyboard_flags := fl\<rparr>" using r by simp
      show ?thesis
        using keyboard_on_screen [OF _ kb] kb ok i q2
        by (simp add: IRQ key m' m1 machine_ok_def m2_def irq_handlers_installed_def)
    next
      case other
      then show ?thesis
        using r ok i by (auto simp: IRQ m' machine_ok_def m2_def irq_handlers_installed_def)
    qed
  qed
  then show "machine_ok m' ts" "current_task m' = ts ! ((i + timer_irqs e) mod length ts)"
    "tick m' = tick m + of_nat (timer_irqs e)"
    "keyboard_flags m' = fst (fold keyboard_handler (scan_codes e) (keyboard_flags m, mon m))"
    "m_ports m' = m_ports m @ acknowledged e" by simp_all
qed

section \<open>Any sequence of interrupts\<close>

text \<open>The flags do not depend on the screen.\<close>

lemma keyboard_fold_flags: "fst (fold keyboard_handler scs (f, s)) = fst (fold keyboard_handler scs (f, s'))"
proof (induction scs arbitrary: f s s')
  case (Cons sc scs)
  have "fst (keyboard_handler sc (f, s)) = fst (keyboard_handler sc (f, s'))"
    by (simp add: keyboard_handler_def Let_def)
  then show ?case using Cons.IH by (metis fold_simps(2) prod.collapse)
qed simp

lemma irq_run_ok:
  assumes "irq_run m tr m'" "machine_ok m ts" "i < length ts" "current_task m = ts ! i"
  shows "machine_ok m' ts \<and> current_task m' = ts ! ((i + sum_list (map timer_irqs tr)) mod length ts)
    \<and> tick m' = tick m + of_nat (sum_list (map timer_irqs tr))
    \<and> keyboard_flags m' = fst (fold keyboard_handler (concat (map scan_codes tr)) (keyboard_flags m, mon m))
    \<and> m_ports m' = m_ports m @ concat (map acknowledged tr)"
  using assms
proof (induction rule: irq_run.induct)
  case (run_snoc m tr m1 e m2)
  let ?j = "(i + sum_list (map timer_irqs tr)) mod length ts"
  have IH: "machine_ok m1 ts" "current_task m1 = ts ! ?j" "tick m1 = tick m + of_nat (sum_list (map timer_irqs tr))"
    "keyboard_flags m1 = fst (fold keyboard_handler (concat (map scan_codes tr)) (keyboard_flags m, mon m))"
    "m_ports m1 = m_ports m @ concat (map acknowledged tr)"
    using run_snoc by blast+
  have "?j < length ts" using run_snoc.prems(2) by (intro mod_less_divisor) linarith
  note e = irq_step_ok [OF run_snoc.hyps(2) IH(1) this IH(2)]
  obtain s where "fold keyboard_handler (concat (map scan_codes tr)) (keyboard_flags m, mon m) = (keyboard_flags m1, s)"
    using IH(4) by (metis prod.collapse)
  then have "keyboard_flags m2 = fst (fold keyboard_handler (concat (map scan_codes (tr @ [e]))) (keyboard_flags m, mon m))"
    using e(4) keyboard_fold_flags [of "scan_codes e"] by simp
  then show ?case
    using e IH by (simp add: mod_add_left_eq add.assoc)
qed simp

lemma irq_progress:
  assumes ok: "machine_ok m ts" and n: "32 \<le> int_no regs" "int_no regs < 48" and cpu: "r_eip (hw_cpu hw) \<noteq> 0x12345"
  shows "\<exists>m'. irq_step m (IRQ hw regs) m' \<and> machine_ok m' ts"
proof -
  let ?m0 = "m\<lparr>interrupts_on := False\<rparr>"
  obtain fl mn where kb: "keyboard_handler (hw_port60 hw) (keyboard_flags ?m0, mon ?m0) = (fl, mn)" by fastforce
  have "irq_handlers_installed True ?m0" using ok by (simp add: machine_ok_def irq_handlers_installed_def)
  from irq_handler_eq [OF this n refl kb] obtain r where "irq_handler hw regs ?m0 = Inr r" by blast
  then have "irq_handler hw regs ?m0 = Inr (fst r, snd r)" by simp
  moreover have "interrupts_on m" using ok by (simp add: machine_ok_def)
  ultimately have step: "irq_step m (IRQ hw regs) ((fst r)\<lparr>interrupts_on := True\<rparr>)" using Interrupt n cpu by blast
  from ok obtain i where "i < length ts" "current_task m = ts ! i" by (rule current_in_queue)
  from irq_step_ok(1) [OF step ok this] step show ?thesis by blast
qed

text \<open>
  C10: a machine whose ready queue, current task, cursor and handlers are well formed stays so
  under every sequence of interrupts and task resumptions, and it is never stuck: each of the
  sixteen IRQs is handled to its end, without an error, in every state it can reach.
\<close>

theorem irq_machine_type_safe:
  assumes "machine_ok m ts" "irq_run m tr m'"
  shows "machine_ok m' ts \<and> (\<forall>hw regs. 32 \<le> int_no regs \<and> int_no regs < 48 \<and> r_eip (hw_cpu hw) \<noteq> 0x12345
    \<longrightarrow> (\<exists>m''. irq_step m' (IRQ hw regs) m''))"
proof -
  from assms(1) obtain i where i: "i < length ts" "current_task m = ts ! i" by (rule current_in_queue)
  have "machine_ok m' ts" using irq_run_ok [OF assms(2,1) i] by blast
  with irq_progress [OF this] show ?thesis by blast
qed

text \<open>
  C9: after any sequence of events from a well-formed machine, however the interrupts
  interleave: the ready queue has moved on by one task per timer interrupt, tick has counted
  them (modulo 2^32), the modifier flags are those of the scan codes the keyboard interrupts
  delivered, and every IRQ has been acknowledged in the order of arrival.
\<close>

theorem irq_run_observes_events:
  assumes "machine_ok m ts" "irq_run m tr m'" "i < length ts" "current_task m = ts ! i" "keyboard_flags m = 0"
  shows "current_task m' = ts ! ((i + sum_list (map timer_irqs tr)) mod length ts)
    \<and> tick m' = tick m + of_nat (sum_list (map timer_irqs tr))
    \<and> (let scs = concat (map scan_codes tr) in keyboard_flags m' =
         flags_of (held {0x2A, 0x36} {0xAA, 0xB6} scs) (held {0x3A} {0xBA} scs) (held {0x1D} {0x9D} scs))
    \<and> m_ports m' = m_ports m @ concat (map acknowledged tr)"
  using irq_run_ok [OF assms(2,1,3,4)] keyboard_flags_follow_keys by (simp add: assms(5) Let_def)

section \<open>A concrete run\<close>

text \<open>Two tasks with both handlers; a timer interrupt, the shift key, the resumption, a timer interrupt.\<close>

definition irq_demo :: machine where
  "irq_demo = two_tasks\<lparr>interrupts_on := True, ks := (ks two_tasks)\<lparr>interrupt_handlers :=
     (\<lambda>v. if v = IRQ0 then Some timer_callback_isr else if v = IRQ1 then Some keyboard_handler_isr else None)\<rparr>\<rparr>"

definition demo_hw :: "uint8 \<Rightarrow> hardware" where
  "demo_hw sc = \<lparr>hw_port60 = sc, hw_cr2 = 0, hw_cpu = \<lparr>r_eip = 0x100000, r_esp = 0x90000, r_ebp = 0x90010\<rparr>\<rparr>"

lemma irq_demo_ok: "machine_ok irq_demo [0x1000, 0x2000]"
proof -
  have "task_queue irq_demo [0x1000, 0x2000]" using two_tasks_queue by (simp add: irq_demo_def task_queue_def)
  then show ?thesis
    by (simp add: machine_ok_def irq_demo_def irq_handlers_installed_def two_tasks_def initial_machine_def on_screen_def
        initial_monitor_def)
qed

lemma irq_demo_run:
  "\<exists>m. irq_run irq_demo [IRQ (demo_hw 0) (demo_regs 32), IRQ (demo_hw 0x2A) (demo_regs 33), Resume, IRQ (demo_hw 0) (demo_regs 32)] m"
proof -
  have g: "32 \<le> int_no (demo_regs 32)" "int_no (demo_regs 32) < 48" "32 \<le> int_no (demo_regs 33)" "int_no (demo_regs 33) < 48"
    "r_eip (hw_cpu (demo_hw sc)) \<noteq> 0x12345" for sc by (simp_all add: demo_regs_def demo_hw_def)
  from irq_progress [OF irq_demo_ok g(1,2,5)] obtain m1 where
    1: "irq_step irq_demo (IRQ (demo_hw 0) (demo_regs 32)) m1" "machine_ok m1 [0x1000, 0x2000]" by blast
  from irq_progress [OF 1(2) g(3-5)] obtain m2 where
    2: "irq_step m1 (IRQ (demo_hw 0x2A) (demo_regs 33)) m2" "machine_ok m2 [0x1000, 0x2000]" by blast
  obtain m3 where 3: "irq_step m2 Resume m3" by simp
  from 2(2) obtain i where i: "i < length [0x1000, 0x2000 :: uint32]" "current_task m2 = [0x1000, 0x2000] ! i"
    by (rule current_in_queue)
  note ok3 = irq_step_ok(1) [OF 3 2(2) i]
  from irq_progress [OF ok3 g(1,2,5)] obtain m4 where
    4: "irq_step m3 (IRQ (demo_hw 0) (demo_regs 32)) m4" by blast
  from run_snoc [OF run_snoc [OF run_snoc [OF run_snoc [OF run_Nil 1(1)] 2(1)] 3] 4] show ?thesis by auto
qed

theorem irq_machine_type_safe_witness:
  "\<exists>m m'. machine_ok m [0x1000, 0x2000] \<and> irq_run irq_demo [IRQ (demo_hw 0) (demo_regs 32), IRQ (demo_hw 0x2A) (demo_regs 33),
      Resume, IRQ (demo_hw 0) (demo_regs 32)] m \<and> irq_step m (IRQ (demo_hw 0) (demo_regs 47)) m'"
proof -
  from irq_demo_run obtain m where m: "irq_run irq_demo [IRQ (demo_hw 0) (demo_regs 32), IRQ (demo_hw 0x2A) (demo_regs 33),
      Resume, IRQ (demo_hw 0) (demo_regs 32)] m" by blast
  have "32 \<le> int_no (demo_regs 47) \<and> int_no (demo_regs 47) < 48 \<and> r_eip (hw_cpu (demo_hw 0)) \<noteq> 0x12345"
    by (simp add: demo_regs_def demo_hw_def)
  with irq_machine_type_safe [OF irq_demo_ok m] m show ?thesis by blast
qed

theorem irq_run_observes_events_witness:
  "\<exists>m :: machine. current_task m = 0x1000 \<and> tick m = 2 \<and> keyboard_flags m = SHIFT
    \<and> m_ports m = [(0x20, 0x20), (0x20, 0x20), (0x20, 0x20)]"
proof -
  from irq_demo_run obtain m where m: "irq_run irq_demo [IRQ (demo_hw 0) (demo_regs 32), IRQ (demo_hw 0x2A) (demo_regs 33),
      Resume, IRQ (demo_hw 0) (demo_regs 32)] m" by blast
  have d: "0 < length [0x1000, 0x2000 :: uint32]" "current_task irq_demo = [0x1000, 0x2000] ! 0" "keyboard_flags irq_demo = 0"
    "tick irq_demo = 0" "m_ports irq_demo = []"
    by (simp_all add: irq_demo_def two_tasks_def initial_machine_def)
  from irq_run_observes_events [OF irq_demo_ok m d(1-3)] d(4,5)
  have "current_task m = 0x1000 \<and> tick m = 2 \<and> keyboard_flags m = SHIFT \<and> m_ports m = [(0x20, 0x20), (0x20, 0x20), (0x20, 0x20)]"
    by (simp add: demo_regs_def demo_hw_def irq_ports_def held_def flags_of_def)
  then show ?thesis by blast
qed

end
