(* ===== verification/BootRun.thy ===== *)
theory BootRun
  imports Boot IrqMachine
begin

text \<open>
  The kernel after kernel_main: interrupts are on, the keyboard has the only IRQ handler, and
  what is typed is written to the screen. The composition of kernel_main with the dispatch of
  isr.c, keyboard.c and monitor.c.
\<close>

section \<open>What typing writes\<close>

text \<open>
  The characters of a sequence of scan codes: one for every key that is pressed, under the
  modifiers of all the events up to it; none for a key that is released.
\<close>

definition modifiers :: "uint8 list \<Rightarrow> uint8" where
  "modifiers scs = flags_of (held {0x2A, 0x36} {0xAA, 0xB6} scs) (held {0x3A} {0xBA} scs) (held {0x1D} {0x9D} scs)"

definition typed_at :: "uint8 list \<Rightarrow> nat \<Rightarrow> uint8 list" where
  "typed_at scs i = (if scs ! i AND 0x80 \<noteq> 0 then []
     else [get_char_for_scan_code (modifiers (take (Suc i) scs)) (scs ! i)])"

definition typed :: "uint8 list \<Rightarrow> uint8 list" where
  "typed scs = concat (map (typed_at scs) [0..<length scs])"

lemma typed_snoc:
  "typed (scs @ [sc]) = typed scs @ (if sc AND 0x80 \<noteq> 0 then [] else [get_char_for_scan_code (modifiers (scs @ [sc])) sc])"
proof -
  have "typed_at (scs @ [sc]) i = typed_at scs i" if "i < length scs" for i
    using that by (simp add: typed_at_def nth_append)
  then have old: "map (typed_at (scs @ [sc])) [0..<length scs] = map (typed_at scs) [0..<length scs]" by simp
  have "typed (scs @ [sc]) = concat (map (typed_at (scs @ [sc])) [0..<length scs]) @ typed_at (scs @ [sc]) (length scs)"
    by (simp add: typed_def)
  moreover have "typed_at (scs @ [sc]) (length scs)
      = (if sc AND 0x80 \<noteq> 0 then [] else [get_char_for_scan_code (modifiers (scs @ [sc])) sc])"
    by (simp add: typed_at_def)
  ultimately show ?thesis unfolding old by (simp add: typed_def)
qed

lemma keyboard_types:
  "fold keyboard_handler scs (0, s) = (modifiers scs, fold monitor_put (typed scs) s)"
proof (induction scs rule: rev_induct)
  case Nil
  then show ?case using keyboard_flags_follow_keys [of "[]" s] by (simp add: typed_def modifiers_def)
next
  case (snoc sc scs)
  have "fst (fold keyboard_handler (scs @ [sc]) (0, s)) = modifiers (scs @ [sc])"
    by (simp only: keyboard_flags_follow_keys modifiers_def)
  then show ?case
    using snoc by (auto simp: keyboard_handler_def typed_snoc Let_def split: if_splits)
qed

section \<open>Interrupts without a timer\<close>

text \<open>The machine after the scan codes and acknowledgements of the events.\<close>

definition typed_into :: "machine \<Rightarrow> uint8 list \<Rightarrow> (uint16 \<times> uint8) list \<Rightarrow> machine" where
  "typed_into m scs acks = (let (fl, mn) = fold keyboard_handler scs (keyboard_flags m, mon m)
     in m\<lparr>keyboard_flags := fl, mon := mn, m_ports := m_ports m @ acks\<rparr>)"

lemma typed_into_nil [simp]: "typed_into m [] [] = m"
  by (simp add: typed_into_def)

lemma typed_into_append: "typed_into (typed_into m scs acks) scs' acks' = typed_into m (scs @ scs') (acks @ acks')"
  by (simp add: typed_into_def split: prod.splits)

lemma typed_into_ks [simp]:
  "ks (typed_into m scs acks) = ks m" "interrupts_on (typed_into m scs acks) = interrupts_on m"
  "irq_handlers_installed t (typed_into m scs acks) = irq_handlers_installed t m"
  by (simp_all add: typed_into_def irq_handlers_installed_def split: prod.splits)

lemma keyboard_step:
  assumes "irq_step m e m'" "irq_handlers_installed False m" "e \<noteq> Resume"
  shows "m' = typed_into m (scan_codes e) (acknowledged e)"
proof -
  obtain hw regs where e: "e = IRQ hw regs" using assms(3) by (cases e) auto
  from assms(1) [unfolded e] obtain m1 j where on: "interrupts_on m" and n: "32 \<le> int_no regs" "int_no regs < 48"
    and run: "irq_handler hw regs (m\<lparr>interrupts_on := False\<rparr>) = Inr (m1, j)" and m': "m' = m1\<lparr>interrupts_on := True\<rparr>"
    by (elim irq_step_IRQ)
  let ?m0 = "m\<lparr>interrupts_on := False\<rparr>"
  obtain fl mn where kb: "keyboard_handler (hw_port60 hw) (keyboard_flags ?m0, mon ?m0) = (fl, mn)" by fastforce
  have "irq_handlers_installed False ?m0" using assms(2) by (simp add: irq_handlers_installed_def)
  from irq_handler_eq [OF this n refl kb] run
  have m1: "m1 = (let m2 = ?m0\<lparr>m_ports := m_ports ?m0 @ irq_ports (int_no regs)\<rparr>
      in if int_no regs = 33 then m2\<lparr>mon := mn, keyboard_flags := fl\<rparr> else m2)" by (auto simp: Let_def split: if_splits)
  show ?thesis
    using on kb by (cases m) (auto simp: m' m1 e typed_into_def Let_def split: prod.splits)
qed

lemma keyboard_run:
  "irq_run m tr m' \<Longrightarrow> irq_handlers_installed False m \<Longrightarrow> Resume \<notin> set tr
    \<Longrightarrow> m' = typed_into m (concat (map scan_codes tr)) (concat (map acknowledged tr))"
proof (induction rule: irq_run.induct)
  case (run_snoc m tr m1 e m2)
  then have IH: "m1 = typed_into m (concat (map scan_codes tr)) (concat (map acknowledged tr))" "e \<noteq> Resume" by auto
  have "irq_handlers_installed False m1" using run_snoc.prems IH(1) by simp
  from keyboard_step [OF run_snoc.hyps(2) this IH(2)] show ?case by (simp add: IH(1) typed_into_append)
qed simp

text \<open>The interrupts that the hardware can produce.\<close>

definition real_irq :: "irq_event \<Rightarrow> bool" where
  "real_irq e = (case e of Resume \<Rightarrow> False | IRQ hw regs \<Rightarrow> 32 \<le> int_no regs \<and> int_no regs < 48 \<and> r_eip (hw_cpu hw) \<noteq> 0x12345)"

lemma keyboard_progress:
  assumes "irq_handlers_installed False m" "interrupts_on m" "real_irq e"
  shows "\<exists>m'. irq_step m e m'"
proof -
  from assms(3) obtain hw regs where e: "e = IRQ hw regs" and n: "32 \<le> int_no regs" "int_no regs < 48" "r_eip (hw_cpu hw) \<noteq> 0x12345"
    by (cases e) (auto simp: real_irq_def)
  let ?m0 = "m\<lparr>interrupts_on := False\<rparr>"
  obtain fl mn where kb: "keyboard_handler (hw_port60 hw) (keyboard_flags ?m0, mon ?m0) = (fl, mn)" by fastforce
  have "irq_handlers_installed False ?m0" using assms(1) by (simp add: irq_handlers_installed_def)
  from irq_handler_eq [OF this n(1,2) refl kb] obtain m1 j where "irq_handler hw regs ?m0 = Inr (m1, j)"
    by (metis prod.collapse)
  with Interrupt assms(2) n show ?thesis unfolding e by blast
qed

section \<open>The booted kernel\<close>

lemma booted_handlers: "booted m m' \<Longrightarrow> irq_handlers_installed False m'"
  by (auto simp: booted_def same_machine_def irq_handlers_installed_def IRQ0_def IRQ1_def)

lemma booted_run:
  assumes "booted m0 m" "keyboard_flags m0 = 0" "irq_run m tr m'" "Resume \<notin> set tr"
  shows "m' = m\<lparr>keyboard_flags := modifiers (concat (map scan_codes tr)),
      mon := fold monitor_put (typed (concat (map scan_codes tr))) (mon m),
      m_ports := m_ports m0 @ concat (map acknowledged tr)\<rparr>"
    and "real_irq e \<Longrightarrow> \<exists>m''. irq_step m' e m''"
proof -
  have b: "keyboard_flags m = 0" "m_ports m = m_ports m0" "interrupts_on m"
    using assms(1,2) by (simp_all add: booted_def same_machine_def)
  have m': "m' = typed_into m (concat (map scan_codes tr)) (concat (map acknowledged tr))"
    using keyboard_run [OF assms(3) booted_handlers [OF assms(1)] assms(4)] .
  then show "m' = m\<lparr>keyboard_flags := modifiers (concat (map scan_codes tr)),
      mon := fold monitor_put (typed (concat (map scan_codes tr))) (mon m),
      m_ports := m_ports m0 @ concat (map acknowledged tr)\<rparr>"
    by (simp add: typed_into_def b keyboard_types)
  assume e: "real_irq e"
  have "irq_handlers_installed False m'" "interrupts_on m'" using m' b(3) booted_handlers [OF assms(1)] by simp_all
  from keyboard_progress [OF this e] show "\<exists>m''. irq_step m' e m''" .
qed

text \<open>So every sequence of interrupts can happen.\<close>

lemma run_exists:
  assumes "\<And>tr m e. irq_run m0 tr m \<Longrightarrow> Resume \<notin> set tr \<Longrightarrow> real_irq e \<Longrightarrow> \<exists>m'. irq_step m e m'"
  shows "\<forall>e \<in> set tr. real_irq e \<Longrightarrow> \<exists>m. irq_run m0 tr m"
proof (induction tr rule: rev_induct)
  case Nil
  then show ?case by blast
next
  case (snoc e tr)
  then obtain m where m: "irq_run m0 tr m" by auto
  have "real_irq e" "Resume \<notin> set tr" using snoc.prems by (auto simp: real_irq_def)
  with assms [OF m] obtain m' where "irq_step m e m'" by blast
  with m show ?case by (blast intro: run_snoc)
qed

text \<open>
  C1: the kernel boots, and then it is a typewriter. From an image that create_initrd.c wrote,
  loaded by the boot loader as the first module below 3 MB, kernel_main returns without an
  error, with the ram disk mounted and on the screen the banner, the directory dev, and every
  file of the command line in order with its name and the first 256 bytes of its contents.
  From then on, under every sequence of interrupts (Resume stands for a task switch; there is no
  second task) the screen gets exactly the characters of the keys pressed, in order, under the
  modifiers held at that moment; every IRQ is acknowledged; nothing else of the machine changes,
  so the ram disk stays mounted; and every IRQ that arrives is handled to its end.
\<close>

theorem booted_kernel_types:
  assumes "args_ok fopen args" "stack_headers stack" "distinct (map snd args)" "dev_name \<notin> snd ` set args"
    and "create_initrd_main fopen stack (command_line prog args) = Inr (0, Some img)"
    and "bytes (kmem k) loc (length img) = img" "boot_info (kmem k) mboot_ptr loc e" "boot_layout lm loc (length img) e"
    and "linked (fs_symbols lm) (kmem k)" "kheap (ks (mach k)) = None"
    and "\<forall>a. unat a \<in> {0xC0000000 ..< 0xC0100000} \<longrightarrow> kmem k a = 0" "length args + 2 \<le> fuel"
    and "keyboard_flags (mach k) = 0"
  shows "\<exists>k'. kernel_main fuel lm mboot_ptr initial_stack k = Inr k'
    \<and> mounted (fs_symbols lm) (initrd k') (length img) (kmem k') (image_files fopen args)
    \<and> mon (mach k') = monitor_write (cstr [newline])
        (fold show_file (image_files fopen args) (show_dir dev_name (banner (mon (mach k)))))
    \<and> (\<forall>tr m. irq_run (mach k') tr m \<and> Resume \<notin> set tr \<longrightarrow>
        m = (mach k')\<lparr>keyboard_flags := modifiers (concat (map scan_codes tr)),
          mon := fold monitor_put (typed (concat (map scan_codes tr))) (mon (mach k')),
          m_ports := m_ports (mach k) @ concat (map acknowledged tr)\<rparr>
        \<and> (\<forall>e. real_irq e \<longrightarrow> (\<exists>m'. irq_step m e m')))"
proof -
  from kernel_main_files [OF assms(1-12)] obtain k' where k': "kernel_main fuel lm mboot_ptr initial_stack k = Inr k'"
    "mounted (fs_symbols lm) (initrd k') (length img) (kmem k') (image_files fopen args)" "booted (mach k) (mach k')"
    "mon (mach k') = monitor_write (cstr [newline])
        (fold show_file (image_files fopen args) (show_dir dev_name (banner (mon (mach k)))))" by blast
  note run = booted_run [OF k'(3) assms(13)]
  show ?thesis by (intro exI [of _ k'] conjI allI impI k') (use run in blast)+
qed

text \<open>The boot of a concrete image; then shift is pressed, h, shift is released, i: the screen shows Hi.\<close>

definition demo_keys :: "irq_event list" where
  "demo_keys = map (\<lambda>sc. IRQ (demo_hw sc) (demo_regs 33)) [0x2A, 0x23, 0xAA, 0x17]"

lemma demo_typed: "typed (concat (map scan_codes demo_keys)) = [-1, 72, 105]"
  by (simp add: demo_keys_def demo_regs_def demo_hw_def) code_simp

theorem booted_kernel_types_witness:
  "\<exists>img k' m. create_initrd_main demo_fopen demo_stack (command_line [] demo_args) = Inr (0, Some img)
    \<and> kernel_main 3 boot_links 0x9000 0x90000 (booting img) = Inr k' \<and> irq_run (mach k') demo_keys m
    \<and> mon m = monitor_put 105 (monitor_put 72 (monitor_put (-1) (monitor_write (cstr [newline])
        (show_file ([97], [1, 2, 3]) (show_dir dev_name (banner (mon (mach (booting img)))))))))"
proof -
  from booting_ready obtain img where r: "create_initrd_main demo_fopen demo_stack (command_line [] demo_args) = Inr (0, Some img)"
    "bytes (kmem (booting img)) 0x200000 (length img) = img" "boot_info (kmem (booting img)) 0x9000 0x200000 0x202000"
    "boot_layout boot_links 0x200000 (length img) 0x202000" "linked (fs_symbols boot_links) (kmem (booting img))"
    "\<forall>a. unat a \<in> {0xC0000000 ..< 0xC0100000} \<longrightarrow> kmem (booting img) a = 0" by blast
  have "stack_headers demo_stack" "distinct (map snd demo_args)" "dev_name \<notin> snd ` set demo_args" "length demo_args + 2 \<le> 3"
    by (simp_all add: demo_ok demo_args_def dev_name_def)
  from booted_kernel_types [OF demo_ok(1) this(1-3) r(1-5) booting_state(2) r(6) this(4) booting_state(3), of "0x90000"]
  obtain k' where k': "kernel_main 3 boot_links 0x9000 0x90000 (booting img) = Inr k'"
    "mon (mach k') = monitor_write (cstr [newline])
      (fold show_file (image_files demo_fopen demo_args) (show_dir dev_name (banner (mon (mach (booting img))))))"
    and all: "\<forall>tr m. irq_run (mach k') tr m \<and> Resume \<notin> set tr \<longrightarrow>
        m = (mach k')\<lparr>keyboard_flags := modifiers (concat (map scan_codes tr)),
          mon := fold monitor_put (typed (concat (map scan_codes tr))) (mon (mach k')),
          m_ports := m_ports (mach (booting img)) @ concat (map acknowledged tr)\<rparr>
        \<and> (\<forall>e. real_irq e \<longrightarrow> (\<exists>m'. irq_step m e m'))" by blast
  have "\<forall>e \<in> set demo_keys. real_irq e" "Resume \<notin> set demo_keys"
    by (auto simp: demo_keys_def real_irq_def demo_regs_def demo_hw_def)
  moreover from this run_exists [of "mach k'" demo_keys] all obtain m where m: "irq_run (mach k') demo_keys m" by blast
  ultimately have "m = (mach k')\<lparr>keyboard_flags := modifiers (concat (map scan_codes demo_keys)),
      mon := fold monitor_put (typed (concat (map scan_codes demo_keys))) (mon (mach k')),
      m_ports := m_ports (mach (booting img)) @ concat (map acknowledged demo_keys)\<rparr>" using all by blast
  then have "mon m = fold monitor_put (typed (concat (map scan_codes demo_keys))) (mon (mach k'))"
    by (metis machine.select_convs(2) machine.surjective machine.update_convs(2,3,9))
  then show ?thesis using r(1) k' m
    by (auto simp: demo_typed demo_args_def image_files_def file_of_def demo_fopen_def)
qed

end
