(* ===== verification/HeapDefects.thy ===== *)
theory HeapDefects
  imports HeapDemo
begin

text \<open>
  Two places where kheap.c breaks the layout of its own heap: alloc with page_align, whose new
  position is a bitwise and with the wrong mask, and free of a block in front of a hole,
  which leaves the footer of the joined hole with the header of the hole it swallowed.
\<close>

section \<open>alloc with page_align\<close>

lemma aligned_location_mask: "aligned_location pos = pos AND 0xFFFFFFF4"
  by (simp add: aligned_location_def PAGE_SIZE_def sizeof_defs)

lemma unat_add12_mod: "unat (y + 12 :: uint32) mod 4096 = (unat y + 12) mod 4096"
  by (simp add: unat_word_ariths mod_mod_cancel)

lemma add_mod_right: "(a :: nat) mod n = l \<Longrightarrow> (a + k) mod n = (l + k) mod n"
  by (auto simp: mod_add_left_eq)

lemma unat_numeral_0xFF4: "unat (0xFF4 :: uint32) = 0xFF4"
  by simp

lemma last_word_of_page: "l \<le> 0xFF4 \<Longrightarrow> ((l :: nat) + 12) mod 4096 = 0 \<longleftrightarrow> l = 0xFF4"
  by (cases "l = 0xFF4") simp_all

lemma aligned_data_page:
  "((pos AND 0xFFFFFFF4) + 12) AND 0xFFF = (0 :: uint32) \<longleftrightarrow> pos AND 0xFF4 = 0xFF4"
proof -
  have m: "unat (x AND 0xFFF) = unat x mod 4096" for x :: uint32
    by (simp add: and_0xFFF unat_mod)
  let ?l = "pos AND 0xFF4" and ?y = "pos AND 0xFFFFFFF4"
  have "?y AND 0xFFF = ?l" by (simp add: and.assoc)
  then have l: "unat ?y mod 4096 = unat ?l" by (metis m)
  have le: "unat ?l \<le> 0xFF4" using word_and_le1 [of pos "0xFF4"] by (simp add: word_le_nat_alt)
  have "(?y + 12) AND 0xFFF = 0 \<longleftrightarrow> unat (?y + 12) mod 4096 = 0" by (metis m unat_eq_0)
  also have "unat (?y + 12) mod 4096 = (unat ?y + 12) mod 4096" by (rule unat_add12_mod)
  also have "\<dots> = (unat ?l + 12) mod 4096" by (rule add_mod_right [OF l])
  also have "\<dots> = 0 \<longleftrightarrow> unat ?l = 0xFF4" by (rule last_word_of_page [OF le])
  also have "\<dots> \<longleftrightarrow> ?l = 0xFF4" by (simp only: word_unat_eq_iff unat_numeral_0xFF4)
  finally show ?thesis .
qed

lemma res_bind_returns: "\<exists>y. r = Inr y \<Longrightarrow> (\<And>y. \<exists>z. f y = Inr (p, z)) \<Longrightarrow> \<exists>z. res_bind r f = Inr (p, z)"
  by auto

lemma alloc_place_aligned:
  assumes "kheap s = Some h" "index_ok h" "it < oa_size (index h)" "al \<noteq> 0"
    and "x = oa_items (index h) (mem s) ! unat it" "x AND 0xFFF \<noteq> 0"
  shows "\<exists>s'. alloc_place sz new_size al it s = Inr ((x AND 0xFFFFFFF4) + 12, s')"
proof -
  have look: "lookup_index it s = Inr x" using lookup_index_eq [OF assms(1,3)] assms(5) by simp
  have ins: "\<exists>s'. insert_index p (s\<lparr>mem := m\<rparr>) = Inr s'" for p m
    using insert_index_eq [of "s\<lparr>mem := m\<rparr>" h p] assms(1,2) by auto
  show ?thesis
    unfolding alloc_place_def look res_bind_simps Let_def using assms(1,4,6)
    by (auto simp: the_heap_def aligned_location_mask sizeof_header_t_def intro!: res_bind_returns ins)
qed

text \<open>The entry that find_smallest_hole returns is one of the index.\<close>

lemma found_in_index:
  assumes "kheap s = Some h" "index_ok h" "find_smallest_hole sz al s = Inr it" "it \<noteq> -1"
  shows "it < oa_size (index h)"
proof -
  let ?fits = "hole_fits sz al (mem s)" and ?items = "oa_items (index h) (mem s)"
  define k where "k = length (takeWhile (\<lambda>x. \<not> ?fits x) ?items)"
  have k: "k \<le> unat (oa_size (index h))" using length_takeWhile_le [of "\<lambda>x. \<not> ?fits x" ?items] by (simp add: k_def)
  have "it = of_nat k" "k \<noteq> unat (oa_size (index h))"
    using assms(3,4) unfolding find_smallest_hole_eq [OF assms(1)] k_def [symmetric]
    by (auto simp: Let_def split: if_splits)
  then show ?thesis using k by (simp add: word_less_nat_alt unat_of_nat32 le_unat_uoi [OF k])
qed

text \<open>
  C16: an aligned request that is served from a hole that does not start on a page boundary is
  placed by the position of that hole alone: the data starts at the position with bits 0, 1 and 3
  cleared, plus 12. It is on a page boundary exactly when bit 2 and bits 4 to 11 of the position
  are all set, and off a page boundary for every other position.
\<close>

theorem alloc_aligned_misses_page:
  assumes "kheap s = Some h" "index_ok h" "al \<noteq> 0"
    and found: "find_smallest_hole (sz + 20) al s = Inr it" "it \<noteq> -1"
    and y: "y = oa_items (index h) (mem s) ! unat it" "y AND 0xFFF \<noteq> 0"
  shows "\<exists>s'. alloc (Suc fuel) sz al s = Inr ((y AND 0xFFFFFFF4) + 12, s')
    \<and> (((y AND 0xFFFFFFF4) + 12) AND 0xFFF = 0 \<longleftrightarrow> y AND 0xFF4 = 0xFF4)"
proof -
  note it = found_in_index [OF assms(1,2) found]
  from alloc_place_aligned [OF assms(1,2) it assms(3) y, of sz "sz + 20"] obtain s' where
    "alloc_place sz (sz + 20) al it s = Inr ((y AND 0xFFFFFFF4) + 12, s')" by blast
  moreover have sum: "sz + sizeof_header_t + sizeof_footer_t = sz + 20" by (simp add: sizeof_defs)
  ultimately have "alloc (Suc fuel) sz al s = Inr ((y AND 0xFFFFFFF4) + 12, s')"
    unfolding alloc.simps Let_def sum found(1) using found(2) by simp
  then show ?thesis using aligned_data_page by blast
qed

text \<open>
  After two allocations of eight bytes the third block should be on a page of its own; it is
  placed at 0xC0080030, over the footer of the second block, and its data is at 0xC008003C.
\<close>

theorem alloc_aligned_misses_page_witness:
  "\<exists>s h s'. heap_rep s h [(28, False), (28, False), (0x80000 - 56, True)] \<and> start_address h = 0xC0080000
    \<and> alloc 1 4096 1 s = Inr (0xC008003C, s') \<and> (0xC008003C :: uint32) AND 0xFFF \<noteq> 0"
proof -
  from demo_two_blocks obtain s h where rep: "heap_rep s h [(28, False), (28, False), (0x80000 - 56, True)]"
    "start_address h = 0xC0080000" by blast
  have "mset (oa_items (index h) (mem s)) = {# 0xC0080038 #}"
    using rep by (simp add: heap_rep_def)
  then have items: "oa_items (index h) (mem s) = [0xC0080038]" by simp
  have "hdr_size (mem s) 0xC0080038 = 0x80000 - 56"
    using rep by (simp add: heap_rep_def header_at_def)
  then have fits: "hole_fits (4096 + 20) 1 (mem s) 0xC0080038"
    by (simp add: hole_fits_def align_offset_def sizeof_defs PAGE_SIZE_def)
  have kh: "kheap s = Some h" "index_ok h" using rep(1) by (simp_all add: heap_rep_def)
  have "length (oa_items (index h) (mem s)) = 1" using items by simp
  then have size: "unat (oa_size (index h)) = 1" by simp
  have found: "find_smallest_hole (4096 + 20) 1 s = Inr 0"
    unfolding find_smallest_hole_eq [OF kh(1)] items using fits size by (simp add: Let_def)
  have "0xC0080038 = oa_items (index h) (mem s) ! unat (0 :: uint32)" by (simp add: items)
  from alloc_aligned_misses_page [OF kh _ found _ this, of 0] obtain s' where
    "alloc (Suc 0) 4096 1 s = Inr (0xC008003C, s')" by (auto simp del: alloc.simps)
  then show ?thesis
    using rep by (intro exI [of _ s] exI [of _ h] exI [of _ s']) (simp del: alloc.simps)
qed

section \<open>free in front of a hole\<close>

lemma index_search_found:
  assumes "x \<in> set (drop (unat i) (oa_items ix m))" "i \<le> oa_size ix"
  shows "\<exists>it. index_search ix m x i = Inr it \<and> it < oa_size ix \<and> oa_items ix m ! unat it = x"
  using assms
proof (induction ix m x i rule: index_search.induct)
  case (1 ix m x i)
  have lt: "i < oa_size ix"
    using "1.prems" by (cases "i = oa_size ix") (auto simp: less_le)
  note i1 = unat_Suc_lt [OF lt]
  have look: "lookup_ordered_array i ix m = Inr (oa_items ix m ! unat i)"
    using lt i1 by (simp add: lookup_ordered_array_def oa_items_def)
  have d: "drop (unat i) (oa_items ix m) = oa_items ix m ! unat i # drop (unat (i + 1)) (oa_items ix m)"
    using i1 by (simp add: Cons_nth_drop_Suc [symmetric])
  have "i + 1 \<le> oa_size ix" using i1 by (simp add: word_le_nat_alt)
  then show ?case
    using "1.IH" [OF lt look] "1.prems"(1) lt look d
    by (cases "oa_items ix m ! unat i = x") (auto simp: index_search.simps [of ix m x i])
qed

lemma unify_right_hole:
  assumes kh: "kheap s = Some h" and ok: "index_ok h" and q: "footer + sizeof_footer_t = of_nat q"
    and hd: "header_at (mem s) q k True" and x: "of_nat q \<in> set (oa_items (index h) (mem s))"
    and size: "m1 = set_hdr_size header (hdr_size (mem s) header + of_nat k) (mem s)"
    and q1: "header_at m1 q k True" "oa_items (index h) m1 = oa_items (index h) (mem s)"
  shows "\<exists>m' h'. unify_right header footer s = Inr (of_nat q + of_nat k - sizeof_footer_t, s\<lparr>mem := m', kheap := Some h'\<rparr>)
    \<and> h' = h\<lparr>index := (index h)\<lparr>oa_size := oa_size (index h) - 1\<rparr>\<rparr> \<and> index_ok h'
    \<and> mset (oa_items (index h') m') = mset (oa_items (index h) (mem s)) - {# of_nat q #}
    \<and> mem_eq_on (- index_region h) m1 m'"
proof -
  from index_search_found [of "of_nat q" 0 "index h" m1] x q1(2) obtain it where
    it: "index_search (index h) m1 (of_nat q) 0 = Inr it" "it < oa_size (index h)" "oa_items (index h) m1 ! unat it = of_nat q"
    by auto
  from remove_index_eq [of "s\<lparr>mem := m1\<rparr>" h it] kh ok it obtain m' h' where
    rm: "remove_index it (s\<lparr>mem := m1\<rparr>) = Inr (s\<lparr>mem := m', kheap := Some h'\<rparr>)"
    and h': "h' = h\<lparr>index := (index h)\<lparr>oa_size := oa_size (index h) - 1\<rparr>\<rparr>"
    and i': "mset (oa_items (index h') m') = mset (oa_items (index h) m1) - {# of_nat q #}"
    and eq: "mem_eq_on (- index_region h) m1 m'" by auto
  have "unat (oa_size (index h) - 1) = unat (oa_size (index h)) - 1"
    using it(2) by (subst unat_minus_le) (simp_all add: word_less_nat_alt)
  then have "index_ok h'" using ok unfolding h' by (intro index_ok_smaller) simp_all
  moreover have "unify_right header footer s =
      Inr (of_nat q + of_nat k - sizeof_footer_t, s\<lparr>mem := m', kheap := Some h'\<rparr>)"
    using hd q1(1) kh it rm unfolding unify_right_def q Let_def
    by (simp add: header_at_def the_heap_def flip: size)
  ultimately show ?thesis using h' i' eq q1(2) by auto
qed

text \<open>
  C17: free of a block with a hole behind it (and none in front) makes one hole of the two and
  takes the old hole out of the index, but the footer at the end of the joined hole still
  names the header of the old hole, which no longer exists: the next block that is freed
  behind it is joined with that stale header.
\<close>

theorem free_before_hole_stale_footer:
  assumes rep: "heap_rep s h (xs @ (n, False) # (k, True) # ys)" and ys: "ys \<noteq> []"
    and front: "xs = [] \<or> \<not> snd (last xs)" and a: "a = unat (start_address h) + seg_size xs"
  shows "\<exists>s' h'. free (of_nat (a + 12)) s = Inr s' \<and> kheap s' = Some h'
    \<and> header_at (mem s') a (n + k) True
    \<and> ftr_header (mem s') (of_nat (a + (n + k) - 8)) = of_nat (a + n) \<and> \<not> footer_at (mem s') a (n + k)
    \<and> mset (oa_items (index h') (mem s')) =
        add_mset (of_nat a) (mset (oa_items (index h) (mem s)) - {# of_nat (a + n) #})"
proof -
  let ?S = "unat (start_address h)" and ?E = "unat (end_address h)"
  define m1 where "m1 = set_hdr_is_hole (of_nat a) 1 (mem s)"
  define m2 where "m2 = set_hdr_size (of_nat a) (of_nat (n + k)) m1"
  have kh: "kheap s = Some h" and ok: "index_ok h"
    and ch: "chain (mem s) ?S (xs @ (n, False) # (k, True) # ys) ?E"
    and items: "mset (oa_items (index h) (mem s)) = mset (map of_nat (holes_at ?S (xs @ (n, False) # (k, True) # ys)))"
    using rep by (simp_all add: heap_rep_def)
  note c = chain_split [OF ch, folded a]
  have c2: "header_at (mem s) (a + n) k True" "footer_at (mem s) (a + n) k" "20 \<le> k" "chain (mem s) (a + n + k) ys ?E"
    using c(3) ys by auto
  obtain j b zs where "ys = (j, b) # zs" using ys by (metis list.exhaust surj_pair)
  then have "20 \<le> j" "?E = a + n + k + (j + seg_size zs)" using c2(4) c(4) by auto
  moreover have E: "?E < 4294967296" by simp
  ultimately have bounds: "a + n + k < ?E" "a + n + k < 4294967296" "a + 12 \<le> 4294967296" "a + n + 12 \<le> 4294967296"
    "a + n < 4294967296" "a + 12 < 4294967296"
    using c(5) c2(3) by linarith+
  have eq1: "mem_eq_on (- {a ..< a + 12}) (mem s) m1"
    unfolding m1_def using bounds by (intro set_hdr_eq_on) auto
  have eq2: "mem_eq_on (- {a ..< a + 12}) m1 m2"
    unfolding m2_def using bounds by (intro set_hdr_eq_on) auto
  have h1: "header_at m1 a n True" unfolding m1_def using set_is_hole_at [OF c(6) bounds(3)] .
  have h2: "header_at m2 a (n + k) True" unfolding m2_def using set_size_at [OF h1 bounds(3)] .
  have q1: "header_at m1 (a + n) k True" using header_keep [OF eq1 c2(1)] c(5) bounds by simp
  have q2: "header_at m2 (a + n) k True" using header_keep [OF eq2 q1] c(5) bounds by simp
  have reg: "index_region h \<subseteq> - {a ..< a + 12}" using a by (auto simp: index_region_def)
  have i1: "oa_items (index h) m1 = oa_items (index h) (mem s)" using items_eq_on [OF ok eq1 reg] .
  have i2: "oa_items (index h) m2 = oa_items (index h) m1" using items_eq_on [OF ok eq2 reg] .
  have "of_nat (a + n) \<in># mset (oa_items (index h) (mem s))"
    unfolding items by (simp add: holes_at_append a add.assoc)
  then have x: "of_nat (a + n) \<in> set (oa_items (index h) m1)" by (simp add: i1)
  have ftn: "of_nat (a + n - 8) + sizeof_footer_t = (of_nat (a + n) :: uint32)"
    using c(5) by (simp add: sizeof_defs of_nat_diff)
  have sz: "m2 = set_hdr_size (of_nat a) (hdr_size m1 (of_nat a) + of_nat k) m1"
    using h1 by (simp add: m2_def header_at_def)
  let ?s1 = "s\<lparr>mem := m1\<rparr>"
  have s1: "kheap ?s1 = Some h" "header_at (mem ?s1) (a + n) k True" "of_nat (a + n) \<in> set (oa_items (index h) (mem ?s1))"
    "m2 = set_hdr_size (of_nat a) (hdr_size (mem ?s1) (of_nat a) + of_nat k) (mem ?s1)"
    "oa_items (index h) m2 = oa_items (index h) (mem ?s1)"
    using kh q1 x sz i2 by simp_all
  from unify_right_hole [OF s1(1) ok ftn s1(2,3,4) q2 s1(5)] obtain m3 h3 where
    ur: "unify_right (of_nat a) (of_nat (a + n - 8)) (s\<lparr>mem := m1\<rparr>) =
      Inr (of_nat (a + n) + of_nat k - sizeof_footer_t, s\<lparr>mem := m3, kheap := Some h3\<rparr>)"
    and h3: "h3 = h\<lparr>index := (index h)\<lparr>oa_size := oa_size (index h) - 1\<rparr>\<rparr>" "index_ok h3"
    and i3: "mset (oa_items (index h3) m3) = mset (oa_items (index h) m1) - {# of_nat (a + n) #}"
    and eq3: "mem_eq_on (- index_region h) m2 m3" by (auto simp del: of_nat_add)
  let ?s3 = "s\<lparr>mem := m3, kheap := Some h3\<rparr>"
  have ne: "of_nat (a + n) + of_nat k - sizeof_footer_t + sizeof_footer_t \<noteq> end_address h3"
    using unat_of_nat32 [OF bounds(2)] bounds(1) h3(1) by (auto simp: add.assoc)
  have fc: "free_contract (of_nat a) (of_nat (a + n) + of_nat k - sizeof_footer_t) th ?s3 = Inr ?s3" for th
    using free_contract_inside [of ?s3 h3, OF _ ne] by simp
  have ul: "unify_left (of_nat a) footer m1 = (of_nat a, True, m1)" for footer
  proof (cases xs rule: rev_exhaust)
    case Nil
    then show ?thesis using rep_left_none [of s h n "(k, True) # ys" a footer] rep a by (simp add: m1_def)
  next
    case (snoc zs z)
    then obtain j where "xs = zs @ [(j, False)]" using front by (cases z) auto
    then show ?thesis
      using rep_left_block [of s h zs j n "(k, True) # ys" a footer] rep a by (simp add: m1_def add.assoc)
  qed
  have "8 \<le> n" using c(5) by simp
  from free_steps [OF c(6,7) this bounds(6) ul [unfolded m1_def], folded m1_def, OF _ ur fc]
  have fr: "free (of_nat (a + 12)) s = insert_index (of_nat a) ?s3" by simp
  from insert_index_eq [of ?s3 h3 "of_nat a"] h3(2) obtain m4 h4 where
    ins: "insert_index (of_nat a) ?s3 = Inr (s\<lparr>mem := m4, kheap := Some h4\<rparr>)"
    and i4: "mset (oa_items (index h4) m4) = add_mset (of_nat a) (mset (oa_items (index h3) m3))"
    and eq4: "mem_eq_on (- index_region h3) m3 m4" by auto
  have "index_region h3 = index_region h" by (simp add: h3(1) index_region_def)
  then have eq: "mem_eq_on (- index_region h) m2 m4" using mem_eq_on_trans [OF eq3] eq4 by simp
  have hd4: "header_at m4 a (n + k) True"
    using a bounds h2 by (subst header_at_eq_on [OF eq]) (auto simp: index_region_def)
  have "footer_at m2 (a + n) k"
    using footer_keep [OF eq2 footer_keep [OF eq1 c2(2)]] c(5) c2(3) bounds by simp
  then have "footer_at m4 (a + n) k"
    using a bounds c2(3) by (subst footer_at_eq_on [OF eq]) (auto simp: index_region_def)
  then have st: "ftr_header m4 (of_nat (a + (n + k) - 8)) = of_nat (a + n)"
    by (simp add: footer_at_def add.assoc)
  have "(of_nat (a + n) :: uint32) \<noteq> of_nat a"
    using unat_of_nat32 [OF bounds(5)] unat_of_nat32 [of a] bounds c(5) by (metis add_diff_cancel_left' add_lessD1 cancel_comm_monoid_add_class.diff_cancel not_numeral_le_zero)
  then have "\<not> footer_at m4 a (n + k)" using st by (simp add: footer_at_def)
  then show ?thesis
    using fr ins hd4 st i4 i3 i1
    by (intro exI [of _ "s\<lparr>mem := m4, kheap := Some h4\<rparr>"] exI [of _ h4]) simp
qed

lemma demo_hole_between:
  "\<exists>s h. heap_rep s h [(28, False), (28, True), (28, False), (0x80000 - 84, True)] \<and> start_address h = 0xC0080000"
proof -
  from demo_two_blocks obtain s h where 0: "heap_rep s h [(28, False), (28, False), (0x80000 - 56, True)]"
    "start_address h = 0xC0080000" "array (index h) = 0xC0000000" by blast
  have "unat (8 :: size_t) + 20 < 4294967296" by simp
  from alloc_fits [OF 0(1) this, where fuel = 0 and ?n0.0 = "0x80000 - 56"] obtain s1 h1 where
    "heap_rep s1 h1 [(28, False), (28, False), (28, False), (0x80000 - 84, True)]"
    and h1: "start_address h1 = 0xC0080000" "array (index h1) = 0xC0000000"
    using 0(2,3) by (auto simp: carve_def Cons_eq_append_conv)
  then have 1: "heap_rep s1 h1 ([(28, False)] @ (28, False) # (28, False) # [(0x80000 - 84, True)])"
    "heap_rep s1 h1 ([] @ [(28, False), (28, False)] @ [(28, False), (0x80000 - 84, True)])" by simp_all
  have "unat (oa_size (index h1)) = 1" using rep_index_size [OF 1(1)] by simp
  then have "unat (array (index h1)) + 4 * (unat (oa_size (index h1)) + 2) + 8 \<le> unat (start_address h1)"
    by (simp add: h1)
  from free_no_merge [OF 1(1) refl _ this] rep_left_block [OF 1(2)] obtain s2 h2 ix where
    "heap_rep s2 h2 ([(28, False)] @ (28, True) # (28, False) # [(0x80000 - 84, True)])" "h2 = h1\<lparr>index := ix\<rparr>"
    by auto
  then show ?thesis using h1 by (intro exI [of _ s2] exI [of _ h2]) simp
qed

theorem free_before_hole_stale_footer_witness:
  "\<exists>s h s'. heap_rep s h [(28, False), (28, True), (28, False), (0x80000 - 84, True)] \<and> free 0xC008000C s = Inr s'
    \<and> header_at (mem s') 0xC0080000 56 True \<and> ftr_header (mem s') 0xC0080030 = 0xC008001C"
proof -
  from demo_hole_between obtain s h where rep: "heap_rep s h ([] @ (28, False) # (28, True) # [(28, False), (0x80000 - 84, True)])"
    "start_address h = 0xC0080000" by auto
  from free_before_hole_stale_footer [OF rep(1) _ _ refl] rep(2) obtain s' where
    "free 0xC008000C s = Inr s'" "header_at (mem s') 0xC0080000 56 True" "ftr_header (mem s') 0xC0080030 = 0xC008001C"
    by auto
  with rep show ?thesis by auto
qed

end
