(* ===== verification/Contract.thy ===== *)
theory Contract
  imports HeapDefects PagingBoot
begin

text \<open>
  contract of src/memory/kheap.c and the free that calls it: the last block of the heap is
  freed, its hole reaches the end of the heap, the pages behind the new end give their frames
  back and the heap ends at HEAP_MIN_SIZE.
\<close>

section \<open>The page tables of the heap\<close>

text \<open>
  Where free_frame writes: the bitmap, and the page tables, which initialise_paging put
  behind the kernel directory and below 16 MB.
\<close>

definition paging_region :: "kstate \<Rightarrow> nat set" where
  "paging_region s = {unat (frames s) ..< unat (frames s) + 128}
     \<union> {unat (kernel_directory s) + 0x3000 ..< 0x1000000}"

text \<open>The pages from number \<open>lo\<close> up to \<open>hi\<close> have a page table.\<close>

definition tabled :: "kstate \<Rightarrow> nat \<Rightarrow> nat \<Rightarrow> bool" where
  "tabled s lo hi \<longleftrightarrow> hi \<le> 1048576 \<and> unat (frames s) + 128 \<le> unat (kernel_directory s)
     \<and> (\<forall>k. lo \<le> k \<and> k < hi \<longrightarrow> (\<exists>t. table_at s (k div 1024) t))"

lemma tabled_keep:
  assumes "tabled s lo hi" "mem_eq_on S (mem s) (mem s')" "{0 ..< 0x1000000} - paging_region s \<subseteq> S"
    and "kernel_directory s' = kernel_directory s" "frames s' = frames s"
  shows "tabled s' lo hi"
proof -
  have "table_at s' i t" if t: "table_at s i t" for i t
  proof (rule table_at_keep [OF t assms(2,4)])
    have i: "i < 1024" "unat (kernel_directory s) \<le> 0x2FA000" using t by (simp_all add: table_at_def)
    have "unat (frames s) + 128 \<le> unat (kernel_directory s)" using assms(1) by (simp add: tabled_def)
    then have "{unat (kernel_directory s) ..< unat (kernel_directory s) + 8192} \<subseteq> S"
      using assms(3) i by (auto simp: paging_region_def subset_iff)
    then show "{unat (kernel_directory s) + 4 * i ..< unat (kernel_directory s) + 4 * i + 4} \<subseteq> S"
      "{unat (kernel_directory s) + 4096 + 4 * i ..< unat (kernel_directory s) + 4096 + 4 * i + 4} \<subseteq> S"
      using i(1) by (auto simp: subset_iff)
  qed
  then show ?thesis using assms(1,4,5) by (fastforce simp: tabled_def)
qed

lemma tabled_mono: "tabled s lo hi \<Longrightarrow> lo \<le> lo' \<Longrightarrow> hi' \<le> hi \<Longrightarrow> tabled s lo' hi'"
  by (simp add: tabled_def)

lemma free_frame_step:
  assumes t: "table_at s i t" "j < 1024" and f: "unat (frames s) + 128 \<le> unat (kernel_directory s)"
  shows "\<exists>m'. free_frame (t + 4 * of_nat j) s = s\<lparr>mem := m'\<rparr> \<and> mem_eq_on (- paging_region s) (mem s) m'"
proof -
  define fr where "fr = (ucast (frame (load_page (mem s) (t + 4 * of_nat j))) :: size_t)"
  define ix where "ix = INDEX_FROM_BIT (fr div 0x1000)"
  have "unat (ucast (w :: 20 word) :: size_t) < 2 ^ 20" for w
  proof -
    have "unat w < 2 ^ 20" using unsigned_less [of w] by simp
    moreover from this have "take_bit 32 (unat w) = unat w" by (intro take_bit_nat_eq_self) simp
    ultimately show ?thesis by (simp add: unsigned_ucast_eq)
  qed
  then have "unat fr < 2 ^ 20" unfolding fr_def .
  then have "unat fr div 4096 div 32 < 8" by (simp add: less_mult_imp_div_less)
  moreover have "unat ix = unat fr div 4096 div 32" by (simp add: ix_def INDEX_FROM_BIT_def unat_div)
  ultimately have ix: "unat ix < 8" by simp
  have "unat t + 4096 \<le> 0x1000000" "unat (kernel_directory s) \<le> 0x2FA000" "unat (kernel_directory s) + 0x3000 \<le> unat t"
    using t(1) by (simp_all add: table_at_def)
  note d = this
  have a: "unat (frames s + 4 * ix) = unat (frames s) + 4 * unat ix"
    using unat_word_index [of "frames s" "unat ix"] ix f d by simp
  have p: "unat (t + 4 * of_nat j) = unat t + 4 * j" using table_address [OF t] .
  obtain m1 where m1: "clear_frame fr s = s\<lparr>mem := m1\<rparr>" "mem_eq_on (- paging_region s) (mem s) m1"
  proof
    show "clear_frame fr s = s\<lparr>mem := wr32 (mem s) (frames s + 4 * ix)
        (rd32 (mem s) (frames s + 4 * ix) AND NOT (push_bit (unat (OFFSET_FROM_BIT (fr div 0x1000))) 1))\<rparr>"
      by (simp add: clear_frame_def ix_def Let_def)
    show "mem_eq_on (- paging_region s) (mem s) (wr32 (mem s) (frames s + 4 * ix)
        (rd32 (mem s) (frames s + 4 * ix) AND NOT (push_bit (unat (OFFSET_FROM_BIT (fr div 0x1000))) 1)))"
      using ix f d a by (intro mem_eq_on_wr32) (auto simp: paging_region_def)
  qed
  have "mem_eq_on (- paging_region s) m1 (store_page m1 (t + 4 * of_nat j) pg)" for pg
    unfolding store_page_def using t(2) d p by (intro mem_eq_on_wr32) (auto simp: paging_region_def)
  from mem_eq_on_trans [OF m1(2) this] m1(1) show ?thesis
    by (cases "fr = 0") (auto simp: free_frame_def Let_def fr_def intro: exI [of _ "mem s"])
qed

section \<open>contract\<close>

lemma contract_loop_pages:
  assumes "kheap s = Some h" "start_address h = frame_address_of K"
    and "tabled s (K + unat new div 4096) (K + q + 1)" "q < fuel"
  shows "\<exists>m'. contract_loop fuel new (frame_address_of q) s = Inr (s\<lparr>mem := m'\<rparr>)
    \<and> mem_eq_on (- paging_region s) (mem s) m'"
  using assms
proof (induction fuel arbitrary: q s)
  case (Suc fuel)
  have K: "K + q < 1048576" using Suc.prems(3) by (simp add: tabled_def)
  have q: "unat (frame_address_of q) = q * 4096" using page_address(1) [of q] K by simp
  show ?case
  proof (cases "new < frame_address_of q")
    case False
    then show ?thesis by (intro exI [of _ "mem s"]) simp
  next
    case True
    then have n: "unat new < q * 4096" using q by (simp add: word_less_nat_alt)
    then have "unat new div 4096 < q" by (simp add: less_mult_imp_div_less)
    then obtain p where p: "q = Suc p" "unat new div 4096 \<le> p" by (cases q) auto
    have "K + unat new div 4096 \<le> K + q \<and> K + q < K + q + 1" using p by simp
    then obtain t where t: "table_at s ((K + q) div 1024) t"
      using Suc.prems(3) unfolding tabled_def by blast
    have "rd32 (mem s) (tables_entry (kernel_directory s) (of_nat ((K + q) div 1024))) = t" "t \<noteq> 0"
      using t by (auto simp: table_at_def)
    note pg = get_page_with_present [OF K this, of no_alloc False]
    have ad: "start_address h + frame_address_of q = frame_address_of (K + q)"
      using Suc.prems(2) by (simp add: frame_address_of_def algebra_simps)
    have "(K + q) mod 1024 < 1024" by simp
    from free_frame_step [OF t this] Suc.prems(3) obtain m1 where
      m1: "free_frame (t + 4 * of_nat ((K + q) mod 1024)) s = s\<lparr>mem := m1\<rparr>" "mem_eq_on (- paging_region s) (mem s) m1"
      by (auto simp: tabled_def)
    have "tabled (s\<lparr>mem := m1\<rparr>) (K + unat new div 4096) (K + q + 1)"
      using tabled_keep [OF Suc.prems(3), of _ "s\<lparr>mem := m1\<rparr>"] m1(2) by auto
    then have tb: "tabled (s\<lparr>mem := m1\<rparr>) (K + unat new div 4096) (K + p + 1)" using p by (auto simp: tabled_def)
    have prev: "frame_address_of q - PAGE_SIZE = frame_address_of p"
      by (simp add: p frame_address_of_def PAGE_SIZE_def algebra_simps)
    have "p < fuel" "start_address h = frame_address_of K" "kheap (s\<lparr>mem := m1\<rparr>) = Some h"
      using Suc.prems p by simp_all
    from Suc.IH [OF this(3,2) tb this(1)] obtain m2 where
      "contract_loop fuel new (frame_address_of p) (s\<lparr>mem := m1\<rparr>) = Inr (s\<lparr>mem := m2\<rparr>)"
      "mem_eq_on (- paging_region s) m1 m2" by (auto simp: paging_region_def)
    then show ?thesis
      using True Suc.prems(1) mem_eq_on_trans [OF m1(2)]
      by (intro exI [of _ m2]) (simp add: the_heap_def ad pg m1(1) prev)
  qed
qed simp

lemma contract_eq:
  assumes kh: "kheap s = Some h" and st: "start_address h = frame_address_of K"
    and len: "heap_length h = frame_address_of (Suc q)" and less: "new0 < heap_length h"
    and tb: "tabled s (K + unat (contract_size new0) div 4096) (K + q + 1)"
  shows "\<exists>m'. contract new0 s = Inr (contract_size new0,
      s\<lparr>mem := m', kheap := Some (h\<lparr>end_address := start_address h + contract_size new0\<rparr>)\<rparr>)
    \<and> mem_eq_on (- paging_region s) (mem s) m'"
proof -
  have "q < page_fuel" using tb by (simp add: page_fuel_def tabled_def)
  from contract_loop_pages [OF kh st tb this] obtain m' where
    m': "contract_loop page_fuel (contract_size new0) (frame_address_of q) s = Inr (s\<lparr>mem := m'\<rparr>)"
    "mem_eq_on (- paging_region s) (mem s) m'" by blast
  have "frame_address_of (Suc q) - PAGE_SIZE = frame_address_of q"
    by (simp add: frame_address_of_def PAGE_SIZE_def algebra_simps)
  then show ?thesis
    using m' kh less by (intro exI [of _ m']) (simp add: contract_def the_heap_def len Let_def)
qed

lemma and_bit_12:
  fixes x :: uint32
  assumes "x AND 0x1000 \<noteq> 0"
  shows "x AND 0x1000 = 0x1000"
proof -
  have b: "bit (0x1000 :: uint32) n \<longleftrightarrow> n = 12" for n
  proof -
    have "bit (2 ^ 12 :: uint32) n \<longleftrightarrow> n = 12" unfolding bit_exp_iff by auto
    then show ?thesis by simp
  qed
  have "\<exists>n. bit (x AND 0x1000) n" using assms by (metis bit_eq_iff bit_0_eq bot_apply bot_bool_def)
  then have "bit x 12" unfolding bit_and_iff b by blast
  then show ?thesis by (intro bit_word_eqI) (auto simp only: bit_and_iff b)
qed

lemma contract_size_bit: "x AND 0x1000 \<noteq> 0 \<Longrightarrow> contract_size x = HEAP_MIN_SIZE"
  by (simp add: contract_size_def PAGE_SIZE_def HEAP_MIN_SIZE_def and_bit_12)

lemma contract_size_small: "x < HEAP_MIN_SIZE \<Longrightarrow> contract_size x = HEAP_MIN_SIZE"
  by (cases "x AND 0x1000 = 0") (simp_all add: contract_size_bit, simp add: contract_size_def PAGE_SIZE_def)

section \<open>The end of free\<close>

text \<open>What the heap must be like for its end to move: on pages that have page tables, behind 16 MB.\<close>

definition heap_paged :: "kstate \<Rightarrow> heap_t \<Rightarrow> nat \<Rightarrow> bool" where
  "heap_paged s h len \<longleftrightarrow> (\<exists>K q. start_address h = frame_address_of K \<and> len = 4096 * Suc q
     \<and> tabled s K (K + q + 1)) \<and> 0x1000000 \<le> unat (array (index h))"

lemma paging_region_below: "tabled s lo hi \<Longrightarrow> lo < hi \<Longrightarrow> paging_region s \<subseteq> {0 ..< 0x1000000}"
  by (fastforce simp: tabled_def paging_region_def table_at_def)

lemma heap_paged_keep:
  assumes "heap_paged s h len" "mem_eq_on S (mem s) (mem s')" "{0 ..< 0x1000000} - paging_region s \<subseteq> S"
    and "kernel_directory s' = kernel_directory s" "frames s' = frames s"
    and "start_address h' = start_address h" "array (index h') = array (index h)"
  shows "heap_paged s' h' len"
  using assms(1,6,7) tabled_keep [OF _ assms(2-5)] unfolding heap_paged_def by metis

lemma heap_paged_below:
  assumes "heap_paged s h len"
  shows "paging_region s \<subseteq> {0 ..< 0x1000000}" "0x1000000 \<le> unat (array (index h))"
proof -
  from assms obtain K q where tb: "tabled s K (K + q + 1)" and ix: "0x1000000 \<le> unat (array (index h))"
    by (auto simp: heap_paged_def)
  show "paging_region s \<subseteq> {0 ..< 0x1000000}" by (rule paging_region_below [OF tb]) linarith
  show "0x1000000 \<le> unat (array (index h))" by (rule ix)
qed

lemma contract_run:
  assumes kh: "kheap s = Some h" and pg: "heap_paged s h len" and len: "heap_length h = of_nat len" "off < len" "len < 4294967296"
  shows "\<exists>m1. contract (of_nat off) s = Inr (contract_size (of_nat off),
      s\<lparr>mem := m1, kheap := Some (h\<lparr>end_address := start_address h + contract_size (of_nat off)\<rparr>)\<rparr>)
    \<and> mem_eq_on (- paging_region s) (mem s) m1"
proof -
  from pg obtain K q where K: "start_address h = frame_address_of K" and q: "len = 4096 * Suc q"
    and tb: "tabled s K (K + q + 1)" by (auto simp: heap_paged_def)
  have "unat (of_nat off :: uint32) = off" "unat (of_nat len :: uint32) = len" using len by (simp_all add: unat_of_nat32)
  then have lt: "of_nat off < heap_length h" using len by (simp add: word_less_nat_alt)
  have ln: "heap_length h = frame_address_of (Suc q)"
    using len(1) q by (simp add: frame_address_of_def algebra_simps)
  have "tabled s (K + unat (contract_size (of_nat off)) div 4096) (K + q + 1)" using tabled_mono [OF tb] by simp
  from contract_eq [OF kh K ln lt this] show ?thesis .
qed

text \<open>
  The hole of \<open>n\<close> bytes at \<open>p\<close> that ends the heap gets the size that is left, and a footer
  there, when that is not zero. The size is computed modulo 2^32.
\<close>

lemma free_contract_writes:
  assumes kh: "kheap s = Some h" and pg: "heap_paged s h len" and len: "heap_length h = of_nat len" "off < len" "len < 4294967296"
    and p: "p = unat (start_address h) + off" "p + 12 \<le> 4294967296" and ok: "index_ok h"
    and f: "f + sizeof_footer_t = end_address h" and hd: "header_at (mem s) p n True"
    and L: "contract_size (of_nat off) = L" and sz: "sz = of_nat n - (of_nat len - L)" "sz \<noteq> 0"
  shows "\<exists>m1. free_contract (of_nat p) f th s =
      Inr (s\<lparr>mem := write_footer (of_nat p + sz - sizeof_footer_t) (of_nat p) (set_hdr_size (of_nat p) sz m1),
             kheap := Some (h\<lparr>end_address := start_address h + L\<rparr>)\<rparr>)
    \<and> header_at m1 p n True \<and> mem_eq_on (- paging_region s) (mem s) m1"
proof -
  from contract_run [OF kh pg len] obtain m1 where
    ct: "contract (of_nat off) s = Inr (L, s\<lparr>mem := m1, kheap := Some (h\<lparr>end_address := start_address h + L\<rparr>)\<rparr>)"
    and eq1: "mem_eq_on (- paging_region s) (mem s) m1" unfolding L by auto
  have o: "of_nat p - start_address h = (of_nat off :: uint32)" by (simp add: p(1))
  note heap_paged_below(1) [OF pg]
  moreover have "0x1000000 \<le> p" using heap_paged_below(2) [OF pg] ok p(1) unfolding index_ok_def by linarith
  ultimately have reg: "{p ..< p + 12} \<subseteq> - paging_region s" by (auto simp: subset_iff)
  have h1: "header_at m1 p n True" using header_at_eq_on [OF eq1 reg p(2)] hd by simp
  have sz1: "hdr_size m1 (of_nat p) - (heap_length h - L) = sz" using h1 by (simp add: header_at_def len(1) sz(1))
  have "hdr_size m1 (of_nat p) \<noteq> heap_length h - L" using sz1 sz(2) by auto
  moreover have "hdr_size (set_hdr_size (of_nat p) sz m1) (of_nat p) = sz" by (simp add: hdr_defs)
  ultimately have "free_contract (of_nat p) f th s =
      Inr (s\<lparr>mem := write_footer (of_nat p + sz - sizeof_footer_t) (of_nat p) (set_hdr_size (of_nat p) sz m1),
             kheap := Some (h\<lparr>end_address := start_address h + L\<rparr>)\<rparr>)"
    using sz(2) by (simp add: free_contract_def the_heap_def kh f o ct sz1 write_footer_def word_gt_0 Let_def)
  then show ?thesis using h1 eq1 by blast
qed

text \<open>Below HEAP_MIN_SIZE the hole is what is left of HEAP_MIN_SIZE.\<close>

lemma free_contract_end:
  assumes kh: "kheap s = Some h" and pg: "heap_paged s h len" and len: "heap_length h = of_nat len" "len < 4294967296"
    and p: "p = unat (start_address h) + off" "off + r = 0x70000" "20 \<le> r" "0x70000 \<le> len" "off + n = len"
    and lim: "unat (start_address h) + len < 4294967296"
    and ok: "index_ok h" and f: "f + sizeof_footer_t = end_address h" and hd: "header_at (mem s) p n True"
  shows "\<exists>m' h'. free_contract (of_nat p) f th s = Inr (s\<lparr>mem := m', kheap := Some h'\<rparr>)
    \<and> h' = h\<lparr>end_address := start_address h + 0x70000\<rparr>
    \<and> header_at m' p r True \<and> footer_at m' p r
    \<and> mem_eq_on (- ({p ..< p + r} \<union> paging_region s)) (mem s) m'"
proof -
  have b: "p + 12 \<le> 4294967296" "20 \<le> r" "8 \<le> r" "p + r \<le> 4294967296" "p + r - 8 + 8 \<le> 4294967296" "off < len"
    using p lim by simp_all
  have "unat (of_nat off :: uint32) = off" using p(2,4) by (intro unat_of_nat32) simp
  then have cs: "contract_size (of_nat off) = 0x70000"
    using contract_size_small [of "of_nat off"] p(2,3) by (simp add: HEAP_MIN_SIZE_def word_less_nat_alt)
  have "(of_nat off + of_nat r :: uint32) = 0x70000" using p(2) by (metis of_nat_add of_nat_numeral)
  then have sz: "(of_nat r :: uint32) = of_nat n - (of_nat len - 0x70000)" by (simp add: algebra_simps flip: p(5))
  have "unat (of_nat r :: uint32) = r" using p(2) by (intro unat_of_nat32) simp
  then have "(of_nat r :: uint32) \<noteq> 0" using b(2) by auto
  from free_contract_writes [OF kh pg len(1) b(6) len(2) p(1) b(1) ok f hd cs sz this, of th] obtain m1 where
    fc: "free_contract (of_nat p) f th s =
      Inr (s\<lparr>mem := write_footer (of_nat p + of_nat r - sizeof_footer_t) (of_nat p) (set_hdr_size (of_nat p) (of_nat r) m1),
             kheap := Some (h\<lparr>end_address := start_address h + 0x70000\<rparr>)\<rparr>)"
    and h1: "header_at m1 p n True" and eq1: "mem_eq_on (- paging_region s) (mem s) m1" by blast
  have ft: "of_nat p + of_nat r - sizeof_footer_t = (of_nat (p + r - 8) :: uint32)"
    using b(3) by (simp add: sizeof_defs of_nat_diff)
  define m2 where "m2 = set_hdr_size (of_nat p) (of_nat r) m1"
  define m3 where "m3 = write_footer (of_nat (p + r - 8)) (of_nat p) m2"
  have eq2: "mem_eq_on (- {p ..< p + 12}) m1 m2" unfolding m2_def using b by (intro set_hdr_eq_on) auto
  have eq3: "mem_eq_on (- {p + r - 8 ..< p + r}) m2 m3"
    unfolding m3_def using b by (intro write_footer_eq_on) auto
  have h2: "header_at m2 p r True" unfolding m2_def using set_size_at [OF h1 b(1)] .
  have h3: "header_at m3 p r True" using header_keep [OF eq3 h2 _ b(1)] b(2) by simp
  have f3: "footer_at m3 p r" unfolding m3_def by (rule write_footer_at [OF b(3,4) refl])
  have "mem_eq_on (- ({p ..< p + r} \<union> paging_region s)) (mem s) m3"
    by (rule mem_eq_on_trans [OF mem_eq_on_mono [OF eq1] mem_eq_on_trans [OF mem_eq_on_mono [OF eq2] mem_eq_on_mono [OF eq3]]])
      (use b in auto)
  then show ?thesis using fc [unfolded ft, folded m2_def, folded m3_def] h3 f3
    by (intro exI [of _ m3] exI [of _ "h\<lparr>end_address := start_address h + 0x70000\<rparr>"]) simp
qed

text \<open>The part before it: the block at \<open>p\<close> is joined with the last hole.\<close>

lemma free_end_unify:
  assumes kh: "kheap s = Some h" and ok: "index_ok h" and pg: "heap_paged s h len"
    and E: "unat (end_address h) = unat (start_address h) + len"
    and p: "p = unat (start_address h) + off" "off + n + k = len" "20 \<le> n" "20 \<le> k"
    and hd: "header_at (mem s) p n True" and q: "header_at (mem s) (p + n) k True"
    and x: "of_nat (p + n) \<in> set (oa_items (index h) (mem s))"
  shows "\<exists>m2 h2 f. unify_right (of_nat p) (of_nat (p + n - 8)) s = Inr (f, s\<lparr>mem := m2, kheap := Some h2\<rparr>)
    \<and> h2 = h\<lparr>index := (index h)\<lparr>oa_size := oa_size (index h) - 1\<rparr>\<rparr> \<and> index_ok h2
    \<and> f + sizeof_footer_t = end_address h2 \<and> header_at m2 p (n + k) True
    \<and> mset (oa_items (index h2) m2) = mset (oa_items (index h) (mem s)) - {# of_nat (p + n) #}
    \<and> heap_paged (s\<lparr>mem := m2, kheap := Some h2\<rparr>) h2 len \<and> heap_length h2 = of_nat len
    \<and> mem_eq_on (- ({p ..< p + 12} \<union> index_region h)) (mem s) m2"
proof -
  define m1 where "m1 = set_hdr_size (of_nat p) (of_nat (n + k)) (mem s)"
  have Ew: "unat (end_address h) < 4294967296" by simp
  have b: "p + n + k = unat (end_address h)" "p + 12 \<le> 4294967296" "p + n + k < 4294967296"
    using E Ew p by linarith+
  have eq1: "mem_eq_on (- {p ..< p + 12}) (mem s) m1"
    unfolding m1_def using b by (intro set_hdr_eq_on) auto
  have h1: "header_at m1 p (n + k) True" unfolding m1_def using set_size_at [OF hd b(2)] .
  have k: "p + n + 12 \<le> 4294967296" using p(4) b(3) by simp
  have q1: "header_at m1 (p + n) k True" using header_keep [OF eq1 q _ k] p(3) by simp
  have i1: "oa_items (index h) m1 = oa_items (index h) (mem s)"
    by (rule items_eq_on [OF ok eq1]) (use p(1) in \<open>auto simp: index_region_def\<close>)
  have ftn: "of_nat (p + n - 8) + sizeof_footer_t = (of_nat (p + n) :: uint32)"
    using p(3) by (simp add: sizeof_defs of_nat_diff)
  have sz: "m1 = set_hdr_size (of_nat p) (hdr_size (mem s) (of_nat p) + of_nat k) (mem s)"
    using hd by (simp add: m1_def header_at_def)
  from unify_right_hole [OF kh ok ftn q x sz q1 i1] obtain m2 h2 where
    ur: "unify_right (of_nat p) (of_nat (p + n - 8)) s =
      Inr (of_nat (p + n) + of_nat k - sizeof_footer_t, s\<lparr>mem := m2, kheap := Some h2\<rparr>)"
    and h2: "h2 = h\<lparr>index := (index h)\<lparr>oa_size := oa_size (index h) - 1\<rparr>\<rparr>" "index_ok h2"
    and i2: "mset (oa_items (index h2) m2) = mset (oa_items (index h) (mem s)) - {# of_nat (p + n) #}"
    and eq2: "mem_eq_on (- index_region h) m1 m2" by blast
  let ?s2 = "s\<lparr>mem := m2, kheap := Some h2\<rparr>"
  have hd2: "header_at m2 p (n + k) True" using header_in_chain_eq_on [OF eq2 _ b(2)] h1 p(1) by simp
  have "of_nat (p + n) + of_nat k = (of_nat (p + n + k) :: uint32)" by simp
  also have "\<dots> = end_address h2" unfolding b(1) h2(1) by simp
  finally have f: "of_nat (p + n) + of_nat k - sizeof_footer_t + sizeof_footer_t = end_address h2" by simp
  have eq12: "mem_eq_on (- ({p ..< p + 12} \<union> index_region h)) (mem s) m2"
    using mem_eq_on_trans [OF mem_eq_on_mono [OF eq1] mem_eq_on_mono [OF eq2]] by (auto simp: Un_commute)
  have "0x1000000 \<le> unat (array (index h))" "unat (array (index h)) \<le> p"
    using heap_paged_below(2) [OF pg] ok p(1) by (auto simp: index_ok_def)
  then have "{0 ..< 0x1000000} - paging_region s \<subseteq> - ({p ..< p + 12} \<union> index_region h)" by (auto simp: index_region_def)
  from heap_paged_keep [OF pg, of _ ?s2, simplified, OF eq12 this] have pg2: "heap_paged ?s2 h2 len" by (simp add: h2(1))
  have "end_address h = of_nat (unat (start_address h) + len)" unfolding E [symmetric] by simp
  then have "heap_length h2 = of_nat len" by (simp add: heap_length_def h2(1))
  then show ?thesis using ur h2 i2 f hd2 pg2 eq12 by blast
qed

lemma free_end_tail:
  assumes kh: "kheap s = Some h" and ok: "index_ok h" and pg: "heap_paged s h len"
    and E: "unat (end_address h) = unat (start_address h) + len"
    and p: "p = unat (start_address h) + off" "off + r = 0x70000" "20 \<le> r" "0x70000 \<le> len" "off + n + k = len" "20 \<le> n"
    and k20: "20 \<le> k" and hd: "header_at (mem s) p n True" and q: "header_at (mem s) (p + n) k True"
    and x: "of_nat (p + n) \<in> set (oa_items (index h) (mem s))"
  shows "\<exists>m' h' f s2. unify_right (of_nat p) (of_nat (p + n - 8)) s = Inr (f, s2)
    \<and> free_contract (of_nat p) f th s2 = Inr (s\<lparr>mem := m', kheap := Some h'\<rparr>)
    \<and> h' = h\<lparr>index := (index h)\<lparr>oa_size := oa_size (index h) - 1\<rparr>, end_address := start_address h + 0x70000\<rparr>
    \<and> index_ok h' \<and> header_at m' p r True \<and> footer_at m' p r
    \<and> mset (oa_items (index h') m') = mset (oa_items (index h) (mem s)) - {# of_nat (p + n) #}
    \<and> mem_eq_on (- ({p ..< unat (end_address h)} \<union> index_region h \<union> paging_region s)) (mem s) m'"
proof -
  from free_end_unify [OF kh ok pg E p(1,5,6) k20 hd q x] obtain m2 h2 f where
    ur: "unify_right (of_nat p) (of_nat (p + n - 8)) s = Inr (f, s\<lparr>mem := m2, kheap := Some h2\<rparr>)"
    and h2: "h2 = h\<lparr>index := (index h)\<lparr>oa_size := oa_size (index h) - 1\<rparr>\<rparr>" "index_ok h2"
    and f: "f + sizeof_footer_t = end_address h2" and hd2: "header_at m2 p (n + k) True"
    and i2: "mset (oa_items (index h2) m2) = mset (oa_items (index h) (mem s)) - {# of_nat (p + n) #}"
    and pg2: "heap_paged (s\<lparr>mem := m2, kheap := Some h2\<rparr>) h2 len" "heap_length h2 = of_nat len"
    and eq2: "mem_eq_on (- ({p ..< p + 12} \<union> index_region h)) (mem s) m2" by blast
  let ?s2 = "s\<lparr>mem := m2, kheap := Some h2\<rparr>"
  have Ew: "unat (end_address h) < 4294967296" by simp
  have b: "p + n + k = unat (end_address h)" "len < 4294967296" using E Ew p by linarith+
  from free_contract_end [of ?s2 h2, OF _ pg2 b(2) _ p(2,3,4) _ _ h2(2) f, of p "n + k" th] obtain m3 h3 where
    fc: "free_contract (of_nat p) f th ?s2 = Inr (?s2\<lparr>mem := m3, kheap := Some h3\<rparr>)"
    and h3: "h3 = h2\<lparr>end_address := start_address h2 + 0x70000\<rparr>"
    and at: "header_at m3 p r True" "footer_at m3 p r"
    and eq3: "mem_eq_on (- ({p ..< p + r} \<union> paging_region s)) m2 m3"
    using hd2 p E Ew by (auto simp: h2(1) add.assoc paging_region_def)
  have "index_region h2 \<subseteq> - ({p ..< p + r} \<union> paging_region s)"
    using heap_paged_below [OF pg] p(1) by (auto simp: h2(1) index_region_def subset_iff)
  from items_eq_on [OF h2(2) eq3 this] have i3: "oa_items (index h3) m3 = oa_items (index h2) m2" by (simp add: h3)
  have "r \<le> n + k" using p by linarith
  then have "mem_eq_on (- ({p ..< unat (end_address h)} \<union> index_region h \<union> paging_region s)) (mem s) m3"
    by (intro mem_eq_on_trans [OF mem_eq_on_mono [OF eq2] mem_eq_on_mono [OF eq3]]) (use b(1) p k20 in auto)
  then show ?thesis
    using ur fc at i2 i3 h2(2)
    by (intro exI [of _ m3] exI [of _ h3] exI [of _ f] exI [of _ ?s2])
      (simp add: h3 h2(1) index_ok_def)
qed

section \<open>Freeing the last block\<close>

lemma heap_rep_last:
  assumes rep: "heap_rep s h (zs @ old)" "old \<noteq> []" and p: "p = unat (start_address h) + seg_size zs" "20 \<le> r"
    and h': "kheap s' = Some h'" "index_ok h'" "start_address h' = start_address h" "unat (end_address h') = p + r"
    and reg: "paging_region s \<subseteq> {0 ..< 0x1000000}" "0x1000000 \<le> unat (array (index h))"
    and eq: "mem_eq_on (- ({p ..< unat (end_address h)} \<union> index_region h \<union> paging_region s)) (mem s) (mem s')"
    and at: "header_at (mem s') p r True"
    and items: "mset (oa_items (index h') (mem s')) =
      mset (map of_nat (holes_at (unat (start_address h)) (zs @ [(r, True)])))"
  shows "heap_rep s' h' (zs @ [(r, True)])"
proof -
  let ?S = "unat (start_address h)" and ?W = "- ({p ..< unat (end_address h)} \<union> index_region h \<union> paging_region s)"
  have ok: "index_ok h" and ch: "chain (mem s) ?S (zs @ old) (unat (end_address h))"
    and mg: "ftr_magic (mem s) (start_address h - 8) \<noteq> HEAP_MAGIC"
    using rep(1) by (simp_all add: heap_rep_def)
  have S: "0x1000000 + 8 \<le> ?S" "unat (start_address h - 8) = ?S - 8" 
    using ok reg(2) by (auto simp: index_ok_def word_le_nat_alt unat_sub)
  have S4: "?S - 4 \<le> 4294967296" using unat_lt_2p32 [of "start_address h"] by linarith
  have sc: "strict_chain (mem s) ?S zs p" using ch rep(2) by (simp add: chain_append p(1))
  have "{?S ..< p} \<subseteq> ?W" using reg(1) S by (auto simp: index_region_def subset_iff)
  moreover have "p \<le> 4294967296" using h'(4) unat_lt_2p32 [of "end_address h'"] by linarith
  ultimately have "strict_chain (mem s') ?S zs p" using strict_chain_eq_on [OF sc eq] by simp
  then have "chain (mem s') ?S (zs @ [(r, True)]) (p + r)" using at p by (simp add: chain_append)
  moreover have "rd32 (mem s') (start_address h - 8) = rd32 (mem s) (start_address h - 8)"
    using S S4 p(1) reg by (intro mem_eq_on_rd32 [OF eq]) (auto simp: index_region_def subset_iff)
  ultimately show ?thesis using h' mg items unfolding heap_rep_def ftr_magic_def by simp
qed

text \<open>What the first steps of free leave of the heap: the block is marked as a hole.\<close>

lemma last_block_marked:
  assumes rep: "heap_rep s h (xs @ [(n, False), (k, True)])" and pg: "heap_paged s h (seg_size xs + n + k)"
    and a: "a = unat (start_address h) + seg_size xs" and m1: "m1 = set_hdr_is_hole (of_nat a) 1 (mem s)"
  shows "header_at (mem s) a n False" "footer_at (mem s) a n" "20 \<le> n" "20 \<le> k"
    and "unat (end_address h) = unat (start_address h) + (seg_size xs + n + k)"
    and "a + 12 \<le> 4294967296" "a + 12 < 4294967296"
    and "header_at m1 a n True" "header_at m1 (a + n) k True"
    and "oa_items (index h) m1 = oa_items (index h) (mem s)"
    and "of_nat (a + n) \<in> set (oa_items (index h) m1)"
    and "heap_paged (s\<lparr>mem := m1\<rparr>) h (seg_size xs + n + k)"
    and "mem_eq_on (- {a ..< a + 12}) (mem s) m1"
proof -
  let ?S = "unat (start_address h)"
  have ok: "index_ok h" and ch: "chain (mem s) ?S (xs @ (n, False) # [(k, True)]) (unat (end_address h))"
    and items: "mset (oa_items (index h) (mem s)) = mset (map of_nat (holes_at ?S (xs @ [(n, False), (k, True)])))"
    using rep by (simp_all add: heap_rep_def)
  note c = chain_split [OF ch, folded a]
  show "header_at (mem s) a n False" "footer_at (mem s) a n" "20 \<le> n" using c by simp_all
  have c2: "header_at (mem s) (a + n) k True" "20 \<le> k" using c(3) by auto
  show "20 \<le> k" by (rule c2(2))
  have Ew: "unat (end_address h) < 4294967296" by simp
  have e: "unat (end_address h) = a + n + k" using c(4) by simp
  then show "unat (end_address h) = ?S + (seg_size xs + n + k)" using a by simp
  show b: "a + 12 \<le> 4294967296" "a + 12 < 4294967296" using Ew c(5) c2(2) unfolding e by linarith+
  have b3: "a + n + 12 \<le> 4294967296" using Ew c(5) c2(2) unfolding e by linarith
  show eq1: "mem_eq_on (- {a ..< a + 12}) (mem s) m1" unfolding m1 using b by (intro set_hdr_eq_on) auto
  show "header_at m1 a n True" unfolding m1 using set_is_hole_at [OF c(6) b(1)] .
  show "header_at m1 (a + n) k True" using header_keep [OF eq1 c2(1) _ b3] c(5) by simp
  show i1: "oa_items (index h) m1 = oa_items (index h) (mem s)"
    using a by (intro items_eq_on [OF ok eq1]) (auto simp: index_region_def)
  have "of_nat (a + n) \<in># mset (oa_items (index h) (mem s))"
    unfolding items by (simp add: holes_at_append a add.assoc)
  then show "of_nat (a + n) \<in> set (oa_items (index h) m1)" by (simp add: i1)
  have "?S \<le> a" "unat (array (index h)) \<le> ?S" using ok a by (simp_all add: index_ok_def)
  then have "{0 ..< 0x1000000} - paging_region s \<subseteq> - {a ..< a + 12}" using heap_paged_below(2) [OF pg] by auto
  from heap_paged_keep [OF pg, of _ "s\<lparr>mem := m1\<rparr>", simplified, OF eq1 this]
  show "heap_paged (s\<lparr>mem := m1\<rparr>) h (seg_size xs + n + k)" by simp
qed

lemma free_last_block:
  assumes rep: "heap_rep s h (xs @ [(n, False), (k, True)])" and pg: "heap_paged s h (seg_size xs + n + k)"
    and a: "a = unat (start_address h) + seg_size xs"
    and off: "seg_size xs + r = 0x70000" "20 \<le> r" "0x70000 \<le> seg_size xs + n + k"
    and ul: "\<And>footer. unify_left (of_nat a) footer (set_hdr_is_hole (of_nat a) 1 (mem s)) =
      (of_nat a, True, set_hdr_is_hole (of_nat a) 1 (mem s))"
  shows "\<exists>s' h'. free (of_nat (a + 12)) s = Inr s' \<and> heap_rep s' h' (xs @ [(r, True)])
    \<and> start_address h' = start_address h \<and> end_address h' = start_address h + 0x70000
    \<and> array (index h') = array (index h) \<and> (\<exists>m'. s' = s\<lparr>mem := m', kheap := Some h'\<rparr>)
    \<and> mem_eq_on (- ({a ..< unat (end_address h)} \<union> index_region h \<union> paging_region s)) (mem s) (mem s')"
proof -
  let ?S = "unat (start_address h)"
  define m1 where "m1 = set_hdr_is_hole (of_nat a) 1 (mem s)"
  let ?s1 = "s\<lparr>mem := m1\<rparr>"
  note L = last_block_marked [OF rep pg a m1_def]
  have kh: "kheap s = Some h" and ok: "index_ok h"
    and items: "mset (oa_items (index h) (mem s)) = mset (map of_nat (holes_at ?S (xs @ [(n, False), (k, True)])))"
    using rep by (simp_all add: heap_rep_def)
  have Ew: "unat (end_address h) < 4294967296" and n8: "8 \<le> n" and below: "paging_region s \<subseteq> {0 ..< 0x1000000}"
    "0x1000000 \<le> unat (array (index h))" using L(3) heap_paged_below [OF pg] by simp_all
  from free_end_tail [of ?s1 h, OF _ ok L(12,5) a off refl L(3,4), of "of_nat (a + n)"] obtain m2 h2 f s2 where
    ur: "unify_right (of_nat a) (of_nat (a + n - 8)) ?s1 = Inr (f, s2)"
    and fc: "free_contract (of_nat a) f (of_nat (a + n)) s2 = Inr (s\<lparr>mem := m2, kheap := Some h2\<rparr>)"
    and h2: "h2 = h\<lparr>index := (index h)\<lparr>oa_size := oa_size (index h) - 1\<rparr>, end_address := start_address h + 0x70000\<rparr>"
      "index_ok h2"
    and at2: "header_at m2 a r True" "footer_at m2 a r"
    and i2: "mset (oa_items (index h2) m2) = mset (oa_items (index h) m1) - {# of_nat (a + n) #}"
    and eq2: "mem_eq_on (- ({a ..< unat (end_address h)} \<union> index_region h \<union> paging_region s)) m1 m2"
    using kh L(8,9,11) by (auto simp: paging_region_def)
  from free_steps [OF L(1,2) n8 L(7) ul [of "of_nat (a + n - 8)"], folded m1_def, OF ur fc] have
    fr: "free (of_nat (a + 12)) s = insert_index (of_nat a) (s\<lparr>mem := m2, kheap := Some h2\<rparr>)" by simp
  let ?s3 = "s\<lparr>mem := m2, kheap := Some h2\<rparr>"
  from insert_index_eq [of ?s3 h2 "of_nat a"] h2(2) obtain m3 h3 where
    ins: "insert_index (of_nat a) ?s3 = Inr (s\<lparr>mem := m3, kheap := Some h3\<rparr>)"
    and h3: "h3 = h2\<lparr>index := (index h2)\<lparr>oa_size := oa_size (index h2) + 1\<rparr>\<rparr>"
    and i3: "mset (oa_items (index h3) m3) = add_mset (of_nat a) (mset (oa_items (index h2) m2))"
    and eq3: "mem_eq_on (- index_region h2) m2 m3" by auto
  have ir: "index_region h2 = index_region h" by (simp add: h2(1) index_region_def)
  have at3: "header_at m3 a r True" using header_in_chain_eq_on [OF eq3 _ L(6)] at2(1) a by (simp add: h2(1))
  let ?s' = "s\<lparr>mem := m3, kheap := Some h3\<rparr>"
  have eq: "mem_eq_on (- ({a ..< unat (end_address h)} \<union> index_region h \<union> paging_region s)) (mem s) m3"
    by (rule mem_eq_on_trans [OF mem_eq_on_mono [OF L(13)] mem_eq_on_trans [OF eq2 mem_eq_on_mono [OF eq3]]])
      (use L(3-5) a ir in auto)
  have ok3: "index_ok h3" using ok by (simp add: h3 h2(1) index_ok_def)
  have end3: "unat (end_address h3) = a + r"
  proof -
    have "end_address h3 = of_nat (?S + 0x70000)" by (simp add: h3 h2(1))
    moreover have "?S + 0x70000 < 4294967296" using off L(5) Ew a by linarith
    ultimately show ?thesis using unat_of_nat32 [of "?S + 0x70000"] off a by simp
  qed
  have "heap_rep ?s' h3 (xs @ [(r, True)])"
    by (rule heap_rep_last [OF rep _ a off(2), of ?s' h3])
      (use at3 eq ok3 end3 below i3 i2 L(10) items a in \<open>auto simp: h3 h2(1) holes_at_append add.assoc\<close>)
  then show ?thesis using fr ins eq by (intro exI [of _ ?s'] exI [of _ h3]) (auto simp: h3 h2(1))
qed

lemma free_last_merge:
  assumes rep: "heap_rep s h (zs @ [(j, True), (n, False), (k, True)])" and pg: "heap_paged s h (seg_size zs + j + n + k)"
    and p: "p = unat (start_address h) + seg_size zs" and a: "a = p + j"
    and off: "seg_size zs + r = 0x70000" "20 \<le> r" "0x70000 \<le> seg_size zs + j + n + k"
  shows "\<exists>s' h'. free (of_nat (a + 12)) s = Inr s' \<and> heap_rep s' h' (zs @ [(r, True)])
    \<and> start_address h' = start_address h \<and> end_address h' = start_address h + 0x70000
    \<and> array (index h') = array (index h) \<and> (\<exists>m'. s' = s\<lparr>mem := m', kheap := Some h'\<rparr>)
    \<and> mem_eq_on (- ({p ..< unat (end_address h)} \<union> index_region h \<union> paging_region s)) (mem s) (mem s')"
proof -
  let ?S = "unat (start_address h)" and ?old = "[(j, True), (n, False), (k, True)]"
  have kh: "kheap s = Some h" and ok: "index_ok h"
    and ch: "chain (mem s) ?S (zs @ ?old @ []) (unat (end_address h))"
    and items: "mset (oa_items (index h) (mem s)) = mset (map of_nat (holes_at ?S (zs @ ?old)))"
    using rep by (simp_all add: heap_rep_def)
  note c0 = chain_split_segs [OF ch, folded p]
  have c: "header_at (mem s) p j True" "footer_at (mem s) p j" "20 \<le> j"
    "header_at (mem s) a n False" "footer_at (mem s) a n" "20 \<le> n"
    "header_at (mem s) (a + n) k True" "20 \<le> k"
    using c0(2) by (auto simp: a add.assoc)
  have Ew: "unat (end_address h) < 4294967296" by simp
  have e: "unat (end_address h) = a + n + k" using c0(4) a by simp
  have b: "a + n < 4294967296" "a + 12 < 4294967296" "a + n + 12 \<le> 4294967296" "8 \<le> n"
    using Ew c(6,8) unfolding e by linarith+
  from unify_left_merge [OF c(1-6) a b(1)] obtain m1 where
    ul: "unify_left (of_nat a) (of_nat (a + n - 8)) (set_hdr_is_hole (of_nat a) 1 (mem s)) = (of_nat p, False, m1)"
    and h1: "header_at m1 p (j + n) True" and eq1: "mem_eq_on (- {p ..< a + n}) (mem s) m1" by blast
  let ?s1 = "s\<lparr>mem := m1\<rparr>"
  have pn: "a + n = p + (j + n)" "a + n - 8 = p + (j + n) - 8" using a by simp_all
  have q1: "header_at m1 (a + n) k True" using header_keep [OF eq1 c(7) _ b(3)] by simp
  have i1: "oa_items (index h) m1 = oa_items (index h) (mem s)"
    using p by (intro items_eq_on [OF ok eq1]) (auto simp: index_region_def)
  have x: "of_nat (a + n) \<in># mset (oa_items (index h) (mem s))"
    unfolding items by (simp add: holes_at_append a p add.assoc)
  note below = heap_paged_below [OF pg]
  have "?S \<le> p" "unat (array (index h)) \<le> ?S" using ok p by (simp_all add: index_ok_def)
  then have "{0 ..< 0x1000000} - paging_region s \<subseteq> - {p ..< a + n}" using below(2) by auto
  from heap_paged_keep [OF pg, of _ ?s1, simplified, OF eq1 this]
  have pg1: "heap_paged ?s1 h (seg_size zs + (j + n) + k)" by (simp add: add.assoc)
  have E1: "unat (end_address h) = ?S + (seg_size zs + (j + n) + k)" using e a p by simp
  have off3: "0x70000 \<le> seg_size zs + (j + n) + k" "20 \<le> j + n" using off(3) c(3) by simp_all
  have q1': "header_at m1 (p + (j + n)) k True" and x': "of_nat (p + (j + n)) \<in> set (oa_items (index h) m1)"
    using q1 x i1 pn(1) by simp_all
  from free_end_tail [of ?s1 h, OF _ ok pg1 E1 p off(1,2) off3(1) refl off3(2) c(8), of "of_nat (a + n)"] obtain m2 h2 f s2 where
    ur: "unify_right (of_nat p) (of_nat (a + n - 8)) ?s1 = Inr (f, s2)"
    and fc: "free_contract (of_nat p) f (of_nat (a + n)) s2 = Inr (s\<lparr>mem := m2, kheap := Some h2\<rparr>)"
    and h2: "h2 = h\<lparr>index := (index h)\<lparr>oa_size := oa_size (index h) - 1\<rparr>, end_address := start_address h + 0x70000\<rparr>"
      "index_ok h2"
    and at2: "header_at m2 p r True"
    and i2: "mset (oa_items (index h2) m2) = mset (oa_items (index h) m1) - {# of_nat (a + n) #}"
    and eq2: "mem_eq_on (- ({p ..< unat (end_address h)} \<union> index_region h \<union> paging_region s)) m1 m2"
    using kh h1 q1' x' unfolding pn by (auto simp: paging_region_def)
  from free_steps [OF c(4,5) b(4,2) ul ur fc] have
    fr: "free (of_nat (a + 12)) s = Inr (s\<lparr>mem := m2, kheap := Some h2\<rparr>)" by simp
  let ?s' = "s\<lparr>mem := m2, kheap := Some h2\<rparr>"
  have eq: "mem_eq_on (- ({p ..< unat (end_address h)} \<union> index_region h \<union> paging_region s)) (mem s) m2"
    by (rule mem_eq_on_trans [OF mem_eq_on_mono [OF eq1] eq2]) (use e in auto)
  have end2: "unat (end_address h2) = p + r"
  proof -
    have "end_address h2 = of_nat (?S + 0x70000)" by (simp add: h2(1))
    moreover have "?S + 0x70000 < 4294967296" using off E1 Ew by linarith
    ultimately show ?thesis using unat_of_nat32 [of "?S + 0x70000"] off p by simp
  qed
  have "heap_rep ?s' h2 (zs @ [(r, True)])"
    by (rule heap_rep_last [OF rep _ p off(2), of ?s' h2])
      (use at2 eq h2(2) end2 below i2 i1 items a p in \<open>auto simp: h2(1) holes_at_append add.assoc\<close>)
  then show ?thesis using fr eq by (intro exI [of _ ?s'] exI [of _ h2]) (auto simp: h2(1))
qed

text \<open>
  The abstract operation: the last block and the holes around it become one hole that ends
  at HEAP_MIN_SIZE.
\<close>

definition release_last :: "seg list \<Rightarrow> seg list" where
  "release_last xs = kept_before xs @ [(0x70000 - seg_size (kept_before xs), True)]"

lemma free_last_release:
  assumes rep: "heap_rep s h (xs @ [(n, False), (k, True)])" and pg: "heap_paged s h (seg_size xs + n + k)"
    and off: "seg_size (kept_before xs) + 20 \<le> 0x70000" "0x70000 \<le> seg_size xs + n + k"
  shows "\<exists>s' h'. free (of_nat (unat (start_address h) + seg_size xs + 12)) s = Inr s' \<and> heap_rep s' h' (release_last xs)
    \<and> start_address h' = start_address h \<and> end_address h' = start_address h + 0x70000
    \<and> array (index h') = array (index h) \<and> (\<exists>m'. s' = s\<lparr>mem := m', kheap := Some h'\<rparr>)
    \<and> mem_eq_on (- ({unat (start_address h) + seg_size (kept_before xs) ..< unat (end_address h)}
        \<union> index_region h \<union> paging_region s)) (mem s) (mem s')"
proof -
  let ?S = "unat (start_address h)"
  have r: "seg_size (kept_before xs) + (0x70000 - seg_size (kept_before xs)) = 0x70000"
    "20 \<le> 0x70000 - seg_size (kept_before xs)" using off(1) by simp_all
  consider (first) "xs = []" | (block) zs j where "xs = zs @ [(j, False)]" | (hole) zs j where "xs = zs @ [(j, True)]"
    by (metis (full_types) prod.exhaust rev_exhaust)
  then show ?thesis
  proof cases
    case first
    then have "kept_before xs = xs" by (simp add: kept_before_def)
    then show ?thesis
      using free_last_block [OF rep pg refl, of "0x70000 - seg_size (kept_before xs)"]
        rep_left_none [of s h n "[(k, True)]" ?S] rep first r off(2)
      unfolding release_last_def by simp
  next
    case block
    then have "kept_before xs = xs" by (simp add: kept_before_def)
    moreover have "heap_rep s h (zs @ [(j, False), (n, False)] @ [(k, True)])" using rep block by simp
    ultimately show ?thesis
      using free_last_block [OF rep pg refl, of "0x70000 - seg_size (kept_before xs)"]
        rep_left_block [of s h zs j n "[(k, True)]" "?S + seg_size xs"] block r off(2)
      unfolding release_last_def by (simp add: add.assoc)
  next
    case hole
    then have "kept_before xs = zs" by (simp add: kept_before_def)
    moreover have "heap_rep s h (zs @ [(j, True), (n, False), (k, True)])" "heap_paged s h (seg_size zs + j + n + k)"
      using rep pg hole by simp_all
    ultimately show ?thesis
      using free_last_merge [of s h zs j n k _ _ "0x70000 - seg_size (kept_before xs)", OF _ _ refl refl] r off(2) hole
      unfolding release_last_def by (simp add: add.assoc)
  qed
qed

section \<open>contract above HEAP_MIN_SIZE\<close>

text \<open>
  contract masks the new size with PAGE_SIZE instead of the complement of PAGE_SIZE - 1: with
  bit 12 set the size becomes HEAP_MIN_SIZE, whatever it was.
\<close>

lemma write_footer_reads:
  assumes "unat q + 8 < 4294967296"
  shows "rd32 (write_footer q p m) q = HEAP_MAGIC" "rd32 (write_footer q p m) (q + 4) = p"
proof -
  have "unat (q + 4) = unat q + 4" using unat_plus_of_nat [of q 4] assms by simp
  then show "rd32 (write_footer q p m) q = HEAP_MAGIC" "rd32 (write_footer q p m) (q + 4) = p"
    using assms by (simp_all add: write_footer_def ftr_defs mem_simps)
qed

text \<open>What free leaves alone then: all but the new footer, the header of the block, the index and the page tables.\<close>

definition overrun_frame :: "kstate \<Rightarrow> heap_t \<Rightarrow> nat \<Rightarrow> nat set" where
  "overrun_frame s h off = (let S = unat (start_address h)
     in - ({S + 0x6FFF8 ..< S + 0x70000} \<union> {S + off ..< S + off + 12} \<union> index_region h \<union> paging_region s))"

lemma set_size_frame:
  assumes "p + 12 \<le> 4294967296" "mem_eq_on (- R) m m1"
  shows "mem_eq_on (- (R \<union> {p ..< p + 12})) m (set_hdr_size (of_nat p) sz m1)"
proof -
  have "mem_eq_on (- {p ..< p + 12}) m1 (set_hdr_size (of_nat p) sz m1)" using assms(1) by (intro set_hdr_eq_on) auto
  from mem_eq_on_trans [OF mem_eq_on_mono [OF assms(2)] mem_eq_on_mono [OF this]] show ?thesis by auto
qed

lemma free_last_overrun:
  assumes rep: "heap_rep s h (zs @ [(j, False), (n, False), (k, True)])" and pg: "heap_paged s h (seg_size zs + j + n + k)"
    and off: "off = seg_size zs + j" "0x70008 \<le> off" "(of_nat off :: uint32) AND 0x1000 \<noteq> 0"
  shows "\<exists>s' h'. free (of_nat (unat (start_address h) + off + 12)) s = Inr s' \<and> kheap s' = Some h'
    \<and> end_address h' = start_address h + 0x70000
    \<and> rd32 (mem s') (start_address h + 0x6FFF8) = HEAP_MAGIC
    \<and> rd32 (mem s') (start_address h + 0x6FFFC) = start_address h + of_nat off
    \<and> mem_eq_on (overrun_frame s h off) (mem s) (mem s')"
proof -
  let ?S = "unat (start_address h)" and ?W = "overrun_frame s h off"
  define a where "a = ?S + off"
  define m1 where "m1 = set_hdr_is_hole (of_nat a) 1 (mem s)"
  let ?s1 = "s\<lparr>mem := m1\<rparr>" and ?xs = "zs @ [(j, False)]"
  have rep1: "heap_rep s h (?xs @ [(n, False), (k, True)])" and pg1: "heap_paged s h (seg_size ?xs + n + k)"
    and a1: "a = ?S + seg_size ?xs"
    using rep pg off(1) by (simp_all add: a_def add.assoc)
  note L = last_block_marked [OF rep1 pg1 a1 m1_def]
  have kh: "kheap ?s1 = Some h" and ok: "index_ok h" using rep by (simp_all add: heap_rep_def)
  have len: "seg_size ?xs + n + k = off + (n + k)" using off(1) by simp
  have Ew: "unat (end_address h) < 4294967296" and n8: "8 \<le> n" using L(3) by simp_all
  have ul: "unify_left (of_nat a) (of_nat (a + n - 8)) m1 = (of_nat a, True, m1)"
    unfolding m1_def using rep_left_block [of s h zs j n "[(k, True)]" a] rep a1 by (simp add: add.assoc)
  have x: "off + n + k = off + (n + k)" by simp
  from free_end_unify [OF kh ok L(12,5) [unfolded len] a_def x L(3,4)] L(8,9,11) obtain m2 h2 f where
    ur: "unify_right (of_nat a) (of_nat (a + n - 8)) ?s1 = Inr (f, s\<lparr>mem := m2, kheap := Some h2\<rparr>)"
    and h2: "h2 = h\<lparr>index := (index h)\<lparr>oa_size := oa_size (index h) - 1\<rparr>\<rparr>" "index_ok h2"
    and f: "f + sizeof_footer_t = end_address h2" and hd2: "header_at m2 a (n + k) True"
    and pg2: "heap_paged (s\<lparr>mem := m2, kheap := Some h2\<rparr>) h2 (off + (n + k))" "heap_length h2 = of_nat (off + (n + k))"
    and eq2: "mem_eq_on (- ({a ..< a + 12} \<union> index_region h)) m1 m2"
    by (auto simp del: of_nat_add)
  let ?s2 = "s\<lparr>mem := m2, kheap := Some h2\<rparr>"
  have b: "off < off + (n + k)" "off + (n + k) < 4294967296" "a = unat (start_address h2) + off" using L(3,5) Ew len a_def h2(1) by auto
  have cs: "contract_size (of_nat off) = 0x70000" using contract_size_bit [OF off(3)] by (simp add: HEAP_MIN_SIZE_def)
  have sz: "0x70000 - of_nat off = of_nat (n + k) - (of_nat (off + (n + k)) - (0x70000 :: uint32))" by (simp add: algebra_simps)
  have uo: "unat (of_nat off :: uint32) = off" using b(1,2) by (intro unat_of_nat32) simp
  then have nz: "(0x70000 :: uint32) - of_nat off \<noteq> 0" using off(2) by auto
  have "kheap ?s2 = Some h2" "header_at (mem ?s2) a (n + k) True" using hd2 by simp_all
  from free_contract_writes [OF this(1) pg2 b(1,2,3) L(6) h2(2) f this(2) cs sz nz, of "of_nat (a + n)"] obtain m3' where
    fc: "free_contract (of_nat a) f (of_nat (a + n)) ?s2 =
      Inr (s\<lparr>mem := write_footer (of_nat a + (0x70000 - of_nat off) - sizeof_footer_t) (of_nat a)
               (set_hdr_size (of_nat a) (0x70000 - of_nat off) m3'),
             kheap := Some (h2\<lparr>end_address := start_address h2 + 0x70000\<rparr>)\<rparr>)"
    and eq3: "mem_eq_on (- paging_region s) m2 m3'" by (auto simp: paging_region_def)
  define m3 where "m3 = set_hdr_size (of_nat a) (0x70000 - of_nat off) m3'"
  note fc = fc [folded m3_def] and eq3 = set_size_frame [OF L(6) eq3, of "0x70000 - of_nat off", folded m3_def]
  have "of_nat a + (0x70000 - of_nat off) - sizeof_footer_t = start_address h + 0x6FFF8"
    by (simp add: a_def sizeof_defs algebra_simps)
  note fc = fc [unfolded this]
  let ?m4 = "write_footer (start_address h + 0x6FFF8) (of_nat a) m3"
  let ?s3 = "s\<lparr>mem := ?m4, kheap := Some (h2\<lparr>end_address := start_address h2 + 0x70000\<rparr>)\<rparr>"
  have fr: "free (of_nat (a + 12)) s = insert_index (of_nat a) ?s3"
    using free_steps [OF L(1,2) n8 L(7) ul [unfolded m1_def], folded m1_def, OF ur fc] by simp
  have "kheap ?s3 = Some (h2\<lparr>end_address := start_address h2 + 0x70000\<rparr>)"
    "index_ok (h2\<lparr>end_address := start_address h2 + 0x70000\<rparr>)" using h2(2) by (simp_all add: index_ok_def)
  from insert_index_eq [OF this, of "of_nat a"] obtain m5 h5 where
    ins: "insert_index (of_nat a) ?s3 = Inr (?s3\<lparr>mem := m5, kheap := Some h5\<rparr>)"
    and h5: "end_address h5 = start_address h + 0x70000"
    and eq5: "mem_eq_on (- index_region h) ?m4 m5" by (auto simp: h2(1) index_region_def)
  have "?S + 0x6FFF8 + 8 < 4294967296" using off(2) L(5) Ew len by linarith
  then have u: "unat (start_address h + 0x6FFF8) = ?S + 0x6FFF8" "unat (start_address h + 0x6FFFC) = ?S + 0x6FFFC"
    "start_address h + 0x6FFFC = start_address h + 0x6FFF8 + 4" "?S + 0x6FFF8 + 8 < 4294967296"
    using unat_plus_of_nat [of "start_address h" "0x6FFF8"] unat_plus_of_nat [of "start_address h" "0x6FFFC"] by simp_all
  have f4: "start_address h + 0x6FFF8 = of_nat (?S + 0x6FFF8)" by simp
  have W: "?W \<subseteq> - {?S + 0x6FFF8 ..< ?S + 0x70000}" "?W \<subseteq> - {a ..< a + 12}" "?W \<subseteq> - ({a ..< a + 12} \<union> index_region h)"
    "?W \<subseteq> - (paging_region s \<union> {a ..< a + 12})" "?W \<subseteq> - index_region h"
    by (auto simp: overrun_frame_def Let_def a_def)
  from W(1) have "mem_eq_on ?W m3 ?m4" unfolding f4 using u(4) by (intro write_footer_eq_on) auto
  moreover have "mem_eq_on ?W (mem s) m1" "mem_eq_on ?W m1 m2" "mem_eq_on ?W m2 m3" "mem_eq_on ?W ?m4 m5"
    using mem_eq_on_mono [OF L(13) W(2)] mem_eq_on_mono [OF eq2 W(3)] mem_eq_on_mono [OF eq3 W(4)]
      mem_eq_on_mono [OF eq5 W(5)] by blast+
  ultimately have eq: "mem_eq_on ?W (mem s) m5" by (blast intro: mem_eq_on_trans)
  have "rd32 ?m4 (start_address h + 0x6FFFC) = of_nat a" "rd32 ?m4 (start_address h + 0x6FFF8) = HEAP_MAGIC"
    using write_footer_reads [of "start_address h + 0x6FFF8"] u unfolding u(3) by simp_all
  moreover have "rd32 m5 b = rd32 ?m4 b" if "?S \<le> unat b" "unat b + 4 < 4294967296" for b
    using that by (intro mem_eq_on_rd32 [OF eq5]) (auto simp: index_region_def)
  ultimately have "rd32 m5 (start_address h + 0x6FFFC) = of_nat a" "rd32 m5 (start_address h + 0x6FFF8) = HEAP_MAGIC"
    using u(1,2,4) by simp_all
  moreover have "of_nat a = start_address h + of_nat off" by (simp add: a_def)
  ultimately show ?thesis
    using fr ins h5 eq by (intro exI [of _ "?s3\<lparr>mem := m5, kheap := Some h5\<rparr>"] exI [of _ h5]) (simp add: a_def)
qed

end
