(* ===== verification/HeapTest.thy ===== *)
theory HeapTest
  imports Contract Boot
begin

text \<open>
  test_heap of kernel.c run on the model: the one place where the source states what it
  expects of its heap (the block freed before the last request is used again), over paging,
  create_heap, alloc, free and contract together.
\<close>

section \<open>The heap stays on its pages\<close>

text \<open>The heap of the kernel, its index at KHEAP_START, \<open>len\<close> bytes long, every page with a page table.\<close>

definition kernel_heap :: "kstate \<Rightarrow> heap_t \<Rightarrow> seg list \<Rightarrow> bool" where
  "kernel_heap s h segs \<longleftrightarrow> heap_rep s h segs \<and> start_address h = 0xC0080000 \<and> array (index h) = 0xC0000000
     \<and> heap_paged s h (seg_size segs)"

text \<open>What the heap never touches: the registers, the handlers and the kernel directory.\<close>

definition same_paging :: "kstate \<Rightarrow> kstate \<Rightarrow> bool" where
  "same_paging s s' \<longleftrightarrow> kernel_directory s' = kernel_directory s \<and> frames s' = frames s \<and> cr0 s' = cr0 s \<and> cr3 s' = cr3 s
     \<and> interrupt_handlers s' = interrupt_handlers s
     \<and> mem_eq_on ({0 ..< 0x1000000} - paging_region s) (mem s) (mem s')"

lemma same_paging_trans: "same_paging s1 s2 \<Longrightarrow> same_paging s2 s3 \<Longrightarrow> same_paging s1 s3"
  by (auto simp: same_paging_def paging_region_def intro: mem_eq_on_trans)

lemma same_paging_heap:
  assumes "mem_eq_on S (mem s) (mem s')" "{0 ..< 0x1000000} - paging_region s \<subseteq> S" "s' = s\<lparr>mem := m, kheap := h\<rparr>"
  shows "same_paging s s'"
  using mem_eq_on_mono [OF assms(1,2)] assms(3) by (simp add: same_paging_def)

lemma kernel_heap_boot:
  assumes nk: "kheap s = None" and room: "unat (placement_address s) + 128 + 4096 \<le> 0x2FA000"
    and zero: "\<forall>a. unat a \<in> {0xC0000000 ..< 0xC0100000} \<longrightarrow> mem s a = 0"
  shows "\<exists>s' h. initialise_paging fuel s = Inr s' \<and> kernel_heap s' h [(0x80000, True)]"
proof -
  from initialise_paging_result [OF nk room refl refl _ zero, of "0x80000 - 20" fuel] obtain s' h where
    s': "initialise_paging fuel s = Inr s'" "kernel_directory s' = page_aligned (placement_address s + 128)"
    and maps: "\<forall>k < 256. maps s' (heap_page + k) (unat (page_aligned (placement_address s + 128)) div 4096 + 6 + k)"
    and fr: "unat (frames s') + 128 \<le> unat (page_aligned (placement_address s + 128))"
    and h: "heap_rep s' h [(0x80000, True)]" "start_address h = 0xC0080000" "array (index h) = 0xC0000000" by auto
  have "\<exists>t. table_at s' (k div 1024) t" if "0xC0080 \<le> k" "k < 0xC0100" for k
    using spec [OF maps, of "k - heap_page"] that by (auto simp: maps_def)
  then have "tabled s' 0xC0080 (0xC0080 + 127 + 1)" using fr s'(2) by (simp add: tabled_def)
  moreover have "(0xC0080000 :: uint32) = frame_address_of 0xC0080" "(0x80000 :: nat) = 4096 * Suc 127"
    by (simp_all add: frame_address_of_def)
  ultimately have "heap_paged s' h 0x80000" unfolding heap_paged_def h(2,3)
    by (intro conjI exI [of _ "0xC0080"] exI [of _ 127]) simp_all
  then show ?thesis using s' h by (auto simp: kernel_heap_def)
qed

lemma heap_paged_less:
  assumes "heap_paged s h len" "n = 4096 * Suc q" "n \<le> len"
  shows "heap_paged s h n"
proof -
  from assms(1) obtain K q' where K: "start_address h = frame_address_of K" "len = 4096 * Suc q'"
    "tabled s K (K + q' + 1)" "0x1000000 \<le> unat (array (index h))" by (auto simp: heap_paged_def)
  then have "tabled s K (K + q + 1)" using assms(2,3) by (intro tabled_mono [OF K(3)]) simp_all
  then show ?thesis using K(1,4) assms(2) by (auto simp: heap_paged_def)
qed

lemma kernel_heap_alloc:
  assumes h: "kernel_heap s h (blocks @ [(n, True)])" and b: "\<forall>b \<in> set blocks. \<not> snd b"
    and sz: "unat sz + 20 \<le> n" "unat sz + 20 < 4294967296"
  shows "\<exists>s' h'. kmalloc (Suc fuel) sz s = Inr (of_nat (0xC0080000 + seg_size blocks + 12), s')
    \<and> kernel_heap s' h' (blocks @ carve n (unat sz + 20)) \<and> same_paging s s'
    \<and> mem_eq_on {0xC0080000 ..< 0xC0080000 + seg_size blocks} (mem s) (mem s')"
proof -
  have rep: "heap_rep s h (blocks @ [(n, True)])" and st: "start_address h = 0xC0080000" "array (index h) = 0xC0000000"
    and pg: "heap_paged s h (seg_size blocks + n)" using h by (simp_all add: kernel_heap_def)
  have "(n, True) \<in> set (blocks @ [(n, True)])" by simp
  from alloc_fits [OF rep sz(2) this sz(1), of fuel] obtain xs n1 ys s' h' ix m' where
    seg: "blocks @ [(n, True)] = xs @ (n1, True) # ys"
    and al: "alloc (Suc fuel) sz 0 s = Inr (of_nat (unat (start_address h) + seg_size xs + 12), s')"
    and rep': "heap_rep s' h' (xs @ carve n1 (unat sz + 20) @ ys)" and h': "h' = h\<lparr>index := ix\<rparr>" "array ix = array (index h)"
    and s': "s' = s\<lparr>mem := m', kheap := Some h'\<rparr>"
    and eq: "mem_eq_on (- ({unat (start_address h) + seg_size xs ..< unat (start_address h) + seg_size xs + n1}
         \<union> index_region h)) (mem s) m'" by blast
  have xs: "xs = blocks" "n1 = n" "ys = []" using blocks_one_hole [OF seg b] by simp_all
  have reg: "{0 ..< 0x1000000} - paging_region s \<subseteq> - ({unat (start_address h) + seg_size xs ..< unat (start_address h) + seg_size xs + n1}
         \<union> index_region h)" using st by (auto simp: index_region_def)
  from heap_paged_keep [OF pg, of _ s', OF _ reg] eq have "heap_paged s' h' (seg_size blocks + n)"
    by (simp add: s' h')
  moreover have "kheap s = Some h" using rep by (simp add: heap_rep_def)
  moreover have "same_paging s s'" using eq by (intro same_paging_heap [OF _ reg s']) (simp add: s')
  moreover have "mem_eq_on {0xC0080000 ..< 0xC0080000 + seg_size blocks} (mem s) (mem s')"
    unfolding s' using st xs by (auto intro!: mem_eq_on_mono [OF eq] simp: index_region_def)
  ultimately show ?thesis
    using al rep' sz(1) st unfolding xs h'
    by (intro exI [of _ s'] exI [of _ h'])
      (simp add: kernel_heap_def carve_size h' kmalloc_def drop_phys_def kmalloc_int_def kmalloc_int_with_def)
qed

lemma kernel_heap_free_last:
  assumes h: "kernel_heap s h (xs @ [(n, False), (k, True)])"
    and off: "seg_size (kept_before xs) + 20 \<le> 0x70000" "0x70000 \<le> seg_size xs + n + k"
  shows "\<exists>s' h'. kfree (of_nat (0xC0080000 + seg_size xs + 12)) s = Inr s' \<and> kernel_heap s' h' (release_last xs)
    \<and> same_paging s s' \<and> mem_eq_on {0xC0080000 ..< 0xC0080000 + seg_size (kept_before xs)} (mem s) (mem s')"
proof -
  have rep: "heap_rep s h (xs @ [(n, False), (k, True)])" and st: "start_address h = 0xC0080000" "array (index h) = 0xC0000000"
    and pg: "heap_paged s h (seg_size xs + n + k)" using h by (simp_all add: kernel_heap_def add.assoc)
  from free_last_release [OF rep pg off] obtain s' h' m' where
    fr: "free (of_nat (unat (start_address h) + seg_size xs + 12)) s = Inr s'" "heap_rep s' h' (release_last xs)"
    and h': "start_address h' = start_address h" "array (index h') = array (index h)"
    and s': "s' = s\<lparr>mem := m', kheap := Some h'\<rparr>"
    and eq: "mem_eq_on (- ({unat (start_address h) + seg_size (kept_before xs) ..< unat (end_address h)}
        \<union> index_region h \<union> paging_region s)) (mem s) (mem s')" by blast
  have reg: "{0 ..< 0x1000000} - paging_region s \<subseteq> - ({unat (start_address h) + seg_size (kept_before xs) ..< unat (end_address h)}
        \<union> index_region h \<union> paging_region s)" using st by (auto simp: index_region_def)
  from heap_paged_keep [OF pg eq reg, of h'] have "heap_paged s' h' (seg_size xs + n + k)" by (simp add: s' h')
  from heap_paged_less [OF this, of "0x70000" 111] off(2) have "heap_paged s' h' 0x70000" by simp
  moreover have "seg_size (release_last xs) = 0x70000" using off(1) by (simp add: release_last_def)
  moreover have "same_paging s s'" by (rule same_paging_heap [OF eq reg s'])
  moreover have "paging_region s \<subseteq> {0 ..< 0x1000000}" using heap_paged_below(1) [OF pg] .
  then have "mem_eq_on {0xC0080000 ..< 0xC0080000 + seg_size (kept_before xs)} (mem s) (mem s')"
    using st by (intro mem_eq_on_mono [OF eq]) (auto simp: index_region_def)
  ultimately show ?thesis
    using fr st h' by (intro exI [of _ s'] exI [of _ h']) (simp add: kernel_heap_def kfree_def)
qed

section \<open>free of the last block\<close>

lemma demo_kernel_heap:
  "\<exists>s h. kernel_heap s h ([] @ [(0x80000, True)])"
  using kernel_heap_boot [of "boot_kstate (\<lambda>_. 0) 0x106000" 0] by (auto simp: boot_kstate_def)

text \<open>
  C7: free of the last block, with the hole behind it that ends the heap, refines release_last
  when it leaves at most HEAP_MIN_SIZE bytes in use: the block, the hole behind it and a hole in
  front of it become one hole with a correct header and footer, the heap ends 0x70000 bytes
  after its start, the index is the set of the holes, and besides the joined hole and the index
  only the frame bitmap and the page tables are written.
\<close>

theorem free_last_refines_release_last:
  assumes "heap_rep s h (xs @ [(n, False), (k, True)])" "heap_paged s h (seg_size xs + n + k)"
    and "seg_size (kept_before xs) + 20 \<le> 0x70000" "0x70000 \<le> seg_size xs + n + k"
  shows "\<exists>s' h'. free (of_nat (unat (start_address h) + seg_size xs + 12)) s = Inr s' \<and> heap_rep s' h' (release_last xs)
    \<and> start_address h' = start_address h \<and> end_address h' = start_address h + 0x70000
    \<and> mem_eq_on (- ({unat (start_address h) + seg_size (kept_before xs) ..< unat (end_address h)}
        \<union> index_region h \<union> paging_region s)) (mem s) (mem s')"
  using free_last_release [OF assms] by blast

theorem free_last_refines_release_last_witness:
  "\<exists>s h s' h'. heap_rep s h [(28, False), (0x80000 - 28, True)] \<and> free 0xC008000C s = Inr s'
    \<and> heap_rep s' h' [(0x70000, True)]"
proof -
  from demo_kernel_heap obtain s0 h0 where "kernel_heap s0 h0 ([] @ [(0x80000, True)])" by blast
  from kernel_heap_alloc [OF this, of 8 0] obtain s h where
    "kernel_heap s h ([] @ [(28, False), (0x80000 - 28, True)])" by (auto simp: carve_def)
  then have "heap_rep s h ([] @ [(28, False), (0x80000 - 28, True)])" "heap_paged s h (seg_size [] + 28 + (0x80000 - 28))"
    "start_address h = 0xC0080000" by (simp_all add: kernel_heap_def)
  from free_last_refines_release_last [OF this(1,2)] this show ?thesis
    by (auto simp: kept_before_def release_last_def)
qed



section \<open>test_heap\<close>

lemma test_heap_run:
  assumes nk: "kheap (ks (mach k)) = None" and room: "unat (placement_address (ks (mach k))) + 8 + 128 + 4096 \<le> 0x2FA000"
    and zero: "\<forall>a. unat a \<in> {0xC0000000 ..< 0xC0100000} \<longrightarrow> kmem k a = 0"
  shows "\<exists>k' h s2. test_heap (Suc fuel) k = Inr k'
    \<and> heap_rep (ks (mach k')) h [(32, False), (0x70000 - 32, True)] \<and> heap_length h = 0x70000
    \<and> initialise_paging (Suc fuel) ((ks (mach k))\<lparr>placement_address := placement_address (ks (mach k)) + 8\<rparr>) = Inr s2
    \<and> same_paging s2 (ks (mach k'))
    \<and> mon (mach k') = (let say = (\<lambda>str s. monitor_write (cstr str) s); hex = monitor_write_hex in
        say [newline] (hex 0xC008000C (say '', d: '' (hex 0xC0080028 (say ([newline] @ ''c: '')
          (hex 0xC008000C (say '', b: '' (hex (placement_address (ks (mach k))) (say ''a: '' (mon (mach k)))))))))))"
proof -
  let ?s = "ks (mach k)" and ?a = "placement_address (ks (mach k))"
  let ?s1 = "?s\<lparr>placement_address := ?a + 8\<rparr>"
  have a: "kmalloc (Suc fuel) 8 ?s = Inr (?a, ?s1)" using kmalloc_before_heap [OF nk] by simp
  have "unat (?a + 8) = unat ?a + 8" using unat_plus_of_nat [of ?a 8] room by simp
  then have "kheap ?s1 = None" "unat (placement_address ?s1) + 128 + 4096 \<le> 0x2FA000"
    "\<forall>a. unat a \<in> {0xC0000000 ..< 0xC0100000} \<longrightarrow> mem ?s1 a = 0"
    using nk room zero by (simp_all add: kmem_def)
  from kernel_heap_boot [OF this, of "Suc fuel"] obtain s2 h2 where
    s2: "initialise_paging (Suc fuel) ?s1 = Inr s2" "kernel_heap s2 h2 ([] @ [(0x80000, True)])" by auto
  from kernel_heap_alloc [OF s2(2), of 8 fuel] obtain s3 h3 where
    s3: "kmalloc (Suc fuel) 8 s2 = Inr (0xC008000C, s3)" "same_paging s2 s3" "kernel_heap s3 h3 ([(28, False)] @ [(0x80000 - 28, True)])"
    by (auto simp: carve_def)
  from kernel_heap_alloc [OF s3(3), of 8 fuel] obtain s4 h4 where
    s4: "kmalloc (Suc fuel) 8 s3 = Inr (0xC0080028, s4)" "same_paging s3 s4" "kernel_heap s4 h4 ([(28, False)] @ [(28, False), (0x80000 - 56, True)])"
    by (auto simp: carve_def)
  from kernel_heap_free_last [OF s4(3)] obtain s5 h5 where
    s5: "kfree 0xC0080028 s4 = Inr s5" "same_paging s4 s5" "kernel_heap s5 h5 ([] @ [(28, False), (0x70000 - 28, True)])"
    by (auto simp: release_last_def kept_before_def)
  from kernel_heap_free_last [OF s5(3)] obtain s6 h6 where
    s6: "kfree 0xC008000C s5 = Inr s6" "same_paging s5 s6" "kernel_heap s6 h6 ([] @ [(0x70000, True)])"
    by (auto simp: release_last_def kept_before_def)
  from kernel_heap_alloc [OF s6(3), of 12 fuel] obtain s7 h7 where
    s7: "kmalloc (Suc fuel) 12 s6 = Inr (0xC008000C, s7)" "same_paging s6 s7" "kernel_heap s7 h7 [(32, False), (0x70000 - 32, True)]"
    by (auto simp: carve_def)
  have rep: "heap_rep s7 h7 [(32, False), (0x70000 - 32, True)]" using s7(3) by (simp add: kernel_heap_def)
  then have "unat (end_address h7) = unat (start_address h7) + 0x70000" by (auto simp: heap_rep_def dest: chain_end)
  then have "of_nat (unat (end_address h7)) = (of_nat (unat (start_address h7) + 0x70000) :: uint32)" by simp
  then have "heap_length h7 = 0x70000" by (simp add: heap_length_def)
  moreover have "\<exists>k'. test_heap (Suc fuel) k = Inr k' \<and> ks (mach k') = s7
    \<and> mon (mach k') = (let say = (\<lambda>str s. monitor_write (cstr str) s); hex = monitor_write_hex in
        say [newline] (hex 0xC008000C (say '', d: '' (hex 0xC0080028 (say ([newline] @ ''c: '')
          (hex 0xC008000C (say '', b: '' (hex ?a (say ''a: '' (mon (mach k)))))))))))"
    unfolding test_heap_def a res_bind_simps split_conv s2(1) s3(1) s4(1) s5(1) s6(1) s7(1) Let_def
    by (simp add: screen_do_def set_kstate_def)
  moreover have "same_paging s2 s7" using s3(2) s4(2) s5(2) s6(2) s7(2) same_paging_trans by blast
  ultimately show ?thesis using rep s2(1) by blast
qed

text \<open>
  C8: test_heap ends without an error and its expectation holds: the last request of 12 bytes
  (d) gets the address of the first block on the heap (b), although the two blocks were freed
  in the opposite order and the heap was contracted in between; a comes from the placement
  allocator. The heap is left well formed, 0x70000 bytes long, with d as its only block.
\<close>

theorem test_heap_reuses_block:
  assumes nk: "kheap (ks (mach k)) = None" and room: "unat (placement_address (ks (mach k))) + 8 + 128 + 4096 \<le> 0x2FA000"
    and zero: "\<forall>a. unat a \<in> {0xC0000000 ..< 0xC0100000} \<longrightarrow> kmem k a = 0"
  shows "\<exists>k' h. test_heap (Suc fuel) k = Inr k'
    \<and> heap_rep (ks (mach k')) h [(32, False), (0x70000 - 32, True)] \<and> heap_length h = 0x70000
    \<and> mon (mach k') = (let say = (\<lambda>str s. monitor_write (cstr str) s); hex = monitor_write_hex in
        say [newline] (hex 0xC008000C (say '', d: '' (hex 0xC0080028 (say ([newline] @ ''c: '')
          (hex 0xC008000C (say '', b: '' (hex (placement_address (ks (mach k))) (say ''a: '' (mon (mach k)))))))))))"
  using test_heap_run [OF assms, of fuel] by blast

theorem test_heap_reuses_block_witness:
  "\<exists>k k'. placement_address (ks (mach k)) = 0x106000 \<and> test_heap 1 k = Inr k'"
proof -
  let ?k = "\<lparr>mach = initial_machine (boot_kstate (\<lambda>_. 0) 0x106000), dts = initial_dt_state, initrd = ir, fs_root = 0,
    initial_esp = 0\<rparr>"
  have "\<exists>k'. test_heap (Suc 0) ?k = Inr k'"
    using test_heap_reuses_block [of ?k 0] by (auto simp: initial_machine_def boot_kstate_def kmem_def)
  moreover have "placement_address (ks (mach ?k)) = 0x106000" by (simp add: initial_machine_def boot_kstate_def)
  ultimately show ?thesis by (metis One_nat_def)
qed

end
