(* ===== verification/HeapStack.thy ===== *)
theory HeapStack
  imports HeapTest
begin

text \<open>
  The kernel heap under a client that frees its blocks in the reverse order of their requests
  (as test_heap does): it implements a stack of byte arrays. The concrete side runs kmalloc and
  kfree of the model and writes through the pointers they returned; the abstract side is a list
  of the contents.
\<close>

section \<open>The client\<close>

datatype heap_op = Push size_t | Pop | Poke nat nat uint8

text \<open>The client keeps its pointers, the last one at the end; Poke writes byte \<open>j\<close> of block \<open>i\<close>.\<close>

fun heap_exec :: "nat \<Rightarrow> heap_op \<Rightarrow> uint32 list \<times> kstate \<Rightarrow> kerror + uint32 list \<times> kstate" where
  "heap_exec fuel (Push sz) (ps, s) = res_bind (kmalloc fuel sz s) (\<lambda>(p, s'). Inr (ps @ [p], s'))"
| "heap_exec fuel Pop (ps, s) = res_bind (kfree (last ps) s) (\<lambda>s'. Inr (butlast ps, s'))"
| "heap_exec fuel (Poke i j v) (ps, s) = Inr (ps, s\<lparr>mem := (mem s)(ps ! i + of_nat j := v)\<rparr>)"

fun heap_execs :: "nat \<Rightarrow> heap_op list \<Rightarrow> uint32 list \<times> kstate \<Rightarrow> kerror + uint32 list \<times> kstate" where
  "heap_execs fuel [] st = Inr st"
| "heap_execs fuel (op # ops) st = res_bind (heap_exec fuel op st) (heap_execs fuel ops)"

section \<open>The abstract stack\<close>

text \<open>A new block has some contents of the size that was asked for.\<close>

inductive stack_step :: "uint8 list list \<Rightarrow> heap_op \<Rightarrow> uint8 list list \<Rightarrow> bool" where
  push: "length b = unat sz \<Longrightarrow> stack_step bs (Push sz) (bs @ [b])"
| pop: "stack_step (bs @ [b]) Pop bs"
| poke: "i < length bs \<Longrightarrow> j < length (bs ! i) \<Longrightarrow> stack_step bs (Poke i j v) (bs[i := (bs ! i)[j := v]])"

inductive stack_run :: "uint8 list list \<Rightarrow> heap_op list \<Rightarrow> uint8 list list \<Rightarrow> bool" where
  stack_refl [intro, simp]: "stack_run bs [] bs"
| stack_more: "stack_step bs op bs' \<Longrightarrow> stack_run bs' ops bs'' \<Longrightarrow> stack_run bs (op # ops) bs''"

inductive_simps stack_step_simps: "stack_step bs (Push sz) bs'" "stack_step bs Pop bs'" "stack_step bs (Poke i j v) bs'"

inductive_simps stack_run_simps: "stack_run bs [] bs'" "stack_run bs (op # ops) bs'"

text \<open>
  What the client may ask for, in terms of the sizes of its blocks: there is a block to free and
  a byte to write, and with 20 bytes for each block the requests stay 20 bytes below
  HEAP_MIN_SIZE, the size to which the heap is contracted.
\<close>

fun sizes_after :: "nat list \<Rightarrow> heap_op \<Rightarrow> nat list" where
  "sizes_after ns (Push sz) = ns @ [unat sz]"
| "sizes_after ns Pop = butlast ns"
| "sizes_after ns (Poke i j v) = ns"

fun op_ok :: "nat list \<Rightarrow> heap_op \<Rightarrow> bool" where
  "op_ok ns (Push sz) \<longleftrightarrow> sum_list ns + 20 * length ns + unat sz + 40 \<le> 0x70000"
| "op_ok ns Pop \<longleftrightarrow> ns \<noteq> []"
| "op_ok ns (Poke i j v) \<longleftrightarrow> i < length ns \<and> j < ns ! i"

fun ops_ok :: "nat list \<Rightarrow> heap_op list \<Rightarrow> bool" where
  "ops_ok ns [] \<longleftrightarrow> True"
| "ops_ok ns (op # ops) \<longleftrightarrow> op_ok ns op \<and> ops_ok (sizes_after ns op) ops"

section \<open>The layout\<close>

definition layout_of :: "uint8 list list \<Rightarrow> seg list" where
  "layout_of bs = map (\<lambda>b. (length b + 20, False)) bs"

definition block_at :: "uint8 list list \<Rightarrow> nat \<Rightarrow> nat" where
  "block_at bs i = 0xC0080000 + seg_size (layout_of (take i bs)) + 12"

definition stack_heap :: "uint32 list \<Rightarrow> kstate \<Rightarrow> uint8 list list \<Rightarrow> bool" where
  "stack_heap ps s bs \<longleftrightarrow> (\<exists>h rest. kernel_heap s h (layout_of bs @ [(rest, True)])
       \<and> 0x70000 \<le> seg_size (layout_of bs) + rest)
     \<and> seg_size (layout_of bs) + 20 \<le> 0x70000
     \<and> ps = map (\<lambda>i. of_nat (block_at bs i)) [0..<length bs]
     \<and> (\<forall>i < length bs. bytes (mem s) (of_nat (block_at bs i)) (length (bs ! i)) = bs ! i)"

lemma layout_simps [simp]:
  "layout_of [] = []" "layout_of (bs @ bs2) = layout_of bs @ layout_of bs2" "layout_of (b # bs) = (length b + 20, False) # layout_of bs"
  by (simp_all add: layout_of_def)

lemma layout_blocks: "b \<in> set (layout_of bs) \<Longrightarrow> \<not> snd b"
  by (auto simp: layout_of_def)

lemma layout_size: "seg_size (layout_of bs) = sum_list (map length bs) + 20 * length bs"
  by (induction bs) simp_all

lemma layout_kept: "kept_before (layout_of bs) = layout_of bs"
  by (cases bs rule: rev_cases) (simp_all add: kept_before_def)

lemma block_at_app [simp]: "i \<le> length bs \<Longrightarrow> block_at (bs @ bs2) i = block_at bs i"
  by (simp add: block_at_def)

lemma block_at_length: "block_at bs (length bs) = 0xC0080000 + seg_size (layout_of bs) + 12"
  by (simp add: block_at_def)

lemma block_at_upd: "length b = length (bs ! i) \<Longrightarrow> block_at (bs[i := b]) k = block_at bs k"
proof -
  assume b: "length b = length (bs ! i)"
  have "map length (bs[i := b]) = map length bs" using b by (simp add: map_update) (metis list_update_id map_update)
  then have "map length (take k (bs[i := b])) = map length (take k bs)" by (metis take_map)
  moreover from this have "length (take k (bs[i := b])) = length (take k bs)" by (metis length_map)
  ultimately show ?thesis by (simp add: block_at_def layout_size)
qed

text \<open>The blocks lie one behind the other, 20 bytes apart.\<close>

lemma block_at_next: "i < length bs \<Longrightarrow> block_at bs (Suc i) = block_at bs i + length (bs ! i) + 20"
  by (simp add: block_at_def take_Suc_conv_app_nth)

lemma block_at_less: "i < k \<Longrightarrow> k \<le> length bs \<Longrightarrow> block_at bs i + length (bs ! i) + 20 \<le> block_at bs k"
proof (induction k)
  case (Suc k)
  then show ?case using block_at_next [of k bs] block_at_next [of i bs] by (cases "i = k") auto
qed simp

lemma block_at_bounds:
  assumes "i < length bs"
  shows "0xC0080000 + 12 \<le> block_at bs i" "block_at bs i + length (bs ! i) + 8 \<le> 0xC0080000 + seg_size (layout_of bs)"
  using block_at_less [of i "length bs" bs] assms by (simp_all add: block_at_length) (simp add: block_at_def)

lemma block_at_inj:
  assumes "i < length bs" "i' < length bs" "j < length (bs ! i)" "j' < length (bs ! i')" "block_at bs i + j = block_at bs i' + j'"
  shows "i = i'" "j = j'"
proof -
  consider "i < i'" | "i' < i" | "i = i'" by linarith
  then show "i = i'"
    using block_at_less [of i i' bs] block_at_less [of i' i bs] assms by cases auto
  then show "j = j'" using assms(5) by simp
qed

lemma block_at_data: "i < length bs \<Longrightarrow> j < length (bs ! i) \<Longrightarrow> block_at bs i + j \<in> block_data 0xC0080000 (layout_of bs)"
proof -
  assume i: "i < length bs" "j < length (bs ! i)"
  have "bs = take i bs @ bs ! i # drop (Suc i) bs" using i(1) by (rule id_take_nth_drop)
  then have "layout_of bs = layout_of (take i bs) @ (length (bs ! i) + 20, False) # layout_of (drop (Suc i) bs)"
    by (metis layout_simps(2,3))
  then show ?thesis using i(2) by (simp add: block_data_append block_at_def)
qed

section \<open>One operation\<close>

lemma block_address:
  assumes "seg_size (layout_of bs) + 20 \<le> 0x70000" "i < length bs" "j \<le> length (bs ! i)"
  shows "unat (of_nat (block_at bs i) + of_nat j :: uint32) = block_at bs i + j"
proof -
  have "block_at bs i + j < 4294967296" using block_at_bounds(2) [OF assms(2)] assms(1,3) by simp
  then show ?thesis by (metis of_nat_add unat_of_nat32)
qed

text \<open>What is kept in the memory of the blocks is kept in the blocks.\<close>

lemma contents_keep:
  assumes "mem_eq_on {0xC0080000 ..< 0xC0080000 + seg_size (layout_of bs)} m m'" "seg_size (layout_of bs) + 20 \<le> 0x70000"
    and "i < length bs"
  shows "bytes m' (of_nat (block_at bs i)) (length (bs ! i)) = bytes m (of_nat (block_at bs i)) (length (bs ! i))"
proof -
  have "unat (of_nat (block_at bs i) :: uint32) = block_at bs i" using block_address [OF assms(2,3), of 0] by simp
  moreover have "0xC0080000 \<le> block_at bs i" "block_at bs i + length (bs ! i) \<le> 0xC0080000 + seg_size (layout_of bs)"
    using block_at_bounds [OF assms(3)] by simp_all
  ultimately show ?thesis using assms(2) by (intro bytes_eq_on [OF assms(1)]) auto
qed

lemma stack_push:
  assumes st: "stack_heap ps s bs" and ok: "seg_size (layout_of bs) + unat sz + 40 \<le> 0x70000"
  shows "\<exists>p s' b. kmalloc (Suc fuel) sz s = Inr (p, s') \<and> length b = unat sz \<and> stack_heap (ps @ [p]) s' (bs @ [b])"
proof -
  from st obtain h rest where kh: "kernel_heap s h (layout_of bs @ [(rest, True)])" "0x70000 \<le> seg_size (layout_of bs) + rest"
    and u: "seg_size (layout_of bs) + 20 \<le> 0x70000" and ps: "ps = map (\<lambda>i. of_nat (block_at bs i)) [0..<length bs]"
    and con: "\<forall>i < length bs. bytes (mem s) (of_nat (block_at bs i)) (length (bs ! i)) = bs ! i"
    unfolding stack_heap_def by blast
  have sz: "unat sz + 20 \<le> rest" "unat sz + 20 < 4294967296" "\<not> rest - (unat sz + 20) < 20" using ok kh(2) by simp_all
  let ?p = "of_nat (block_at bs (length bs)) :: uint32"
  have blocks: "\<forall>b \<in> set (layout_of bs). \<not> snd b" using layout_blocks by blast
  from kernel_heap_alloc [OF kh(1) blocks sz(1,2), of fuel]
  obtain s' h' where al: "kmalloc (Suc fuel) sz s = Inr (?p, s')"
    "kernel_heap s' h' (layout_of bs @ [(unat sz + 20, False), (rest - (unat sz + 20), True)])"
    "mem_eq_on {0xC0080000 ..< 0xC0080000 + seg_size (layout_of bs)} (mem s) (mem s')"
    using sz(3) by (auto simp: carve_def block_at_length)
  define b where "b = bytes (mem s') ?p (unat sz)"
  have b: "length b = unat sz" by (simp add: b_def)
  have "bytes (mem s') (of_nat (block_at bs i)) (length (bs ! i)) = bs ! i" if "i < length bs" for i
    using contents_keep [OF al(3) u that] con that by simp
  then have "bytes (mem s') (of_nat (block_at (bs @ [b]) i)) (length ((bs @ [b]) ! i)) = (bs @ [b]) ! i" if "i < Suc (length bs)" for i
    using that b by (cases "i = length bs") (auto simp: nth_append b_def)
  moreover have "map (\<lambda>i. of_nat (block_at (bs @ [b]) i)) [0..<length bs] = ps"
    unfolding ps by (intro map_cong) simp_all
  ultimately have "stack_heap (ps @ [?p]) s' (bs @ [b])"
    unfolding stack_heap_def using al(2) b kh(2) ok sz(1)
    by (intro conjI exI [of _ h'] exI [of _ "rest - (unat sz + 20)"]) simp_all
  then show ?thesis using al(1) b by blast
qed

lemma stack_pop:
  assumes st: "stack_heap ps s (bs @ [b])"
  shows "\<exists>s'. kfree (last ps) s = Inr s' \<and> stack_heap (butlast ps) s' bs"
proof -
  from st obtain h rest where kh: "kernel_heap s h (layout_of (bs @ [b]) @ [(rest, True)])" "0x70000 \<le> seg_size (layout_of (bs @ [b])) + rest"
    and u: "seg_size (layout_of (bs @ [b])) + 20 \<le> 0x70000"
    and ps: "ps = map (\<lambda>i. of_nat (block_at (bs @ [b]) i)) [0..<length (bs @ [b])]"
    and con: "\<forall>i < length (bs @ [b]). bytes (mem s) (of_nat (block_at (bs @ [b]) i)) (length ((bs @ [b]) ! i)) = (bs @ [b]) ! i"
    unfolding stack_heap_def by blast
  have kh': "kernel_heap s h (layout_of bs @ [(length b + 20, False), (rest, True)])"
    "0x70000 \<le> seg_size (layout_of bs) + (length b + 20) + rest" "seg_size (layout_of bs) + 20 \<le> 0x70000"
    using kh u by (simp_all add: add.assoc)
  have last: "last ps = of_nat (block_at bs (length bs))" "butlast ps = map (\<lambda>i. of_nat (block_at bs i)) [0..<length bs]"
    unfolding ps by (simp_all add: butlast_append cong: map_cong)
  from kernel_heap_free_last [OF kh'(1) _ kh'(2)] kh'(3) obtain s' h' where
    fr: "kfree (last ps) s = Inr s'" "kernel_heap s' h' (layout_of bs @ [(0x70000 - seg_size (layout_of bs), True)])"
    "mem_eq_on {0xC0080000 ..< 0xC0080000 + seg_size (layout_of bs)} (mem s) (mem s')"
    unfolding last(1) block_at_length by (auto simp: layout_kept release_last_def)
  have "bytes (mem s') (of_nat (block_at bs i)) (length (bs ! i)) = bs ! i" if "i < length bs" for i
    using contents_keep [OF fr(3) kh'(3) that] spec [OF con, of i] that by (simp add: nth_append)
  then have "stack_heap (butlast ps) s' bs"
    unfolding stack_heap_def last(2) using fr(2) kh'(3) by (intro conjI exI [of _ h'] exI [of _ "0x70000 - seg_size (layout_of bs)"]) simp_all
  then show ?thesis using fr(1) by blast
qed

lemma stack_poke:
  assumes st: "stack_heap ps s bs" and ij: "i < length bs" "j < length (bs ! i)"
  shows "stack_heap ps (s\<lparr>mem := (mem s)(ps ! i + of_nat j := v)\<rparr>) (bs[i := (bs ! i)[j := v]])"
proof -
  from st obtain h rest where kh: "kernel_heap s h (layout_of bs @ [(rest, True)])" "0x70000 \<le> seg_size (layout_of bs) + rest"
    and u: "seg_size (layout_of bs) + 20 \<le> 0x70000" and ps: "ps = map (\<lambda>i. of_nat (block_at bs i)) [0..<length bs]"
    and con: "\<forall>i < length bs. bytes (mem s) (of_nat (block_at bs i)) (length (bs ! i)) = bs ! i"
    unfolding stack_heap_def by blast
  let ?bs = "bs[i := (bs ! i)[j := v]]" and ?a = "of_nat (block_at bs i) + of_nat j :: uint32"
  let ?s = "s\<lparr>mem := (mem s)(?a := v)\<rparr>"
  have a: "unat ?a = block_at bs i + j" using block_address [OF u ij(1), of j] ij(2) by simp
  have eq: "mem_eq_on (- {block_at bs i + j}) (mem s) ((mem s)(?a := v))" using a by (auto simp: mem_eq_on_def)
  have rep: "heap_rep s h (layout_of bs @ [(rest, True)])" "start_address h = 0xC0080000" "array (index h) = 0xC0000000"
    "heap_paged s h (seg_size (layout_of bs @ [(rest, True)]))" using kh(1) by (simp_all add: kernel_heap_def)
  have "{unat (array (index h)) ..< unat (end_address h)} - block_data (unat (start_address h)) (layout_of bs)
      \<subseteq> - {block_at bs i + j}" using block_at_data [OF ij] rep(2) by auto
  note blocks_own(1) [OF rep(1) mem_eq_on_mono [OF eq this] refl]
  moreover have "{0 ..< 0x1000000} - paging_region s \<subseteq> - {block_at bs i + j}" using block_at_bounds(1) [OF ij(1)] by auto
  from heap_paged_keep [OF rep(4), of _ ?s, OF _ this] eq have "heap_paged ?s h (seg_size (layout_of bs @ [(rest, True)]))"
    by simp
  ultimately have "kernel_heap ?s h (layout_of bs @ [(rest, True)])" using rep by (simp add: kernel_heap_def)
  moreover have lay: "layout_of ?bs = layout_of bs"
    using ij(1) by (simp add: layout_of_def map_update list_update_same_conv)
  moreover have at: "block_at ?bs k = block_at bs k" for k by (rule block_at_upd) simp
  moreover have "bytes (mem ?s) (of_nat (block_at bs k)) (length (?bs ! k)) = ?bs ! k" if k: "k < length bs" for k
  proof (rule nth_equalityI)
    fix t assume "t < length (bytes (mem ?s) (of_nat (block_at bs k)) (length (?bs ! k)))"
    then have t: "t < length (bs ! k)" using ij(1) by (cases "k = i") simp_all
    have "bytes (mem s) (of_nat (block_at bs k)) (length (bs ! k)) ! t = bs ! k ! t" using con k by simp
    then have old: "mem s (of_nat (block_at bs k) + of_nat t) = bs ! k ! t" using t by simp
    have "unat (of_nat (block_at bs k) + of_nat t :: uint32) = block_at bs k + t" using block_address [OF u k, of t] t by simp
    then have "of_nat (block_at bs k) + of_nat t = ?a \<longleftrightarrow> block_at bs k + t = block_at bs i + j"
      using a by (metis word_unat_eq_iff)
    also have "\<dots> \<longleftrightarrow> k = i \<and> t = j" using block_at_inj [OF k ij(1) t ij(2)] by auto
    finally show "bytes (mem ?s) (of_nat (block_at bs k)) (length (?bs ! k)) ! t = ?bs ! k ! t"
      using t ij old by (cases "k = i") (auto simp: nth_list_update)
  qed (use ij(1) in \<open>cases "k = i"; simp\<close>)
  ultimately have "stack_heap ps ?s ?bs" unfolding stack_heap_def using kh(2) u ps by auto
  then show ?thesis using ps ij(1) by simp
qed

lemma stack_op:
  assumes "stack_heap ps s bs" "op_ok (map length bs) op"
  shows "\<exists>ps' s' bs'. heap_exec (Suc fuel) op (ps, s) = Inr (ps', s') \<and> stack_step bs op bs' \<and> stack_heap ps' s' bs'
    \<and> map length bs' = sizes_after (map length bs) op"
proof (cases op)
  case (Push sz)
  then have "seg_size (layout_of bs) + unat sz + 40 \<le> 0x70000" using assms(2) by (simp add: layout_size)
  from stack_push [OF assms(1) this, of fuel] show ?thesis using Push push by fastforce
next
  case Pop
  then obtain bs0 b where bs: "bs = bs0 @ [b]" using assms(2) by (cases bs rule: rev_cases) auto
  from stack_pop [OF assms(1) [unfolded bs]] show ?thesis using Pop pop bs by (fastforce simp: butlast_append)
next
  case (Poke i j v)
  then have ij: "i < length bs" "j < length (bs ! i)" using assms(2) by auto
  have "map length (bs[i := (bs ! i)[j := v]]) = map length bs" by (metis length_list_update list_update_id map_update)
  with stack_poke [OF assms(1) ij, of v] poke [OF ij] show ?thesis unfolding Poke by auto
qed

lemma stack_ops:
  assumes "stack_heap ps s bs" "ops_ok (map length bs) ops"
  shows "\<exists>ps' s' bs'. heap_execs (Suc fuel) ops (ps, s) = Inr (ps', s') \<and> stack_run bs ops bs' \<and> stack_heap ps' s' bs'"
  using assms
proof (induction ops arbitrary: ps s bs)
  case (Cons op ops)
  then obtain ps1 s1 bs1 where 1: "heap_exec (Suc fuel) op (ps, s) = Inr (ps1, s1)" "stack_step bs op bs1"
    "stack_heap ps1 s1 bs1" "map length bs1 = sizes_after (map length bs) op" using stack_op [of ps s bs op fuel] by auto
  then have "ops_ok (map length bs1) ops" using Cons.prems(2) by simp
  from Cons.IH [OF 1(3) this] 1(1,2) show ?case by (auto intro: stack_more)
qed auto

section \<open>The heap is a stack\<close>

text \<open>
  C6: after initialise_paging the kernel heap implements a stack of byte arrays: every sequence
  of requests, releases of the last block and writes into blocks, that stays below HEAP_MIN_SIZE
  (with 20 bytes for each block) runs without an error, whether or not the heap is contracted in
  between; every block sits where its predecessors end, what has been written to a block stays
  there while other blocks come and go, and the heap is well formed after each operation.
\<close>

theorem heap_implements_stack:
  assumes "kheap s0 = None" "unat (placement_address s0) + 128 + 4096 \<le> 0x2FA000"
    and "\<forall>a. unat a \<in> {0xC0000000 ..< 0xC0100000} \<longrightarrow> mem s0 a = 0" and "ops_ok [] ops"
  shows "\<exists>s ps s' bs. initialise_paging (Suc fuel) s0 = Inr s \<and> heap_execs (Suc fuel) ops ([], s) = Inr (ps, s')
    \<and> stack_run [] ops bs \<and> ps = map (\<lambda>i. of_nat (block_at bs i)) [0..<length bs]
    \<and> (\<forall>i < length bs. bytes (mem s') (ps ! i) (length (bs ! i)) = bs ! i)
    \<and> (\<exists>h rest. heap_rep s' h (layout_of bs @ [(rest, True)]))"
proof -
  from kernel_heap_boot [OF assms(1-3), of "Suc fuel"] obtain s h where
    s: "initialise_paging (Suc fuel) s0 = Inr s" "kernel_heap s h [(0x80000, True)]" by blast
  then have "stack_heap [] s []" by (auto simp: stack_heap_def intro!: exI [of _ h] exI [of _ "0x80000"])
  from stack_ops [OF this, of ops fuel] assms(4) obtain ps s' bs where
    run: "heap_execs (Suc fuel) ops ([], s) = Inr (ps, s')" "stack_run [] ops bs" and st: "stack_heap ps s' bs" by auto
  have "ps = map (\<lambda>i. of_nat (block_at bs i)) [0..<length bs]"
    "\<forall>i < length bs. bytes (mem s') (ps ! i) (length (bs ! i)) = bs ! i"
    "\<exists>h rest. heap_rep s' h (layout_of bs @ [(rest, True)])"
    using st by (auto simp: stack_heap_def kernel_heap_def)
  then show ?thesis using s(1) run by blast
qed

theorem heap_implements_stack_witness:
  "\<exists>s ps s'. initialise_paging 1 (boot_kstate (\<lambda>_. 0) 0x106000) = Inr s
    \<and> heap_execs 1 [Push 8, Push 4, Poke 0 3 65, Pop, Push 12] ([], s) = Inr (ps, s')
    \<and> ps = [0xC008000C, 0xC0080028] \<and> mem s' 0xC008000F = 65"
proof -
  let ?s0 = "boot_kstate (\<lambda>_. 0) 0x106000" and ?ops = "[Push 8, Push 4, Poke 0 3 65, Pop, Push 12]"
  have "kheap ?s0 = None" "unat (placement_address ?s0) + 128 + 4096 \<le> 0x2FA000" "\<forall>a. mem ?s0 a = 0" "ops_ok [] ?ops"
    by (simp_all add: boot_kstate_def)
  with heap_implements_stack [OF this(1,2) _ this(4), of 0] obtain s ps s' bs where
    s: "initialise_paging (Suc 0) ?s0 = Inr s" "heap_execs (Suc 0) ?ops ([], s) = Inr (ps, s')"
    and bs: "stack_run [] ?ops bs" and ps: "ps = map (\<lambda>i. of_nat (block_at bs i)) [0..<length bs]"
    and con: "\<forall>i < length bs. bytes (mem s') (ps ! i) (length (bs ! i)) = bs ! i" by blast
  from bs have "\<exists>b c. bs = [b[3 := 65], c] \<and> length b = 8 \<and> length c = 12"
    by (auto simp: stack_run_simps stack_step_simps Cons_eq_append_conv append_eq_Cons_conv)
  then obtain b c where b: "bs = [b[3 := 65], c]" "length b = 8" "length c = 12" by blast
  have p: "ps = [0xC008000C, 0xC0080028]" unfolding ps b(1) using b(2) by (simp add: block_at_def)
  have "bytes (mem s') 0xC008000C 8 = b[3 := 65]" using spec [OF con, of 0] b p by simp
  then have "bytes (mem s') 0xC008000C 8 ! 3 = 65" using b(2) by simp
  then have "mem s' 0xC008000F = 65" by simp
  then show ?thesis using s p by (metis One_nat_def)
qed

end
