(* ===== verification/Mmu.thy ===== *)
theory Mmu
  imports PagingBoot
begin

text \<open>
  The address translation of the processor (the page walk of the 80386: CR0, CR3, directory
  and table entries), which is what paging.c programs; with it what initialise_paging
  promises about every virtual address. The walk reads physical memory; the directory and the
  tables lie in the low pages, which are mapped to themselves, so the flat memory of the model
  is read at the same addresses.
\<close>

section \<open>The page walk\<close>

definition translate :: "kstate \<Rightarrow> uint32 \<Rightarrow> uint32 option" where
  "translate s a =
     (if cr0 s AND 0x80000000 = 0 then Some a
      else
        let pde = rd32 (mem s) ((cr3 s AND 0xFFFFF000) + 4 * (a div 0x400000))
        in if pde AND 1 = 0 then None
           else
             let page = load_page (mem s) ((pde AND 0xFFFFF000) + 4 * (a div 0x1000 mod 1024))
             in if present page then Some (0x1000 * ucast (frame page) + a mod 0x1000) else None)"

lemma aligned_entry:
  fixes t :: uint32
  assumes "t AND 0xFFF = 0"
  shows "t AND 0xFFFFF000 = t" "(t OR 7) AND 0xFFFFF000 = t" "(t OR 7) AND 1 \<noteq> 0"
proof -
  show al: "t AND 0xFFFFF000 = t" using assms by (simp add: and_page_mask and_0xFFF)
  have "(t OR 7) AND 0xFFFFF000 = (t AND 0xFFFFF000) OR (7 AND 0xFFFFF000)"
    by (rule bit_word_eqI) (auto simp only: bit_and_iff bit_or_iff)
  then show "(t OR 7) AND 0xFFFFF000 = t" by (simp add: al)
  have "bit ((t OR 7) AND 1) 0" by (simp add: bit_and_iff bit_or_iff)
  then show "(t OR 7) AND 1 \<noteq> 0" by (metis bit_0_eq bot_apply bot_bool_def)
qed

lemma paging_bit_set: "(c OR 0x80000000) AND 0x80000000 \<noteq> (0 :: uint32)"
proof -
  have "bit ((c OR 0x80000000) AND 0x80000000) 31" by (simp add: bit_and_iff bit_or_iff)
  then show ?thesis by (metis bit_0_eq bot_apply bot_bool_def)
qed

lemma aligned_plus:
  assumes "D AND 0xFFF = (0 :: uint32)" "unat D \<le> 0x2FA000" "4096 dvd c" "c \<le> 0x10000"
  shows "(D + of_nat c) AND 0xFFF = 0"
proof -
  have "unat (D + of_nat c) = unat D + c" using assms by (intro unat_plus_of_nat) simp
  then show ?thesis using assms(1,3) by (simp add: aligned_dvd)
qed

text \<open>The parts of an address.\<close>

lemma address_parts:
  fixes a :: uint32
  defines "k \<equiv> unat a div 4096"
  shows "a div 0x400000 = of_nat (k div 1024)" "a div 0x1000 mod 1024 = of_nat (k mod 1024)" "k < 1048576"
    "of_nat (k * 4096) + a mod 0x1000 = a"
proof -
  have a: "unat a < 4294967296" by simp
  show k: "k < 1048576" using a unfolding k_def by (simp add: less_mult_imp_div_less)
  have d: "unat a div 4096 div 1024 = unat a div 4194304" by (simp add: div_mult2_eq [symmetric])
  have "unat (of_nat (k div 1024) :: uint32) = k div 1024" "unat (of_nat (k mod 1024) :: uint32) = k mod 1024"
    using k by (intro unat_of_nat32; linarith)+
  then show "a div 0x400000 = of_nat (k div 1024)" "a div 0x1000 mod 1024 = of_nat (k mod 1024)"
    by (simp_all add: word_unat_eq_iff unat_div unat_mod k_def d)
  have "(of_nat (k * 4096 + unat a mod 4096) :: uint32) = a" by (simp add: k_def)
  moreover have "(of_nat (unat a mod 4096) :: uint32) = a mod 0x1000"
    by (simp add: word_unat_eq_iff unat_mod unat_of_nat32)
  ultimately show "of_nat (k * 4096) + a mod 0x1000 = a" by simp
qed

lemma mapped_frame_address:
  assumes "f < 1048576"
  shows "0x1000 * ucast (frame (mapped_frame f)) = (of_nat (f * 4096) :: uint32)"
proof -
  have "take_bit 20 f = f" using assms by (intro take_bit_nat_eq_self) simp
  then have "(ucast (of_nat f :: 20 word) :: uint32) = of_nat f"
    by (simp add: unsigned_of_nat)
  then show ?thesis by (simp add: mapped_frame_def)
qed

lemma translate_unmapped:
  assumes d: "dir_only (mem s) D {0, 768}" "D AND 0xFFF = 0" "unat D \<le> 0x2FA000"
    and cr: "cr3 s = D + 4096" "cr0 s AND 0x80000000 \<noteq> 0"
    and k: "unat a div 4096 div 1024 \<notin> {0, 768}"
  shows "translate s a = None"
proof -
  have "(D + 0x1000) AND 0xFFF = 0" using aligned_plus [OF d(2,3), of "0x1000"] by simp
  then have c: "cr3 s AND 0xFFFFF000 = D + 0x1000" unfolding cr by (rule aligned_entry(1))
  have "unat a div 4096 div 1024 < 1024" using address_parts(3) [of a] by (simp add: less_mult_imp_div_less)
  from dir_onlyD(2) [OF d(1) this k] show ?thesis
    using cr(2) unfolding translate_def c address_parts(1) by (simp add: tables_physical_entry_def)
qed

lemma translate_boot:
  assumes bt: "boot_tables (mem s) D N" and N: "N \<le> 768" and cr: "cr3 s = D + 4096" "cr0 s AND 0x80000000 \<noteq> 0"
  shows "translate s a = (let k = unat a div 4096 in
    if k < N then Some a
    else if 0xC0000 \<le> k \<and> k < 0xC0100 then Some (of_nat ((N + (k - 0xC0000)) * 4096) + a mod 0x1000)
    else None)"
proof -
  define k where "k = unat a div 4096"
  note p = address_parts [of a, folded k_def]
  have d: "D AND 0xFFF = 0" "unat D \<le> 0x2FA000" "dir_only (mem s) D {0, 768}"
    and e: "rd32 (mem s) (tables_physical_entry D (of_nat 0)) = (D + 0x4000) OR 7"
      "rd32 (mem s) (tables_physical_entry D (of_nat 768)) = (D + 0x3000) OR 7"
    and lowp: "\<And>j. j < 1024 \<Longrightarrow> load_page (mem s) (D + 0x4000 + 4 * of_nat j) = (if j < N then mapped_frame j else no_page)"
    and highp: "\<And>j. j < 1024 \<Longrightarrow> load_page (mem s) (D + 0x3000 + 4 * of_nat j) = (if j < 256 then mapped_frame (N + j) else no_page)"
    using bt by (simp_all add: boot_tables_def)
  have al: "(D + 0x1000) AND 0xFFF = 0" "(D + 0x3000) AND 0xFFF = 0" "(D + 0x4000) AND 0xFFF = 0"
    using aligned_plus [OF d(1,2), of "0x1000"] aligned_plus [OF d(1,2), of "0x3000"] aligned_plus [OF d(1,2), of "0x4000"]
    by simp_all
  have np: "\<not> present no_page" by (simp add: no_page_def page_of_word_def)
  have mp: "present (mapped_frame f)" for f by (simp add: mapped_frame_def)
  have walk: "translate s a = (let pde = rd32 (mem s) (tables_physical_entry D (of_nat (k div 1024)))
      in if pde AND 1 = 0 then None
         else let page = load_page (mem s) ((pde AND 0xFFFFF000) + 4 * of_nat (k mod 1024))
           in if present page then Some (0x1000 * ucast (frame page) + a mod 0x1000) else None)"
    unfolding translate_def p(1) p(2) using cr aligned_entry(1) [OF al(1)]
    by (simp add: tables_physical_entry_def)
  have j: "k mod 1024 < 1024" by simp
  consider (low) "k div 1024 = 0" | (high) "k div 1024 = 768" | (other) "k div 1024 \<noteq> 0" "k div 1024 \<noteq> 768" by blast
  then show ?thesis
  proof cases
    case low
    then have k: "k < 1024" by (simp add: div_eq_0_iff)
    have "0x1000 * ucast (frame (mapped_frame k)) + a mod 0x1000 = a"
      using mapped_frame_address [of k] p(4) k by simp
    then show ?thesis
      using walk low k N np mp aligned_entry(2,3) [OF al(3)] lowp [OF k] e(1)
      by (simp add: k_def [symmetric] Let_def)
  next
    case high
    define j where "j = k mod 1024"
    have jk: "k = 0xC0000 + j" using high div_mult_mod_eq [of k 1024] by (simp add: j_def)
    have j: "j < 1024" by (simp add: j_def)
    have fr: "0x1000 * ucast (frame (mapped_frame (N + j))) = (of_nat ((N + j) * 4096) :: uint32)"
      using N j by (intro mapped_frame_address) simp
    show ?thesis
    proof (cases "j < 256")
      case True
      then show ?thesis
        using fr N unfolding walk high e(2) j_def [symmetric]
        by (simp add: k_def [symmetric] Let_def jk mp aligned_entry(2,3) [OF al(2)] highp [OF j])
    next
      case False
      then show ?thesis
        using N unfolding walk high e(2) j_def [symmetric]
        by (simp add: k_def [symmetric] Let_def jk np aligned_entry(2) [OF al(2)] highp [OF j])
    qed
  next
    case other
    from translate_unmapped [OF d(3,1,2) cr, of a, folded k_def] other have "translate s a = None" by simp
    moreover have "\<not> k < N" using other(1) N by (auto simp: div_eq_0_iff)
    moreover have "\<not> (0xC0000 \<le> k \<and> k < 0xC0100)"
    proof
      assume "0xC0000 \<le> k \<and> k < 0xC0100"
      then have "k div 1024 = 768" by auto
      then show False using other(2) by simp
    qed
    ultimately show ?thesis by (simp add: k_def [symmetric] Let_def)
  qed
qed

section \<open>initialise_paging as address translation\<close>

text \<open>
  What initialise_paging promises: the low pages are where they are, the heap is behind them,
  and nothing else is mapped.
\<close>

definition boot_frame :: "nat \<Rightarrow> nat \<Rightarrow> nat option" where
  "boot_frame N k = (if k < N then Some k else if 0xC0000 \<le> k \<and> k < 0xC0100 then Some (N + (k - 0xC0000)) else None)"

definition boot_translation :: "nat \<Rightarrow> uint32 \<Rightarrow> uint32 option" where
  "boot_translation N a = map_option (\<lambda>f. of_nat (f * 4096 + unat a mod 4096)) (boot_frame N (unat a div 4096))"

lemma translate_boot_frames:
  assumes "boot_tables (mem s) D N" "N \<le> 768" "cr3 s = D + 4096" "cr0 s AND 0x80000000 \<noteq> 0"
  shows "translate s = boot_translation N"
proof
  fix a
  have o: "(of_nat (unat a mod 4096) :: uint32) = a mod 0x1000"
    by (simp add: word_unat_eq_iff unat_mod unat_of_nat32)
  have "of_nat (unat a div 4096) * 4096 + a mod 0x1000 = a" using address_parts(4) [of a] by simp
  with o show "translate s a = boot_translation N a"
    unfolding translate_boot [OF assms] boot_translation_def boot_frame_def Let_def by (auto simp: o)
qed

lemma boot_translation_nat:
  assumes "N \<le> 768" "boot_translation N a = Some b"
  shows "\<exists>f. boot_frame N (unat a div 4096) = Some f \<and> unat b = f * 4096 + unat a mod 4096"
proof -
  obtain f where f: "boot_frame N (unat a div 4096) = Some f" "b = of_nat (f * 4096 + unat a mod 4096)"
    using assms(2) by (auto simp: boot_translation_def)
  have "f \<le> 1024" using f(1) assms(1) by (auto simp: boot_frame_def split: if_splits)
  moreover have "unat a mod 4096 < 4096" by simp
  ultimately have "f * 4096 + unat a mod 4096 < 4294967296" by linarith
  then have "unat b = f * 4096 + unat a mod 4096" unfolding f(2) by (rule unat_of_nat32)
  then show ?thesis using f(1) by blast
qed

lemma boot_frame_inj: "boot_frame N k = Some f \<Longrightarrow> boot_frame N k' = Some f \<Longrightarrow> k = k'"
  by (auto simp: boot_frame_def split: if_splits)

lemma page_offset_eq:
  fixes p p' i i' :: nat
  assumes "p * 4096 + i = p' * 4096 + i'" "i < 4096" "i' < 4096"
  shows "p = p'" "i = i'"
proof -
  have "(p * 4096 + i) div 4096 = p" "(p' * 4096 + i') div 4096 = p'" using assms(2,3) by simp_all
  then show "p = p'" using assms(1) by simp
  then show "i = i'" using assms(1) by simp
qed

lemma boot_translation_inj:
  assumes N: "N \<le> 768"
  shows "inj_on (boot_translation N) (dom (boot_translation N))"
proof (rule inj_onI)
  fix a a' assume d: "a \<in> dom (boot_translation N)" "a' \<in> dom (boot_translation N)" and eq: "boot_translation N a = boot_translation N a'"
  from d eq obtain b where b: "boot_translation N a = Some b" "boot_translation N a' = Some b" by auto
  from boot_translation_nat [OF N b(1)] obtain f where
    f: "boot_frame N (unat a div 4096) = Some f" "unat b = f * 4096 + unat a mod 4096" by blast
  from boot_translation_nat [OF N b(2)] obtain f' where
    f': "boot_frame N (unat a' div 4096) = Some f'" "unat b = f' * 4096 + unat a' mod 4096" by blast
  from page_offset_eq [of f "unat a mod 4096" f' "unat a' mod 4096"] f(2) f'(2)
  have "f = f'" "unat a mod 4096 = unat a' mod 4096" by simp_all
  then have "unat a div 4096 = unat a' div 4096" using boot_frame_inj f(1) f'(1) by blast
  then have "unat a = unat a'" using \<open>unat a mod 4096 = unat a' mod 4096\<close> by (metis div_mult_mod_eq)
  then show "a = a'" by (simp add: word_unat_eq_iff)
qed

text \<open>
  C2: initialise_paging, called with the placement allocator below 3 MB, always succeeds and
  turns paging on with the directory behind the frame bitmap. From then on the processor
  translates every address of the first N pages (the kernel, the ram disk, the page tables and
  one page more) to itself, so the kernel goes on running where it is, the 256 pages of the heap
  to the next 256 frames, and no other address; no two addresses share a physical one. The
  heap is created, and nothing else in memory is written.
\<close>

theorem initialise_paging_translates:
  assumes "kheap s = None" "unat (placement_address s) + 128 + 4096 \<le> 0x2FA000"
    and "\<forall>a. unat a \<in> {0xC0000000 ..< 0xC0100000} \<longrightarrow> mem s a = 0"
    and "D = page_aligned (placement_address s + 128)" "N = unat D div 4096 + 6"
  shows "\<exists>s'. initialise_paging fuel s = Inr s'
    \<and> current_directory s' = D \<and> kernel_directory s' = D \<and> cr3 s' = D + 4096 \<and> cr0 s' = cr0 s OR 0x80000000
    \<and> translate s' = boot_translation N \<and> inj_on (translate s') (dom (translate s'))
    \<and> heap_avail s' {0xC0000000 ..< 0xC0100000} (0x80000 - 20)
    \<and> mem_eq_on (- ({unat (placement_address s) ..< unat D + 0x5000} \<union> {0xC0000000 ..< 0xC0100000})) (mem s) (mem s')"
proof -
  from initialise_paging_result [OF assms(1,2,4,5) _ assms(3), of "0x80000 - 20" fuel] obtain s' where
    s': "initialise_paging fuel s = Inr s'" "current_directory s' = D" "kernel_directory s' = D" "cr3 s' = D + 4096"
    "cr0 s' = cr0 s OR 0x80000000" "boot_tables (mem s') D N" "heap_avail s' {0xC0000000 ..< 0xC0100000} (0x80000 - 20)"
    "mem_eq_on (- ({unat (placement_address s) ..< unat D + 0x5000} \<union> {0xC0000000 ..< 0xC0100000})) (mem s) (mem s')"
    by (simp, blast)
  have "unat D \<le> 0x2FA000" using s'(6) by (simp add: boot_tables_def)
  then have N: "N \<le> 768" using assms(5) by simp
  have "cr0 s' AND 0x80000000 \<noteq> 0" unfolding s'(5) by (rule paging_bit_set)
  from translate_boot_frames [OF s'(6) N s'(4) this] have "translate s' = boot_translation N" .
  then show ?thesis using s' boot_translation_inj [OF N] by (intro exI [of _ s']) simp
qed

theorem initialise_paging_translates_witness:
  "\<exists>s'. initialise_paging 0 (boot_kstate (\<lambda>_. 0) 0x106000) = Inr s' \<and> cr3 s' = 0x108000
    \<and> translate s' 0x10CABC = Some 0x10CABC \<and> translate s' 0xC00FF123 = Some 0x20C123 \<and> translate s' 0xA0000000 = None"
proof -
  let ?s = "boot_kstate (\<lambda>_. 0) 0x106000"
  have D: "page_aligned (placement_address ?s + 128) = 0x107000" by (simp add: boot_kstate_def page_aligned_def)
  have "kheap ?s = None" "unat (placement_address ?s) + 128 + 4096 \<le> 0x2FA000" "\<forall>a. mem ?s a = 0"
    by (simp_all add: boot_kstate_def)
  from initialise_paging_translates [OF this(1,2) _ D [symmetric] refl, of 0] this(3) obtain s' where
    s': "initialise_paging 0 ?s = Inr s'" "cr3 s' = 0x108000" "translate s' = boot_translation 0x10D" by auto
  then show ?thesis by (auto simp: boot_translation_def boot_frame_def)
qed

end
