(* ===== verification/KernelTests.thy ===== *)
theory KernelTests
  imports HeapTest Mmu
begin

text \<open>
  run_tests and force_page_fault of kernel.c: the read of an address that no page table maps,
  through the translation of the processor, its exception and the dispatch of isr.c.
\<close>

text \<open>
  A read: at an address without a page the processor raises exception 14 with the address in
  CR2, and the stub of vector 14 calls isr_handler with the registers it has pushed; when the
  handler comes back the instruction is executed again.
\<close>

fun read_word :: "nat \<Rightarrow> size_t \<Rightarrow> hardware \<Rightarrow> registers_t \<Rightarrow> kernel \<Rightarrow> kerror + size_t \<times> kernel" where
  "read_word 0 a hw regs k = Inl OutOfFuel"
| "read_word (Suc fuel) a hw regs k =
     (case translate (ks (mach k)) a of
        Some _ \<Rightarrow> Inr (rd32 (kmem k) a, k)
      | None \<Rightarrow>
          res_bind (isr_handler (hw\<lparr>hw_cr2 := a\<rparr>) (regs\<lparr>int_no := 14\<rparr>) (mach k)) (\<lambda>(m, jump).
            read_word fuel a hw regs (k\<lparr>mach := m\<rparr>)))"

definition force_page_fault :: "nat \<Rightarrow> hardware \<Rightarrow> registers_t \<Rightarrow> kernel \<Rightarrow> kerror + kernel" where
  "force_page_fault fuel hw regs k =
     (let ptr = 0xA0000000
      in res_bind (read_word fuel ptr hw regs k) (\<lambda>(do_page_fault, k1). Inr k1))"

definition run_tests :: "nat \<Rightarrow> hardware \<Rightarrow> registers_t \<Rightarrow> kernel \<Rightarrow> kerror + kernel" where
  "run_tests fuel hw regs k = res_bind (test_heap fuel k) (force_page_fault fuel hw regs)"

text \<open>A fault with the handler of initialise_paging installed is the end.\<close>

lemma read_word_faults:
  assumes "translate (ks (mach k)) a = None" "interrupt_handlers (ks (mach k)) 14 = Some page_fault_isr"
  shows "read_word (Suc fuel) a hw regs k = Inl (Panic ''Page fault'')"
  using assms by (simp add: isr_handler_def handler_at_def call_isr_def)

lemma unmapped_after_heap_use:
  assumes bt: "boot_tables (mem s) D N" "kernel_directory s = D" "cr3 s = D + 4096" "cr0 s AND 0x80000000 \<noteq> 0"
    and fr: "unat (frames s) + 128 \<le> unat D" and same: "same_paging s s'"
    and k: "unat a div 4096 div 1024 \<notin> {0, 768}"
  shows "translate s' a = None"
proof (rule translate_unmapped [OF _ _ _ _ _ k])
  have d: "dir_only (mem s) D {0, 768}" "D AND 0xFFF = 0" "unat D \<le> 0x2FA000"
    using bt(1) by (simp_all add: boot_tables_def)
  then show "D AND 0xFFF = 0" "unat D \<le> 0x2FA000" by simp_all
  have eq: "mem_eq_on ({0 ..< 0x1000000} - paging_region s) (mem s) (mem s')"
    using same by (simp add: same_paging_def)
  show "dir_only (mem s') D {0, 768}"
    by (rule dir_only_step [OF d(1) eq d(3)]) (use bt(2) fr d(3) in \<open>auto simp: paging_region_def\<close>)
  show "cr3 s' = D + 4096" "cr0 s' AND 0x80000000 \<noteq> 0" using bt same by (simp_all add: same_paging_def)
qed

text \<open>
  C13: run_tests does what it is written for: after test_heap has succeeded, the read of
  0xA0000000 in force_page_fault finds no page, although the heap has been used and contracted
  in between; the exception reaches page_fault through vector 14, and the kernel panics with
  "Page fault". It never returns.
\<close>

theorem run_tests_panics:
  assumes "kheap (ks (mach k)) = None" "unat (placement_address (ks (mach k))) + 8 + 128 + 4096 \<le> 0x2FA000"
    and "\<forall>a. unat a \<in> {0xC0000000 ..< 0xC0100000} \<longrightarrow> kmem k a = 0"
  shows "\<exists>k1. test_heap (Suc fuel) k = Inr k1 \<and> translate (ks (mach k1)) 0xA0000000 = None
    \<and> run_tests (Suc fuel) hw regs k = Inl (Panic ''Page fault'')"
proof -
  let ?s = "ks (mach k)"
  let ?s1 = "?s\<lparr>placement_address := placement_address ?s + 8\<rparr>"
  let ?D = "page_aligned (placement_address ?s1 + 128)"
  from test_heap_run [OF assms, of fuel] obtain k1 s2 where
    k1: "test_heap (Suc fuel) k = Inr k1" "initialise_paging (Suc fuel) ?s1 = Inr s2" "same_paging s2 (ks (mach k1))" by blast
  have "unat (placement_address ?s + 8) = unat (placement_address ?s) + 8"
    using unat_plus_of_nat [of "placement_address ?s" 8] assms(2) by simp
  then have s1: "kheap ?s1 = None" "unat (placement_address ?s1) + 128 + 4096 \<le> 0x2FA000"
    "\<forall>a. unat a \<in> {0xC0000000 ..< 0xC0100000} \<longrightarrow> mem ?s1 a = 0" using assms by (simp_all add: kmem_def)
  from initialise_paging_result [OF s1(1,2) refl refl _ s1(3), of "0x80000 - 20" "Suc fuel"] k1(2)
  have s2: "kernel_directory s2 = ?D" "cr3 s2 = ?D + 4096" "cr0 s2 = cr0 ?s1 OR 0x80000000"
    "unat (frames s2) + 128 \<le> unat ?D" "\<exists>N. boot_tables (mem s2) ?D N" "interrupt_handlers s2 14 = Some page_fault_isr"
    by auto
  have on: "cr0 s2 AND 0x80000000 \<noteq> 0" unfolding s2(3) by (rule paging_bit_set)
  have "unat (0xA0000000 :: uint32) div 4096 div 1024 \<notin> {0, 768}" by simp
  with s2 on have none: "translate (ks (mach k1)) 0xA0000000 = None"
    using unmapped_after_heap_use [OF _ s2(1,2) on s2(4) k1(3)] by blast
  have "interrupt_handlers (ks (mach k1)) 14 = Some page_fault_isr" using s2(6) k1(3) by (simp add: same_paging_def)
  from read_word_faults [OF none this] show ?thesis
    using k1(1) none by (simp add: run_tests_def force_page_fault_def)
qed

theorem run_tests_panics_witness:
  "\<exists>(k :: kernel) hw. placement_address (ks (mach k)) = 0x106000
    \<and> run_tests 1 hw (demo_regs 14) k = Inl (Panic ''Page fault'')"
proof -
  let ?k = "\<lparr>mach = initial_machine (boot_kstate (\<lambda>_. 0) 0x106000), dts = initial_dt_state, initrd = ir, fs_root = 0,
    initial_esp = 0\<rparr>"
  have "run_tests (Suc 0) hw (demo_regs 14) ?k = Inl (Panic ''Page fault'')" for hw
    using run_tests_panics [of ?k 0 hw "demo_regs 14"] by (auto simp: initial_machine_def boot_kstate_def kmem_def)
  moreover have "placement_address (ks (mach ?k)) = 0x106000" by (simp add: initial_machine_def boot_kstate_def)
  ultimately show ?thesis by (metis One_nat_def)
qed

end
