(* ===== verification/HeapGrow.thy ===== *)
theory HeapGrow
  imports HeapFree PagingBoot MemFrame
begin

text \<open>
  The heap grows: expand maps further pages behind the heap, and alloc adds them to the
  endmost hole, or makes them a hole when there is none, before it tries again. That keeps the
  layout when the endmost hole ends the heap; when live blocks follow it, the hole grows over
  them.
\<close>

section \<open>expand\<close>

text \<open>The entry of a page of the heap with frame \<open>f\<close>.\<close>

definition heap_entry :: "heap_t \<Rightarrow> nat \<Rightarrow> page_t" where
  "heap_entry h f = (mapped_frame f)\<lparr>rw := (readonly h = 0), user := (supervisor h = 0)\<rparr>"

text \<open>
  Page table \<open>i\<close> is at \<open>t\<close>, its entries from \<open>j0\<close> on have the \<open>c\<close> frames from \<open>n\<close> on, and
  these are in use.
\<close>

definition grown_pages :: "kstate \<Rightarrow> heap_t \<Rightarrow> nat \<Rightarrow> uint32 \<Rightarrow> nat \<Rightarrow> nat \<Rightarrow> nat \<Rightarrow> bool" where
  "grown_pages s h i t j0 n c \<longleftrightarrow> frame_map s (n + c) \<and> table_at s i t
     \<and> (\<forall>j < c. load_page (mem s) (t + 4 * of_nat (j0 + j)) = heap_entry h (n + j))"

definition page_writes :: "kstate \<Rightarrow> uint32 \<Rightarrow> nat \<Rightarrow> nat \<Rightarrow> nat set" where
  "page_writes s t j0 c = {unat (frames s) ..< unat (frames s) + 128} \<union> {unat t + 4 * j0 ..< unat t + 4 * (j0 + c)}"

lemma expand_pages:
  assumes "frame_map s n" "n + c \<le> 1024" "\<forall>j < c. (K + l + j) div 1024 = i \<and> (K + l + j) mod 1024 = j0 + j"
    and "K + l + c < 1048576" "table_at s i t" "\<forall>j < c. rd32 (mem s) (t + 4 * of_nat (j0 + j)) = 0"
    and "kheap s = Some h" "start_address h = frame_address_of K" "c < fuel"
  shows "\<exists>m'. expand_loop kap fuel (frame_address_of l) (frame_address_of (l + c)) s = Inr (s\<lparr>mem := m'\<rparr>)
    \<and> grown_pages (s\<lparr>mem := m'\<rparr>) h i t j0 n c \<and> mem_eq_on (- page_writes s t j0 c) (mem s) m'"
  using assms
proof (induction c arbitrary: l n j0 s fuel)
  case 0
  then obtain f where "fuel = Suc f" by (cases fuel) auto
  then show ?case using 0 by (intro exI [of _ "mem s"]) (simp add: grown_pages_def)
next
  case (Suc c)
  obtain f where f: "fuel = Suc f" using Suc.prems(9) by (cases fuel) auto
  have k: "(K + l) div 1024 = i" "(K + l) mod 1024 = j0" using spec [OF Suc.prems(3), of 0] by simp_all
  have "(K + l + c) mod 1024 = j0 + c" using Suc.prems(3) by simp
  then have jc: "j0 + c < 1024" by (metis mod_less_divisor zero_less_numeral)
  have z: "rd32 (mem s) (t + 4 * of_nat j0) = 0" using spec [OF Suc.prems(6), of 0] by simp
  have n: "n < 1024" "j0 < 1024" using Suc.prems(2) jc by simp_all
  let ?k = "if supervisor h \<noteq> 0 then 1 else 0 :: int32" and ?w = "if readonly h \<noteq> 0 then 0 else 1 :: int32"
  from map_entry_step [OF Suc.prems(1) n(1) Suc.prems(5) n(2) z, of ?k ?w] obtain m1 where
    al: "alloc_frame (t + 4 * of_nat j0) ?k ?w s = Inr (s\<lparr>mem := m1\<rparr>)" and fm: "frame_map (s\<lparr>mem := m1\<rparr>) (Suc n)"
    and ta: "table_at (s\<lparr>mem := m1\<rparr>) i t" and ld: "load_page m1 (t + 4 * of_nat j0) = heap_entry h n"
    and eq1: "mem_eq_on (- ({unat (frames s) ..< unat (frames s) + 128} \<union> {unat t + 4 * j0 ..< unat t + 4 * j0 + 4})) (mem s) m1"
    by (auto simp: heap_entry_def)
  let ?s1 = "s\<lparr>mem := m1\<rparr>"
  have T: "unat (frames s) + 128 \<le> unat (kernel_directory s)" "unat (kernel_directory s) + 0x3000 \<le> unat t" "unat t + 4096 \<le> 0x1000000"
    using Suc.prems(1,5) by (simp_all add: frame_map_def table_at_def)
  have "t \<noteq> 0" using T(2) by auto
  then have gp: "get_page_with kap (frame_address_of (K + l)) True (kernel_directory s) s = Inr (t + 4 * of_nat j0, s)"
    using get_page_with_present [of "K + l" s] Suc.prems(4,5) k by (simp add: table_at_def)
  have "frame_address_of l < frame_address_of (l + Suc c)"
    using Suc.prems(4) by (subst page_address_less) simp_all
  moreover have "start_address h + frame_address_of l = frame_address_of (K + l)"
    by (simp add: Suc.prems(8) frame_address_of_def algebra_simps)
  moreover have "frame_address_of l + PAGE_SIZE = frame_address_of (Suc l)"
    unfolding PAGE_SIZE_def by (rule page_address_Suc)
  ultimately have step: "expand_loop kap fuel (frame_address_of l) (frame_address_of (l + Suc c)) s =
      expand_loop kap f (frame_address_of (Suc l)) (frame_address_of (Suc l + c)) ?s1"
    using gp al Suc.prems(7) by (simp add: f the_heap_def)
  have zs: "\<forall>j < c. rd32 (mem ?s1) (t + 4 * of_nat (Suc j0 + j)) = 0"
  proof (intro allI impI)
    fix j assume j: "j < c"
    have "rd32 m1 (t + 4 * of_nat (Suc j0 + j)) = rd32 (mem s) (t + 4 * of_nat (Suc j0 + j))"
      by (rule entry_keep(1) [OF Suc.prems(5) _ eq1]) (use T j jc in auto)
    moreover have "rd32 (mem s) (t + 4 * of_nat (j0 + Suc j)) = 0" using Suc.prems(6) j by blast
    ultimately show "rd32 (mem ?s1) (t + 4 * of_nat (Suc j0 + j)) = 0" by (simp del: of_nat_Suc of_nat_add)
  qed
  have ks: "\<forall>j < c. (K + Suc l + j) div 1024 = i \<and> (K + Suc l + j) mod 1024 = Suc j0 + j"
    using Suc.prems(3) by (auto dest: spec [of _ "Suc _"])
  have pre: "Suc n + c \<le> 1024" "K + Suc l + c < 1048576" "kheap ?s1 = Some h" "c < f"
    using Suc.prems(2,4,7,9) f by simp_all
  from Suc.IH [OF fm pre(1) ks pre(2) ta zs pre(3) Suc.prems(8) pre(4)] obtain m2 where
    run: "expand_loop kap f (frame_address_of (Suc l)) (frame_address_of (Suc l + c)) ?s1 = Inr (s\<lparr>mem := m2\<rparr>)"
    and g: "grown_pages (s\<lparr>mem := m2\<rparr>) h i t (Suc j0) (Suc n) c" and eq2: "mem_eq_on (- page_writes s t (Suc j0) c) m1 m2"
    by (auto simp: page_writes_def)
  have "load_page m2 (t + 4 * of_nat j0) = load_page m1 (t + 4 * of_nat j0)"
    by (rule entry_keep(2) [OF ta n(2), simplified, OF eq2]) (use T in \<open>auto simp: page_writes_def\<close>)
  then have "load_page m2 (t + 4 * of_nat (j0 + j)) = heap_entry h (n + j)" if "j < Suc c" for j
    using that ld g by (cases j) (auto simp: grown_pages_def simp del: of_nat_add of_nat_Suc)
  then have "grown_pages (s\<lparr>mem := m2\<rparr>) h i t j0 n (Suc c)"
    using g by (simp add: grown_pages_def)
  moreover have "mem_eq_on (- page_writes s t j0 (Suc c)) (mem s) m2"
    by (rule mem_eq_on_trans [OF mem_eq_on_mono [OF eq1] mem_eq_on_mono [OF eq2]]) (auto simp: page_writes_def)
  ultimately show ?case using step run by (intro exI [of _ m2]) simp
qed

lemma grown_pages_keep:
  assumes g: "grown_pages s h i t j0 n c" and eq: "mem_eq_on S (mem s) (mem s')" "{0 ..< 0x1000000} \<subseteq> S"
    and same: "same_globals s s'" and j: "j0 + c \<le> 1024"
  shows "grown_pages s' h i t j0 n c"
proof -
  have g': "frame_map s (n + c)" "table_at s i t"
    "\<And>j. j < c \<Longrightarrow> load_page (mem s) (t + 4 * of_nat (j0 + j)) = heap_entry h (n + j)"
    using g by (simp_all add: grown_pages_def)
  have d: "unat (frames s) + 128 \<le> unat (kernel_directory s)" "unat (kernel_directory s) \<le> 0x2FA000"
    "unat t + 4096 \<le> 0x1000000" "i < 1024" using g' by (simp_all add: frame_map_def table_at_def)
  have "frame_map s' (n + c)" using same d
    by (intro frame_map_keep [OF g'(1) eq(1) subset_trans [OF _ eq(2)]]) (auto simp: same_globals_def)
  moreover have "table_at s' i t" using same d
    by (intro table_at_keep [OF g'(2) eq(1)] subset_trans [OF _ eq(2)]) (auto simp: same_globals_def)
  moreover have "load_page (mem s') (t + 4 * of_nat (j0 + j)) = load_page (mem s) (t + 4 * of_nat (j0 + j))" if "j < c" for j
    by (rule entry_keep(2) [OF g'(2) _ eq(1) subset_trans [OF _ eq(2)]]) (use d that j in auto)
  ultimately show ?thesis using g'(3) by (simp add: grown_pages_def)
qed

lemma page_round_up_nat:
  assumes "4096 \<le> a" "a < 4294967296"
  shows "page_round_up (of_nat a) = frame_address_of (a div 4096 + 1)"
proof -
  let ?w = "of_nat a :: uint32"
  have u: "unat ?w = a" using assms(2) by (rule unat_of_nat32)
  have m: "unat (?w mod 0x1000) = a mod 4096" by (simp add: unat_mod u)
  have le: "?w mod 0x1000 \<le> ?w" by (simp add: word_le_nat_alt m u)
  have l: "unat (?w AND 0xFFFFF000) = 4096 * (a div 4096)"
    unfolding and_page_mask unat_sub [OF le] m u by (simp add: minus_mod_eq_mult_div)
  then have "?w AND 0xFFFFF000 \<noteq> 0" using assms(1) by (auto simp: unat_eq_0)
  moreover have "?w AND 0xFFFFF000 = of_nat (4096 * (a div 4096))" unfolding l [symmetric] by simp
  ultimately show ?thesis by (simp add: page_round_up_def PAGE_SIZE_def frame_address_of_def algebra_simps)
qed

text \<open>
  The heap from page \<open>K\<close> on has \<open>L\<close> pages and can get \<open>c\<close> more: the page table \<open>t\<close> of the
  pages behind it has empty entries for them, \<open>c\<close> frames from \<open>n\<close> on are free, and
  max_address is not reached. The index lies above the page tables.
\<close>

definition growable :: "kstate \<Rightarrow> heap_t \<Rightarrow> nat \<Rightarrow> nat \<Rightarrow> uint32 \<Rightarrow> nat \<Rightarrow> nat \<Rightarrow> bool" where
  "growable s h K L t n c \<longleftrightarrow> frame_map s n \<and> n + c \<le> 1024
     \<and> start_address h = frame_address_of K \<and> end_address h = frame_address_of (K + L)
     \<and> 0x1000000 \<le> unat (array (index h)) \<and> 4096 * (K + L + c) \<le> unat (max_address h)
     \<and> (K + L) mod 1024 + c \<le> 1024 \<and> table_at s ((K + L) div 1024) t
     \<and> (\<forall>j < c. rd32 (mem s) (t + 4 * of_nat ((K + L) mod 1024 + j)) = 0)"

lemma growable_pages:
  assumes "growable s h K L t n c"
  shows "K + L + c < 1048576" "unat (start_address h) = 4096 * K" "unat (end_address h) = 4096 * (K + L)"
    "heap_length h = frame_address_of L"
    and "page_writes s t ((K + L) mod 1024) c \<subseteq> {0 ..< 0x1000000}"
proof -
  have "4096 * (K + L + c) < 4294967296"
    using assms unat_lt_2p32 [of "max_address h"] unfolding growable_def by linarith
  then show k: "K + L + c < 1048576" by simp
  show "unat (start_address h) = 4096 * K" "unat (end_address h) = 4096 * (K + L)"
    using assms k page_address(1) [of K] page_address(1) [of "K + L"] by (simp_all add: growable_def)
  show "heap_length h = frame_address_of L"
    using assms by (simp add: growable_def heap_length_def frame_address_of_def algebra_simps)
  show "page_writes s t ((K + L) mod 1024) c \<subseteq> {0 ..< 0x1000000}"
    using assms by (auto simp: growable_def page_writes_def frame_map_def table_at_def)
qed

lemma expand_grows:
  assumes g: "growable s h K L t n c" and kh: "kheap s = Some h" and L: "1 \<le> L" and ns: "0 < ns" "c = ns div 4096 + 1"
  shows "\<exists>m'. expand_with al (heap_length h + of_nat ns) s =
      Inr (s\<lparr>mem := m', kheap := Some (h\<lparr>end_address := frame_address_of (K + L + c)\<rparr>)\<rparr>)
    \<and> grown_pages (s\<lparr>mem := m'\<rparr>) h ((K + L) div 1024) t ((K + L) mod 1024) n c
    \<and> mem_eq_on (- page_writes s t ((K + L) mod 1024) c) (mem s) m'"
proof -
  note p = growable_pages [OF g]
  have gd: "start_address h = frame_address_of K" "table_at s ((K + L) div 1024) t"
    "\<forall>j < c. rd32 (mem s) (t + 4 * of_nat ((K + L) mod 1024 + j)) = 0" "frame_map s n" "n + c \<le> 1024"
    "(K + L) mod 1024 + c \<le> 1024" "4096 * (K + L + c) \<le> unat (max_address h)"
    using g by (simp_all add: growable_def)
  have nsc: "ns < 4096 * c" using ns(2) by (simp add: algebra_simps)
  have len: "heap_length h + of_nat ns = of_nat (4096 * L + ns)"
    by (simp add: p(4) frame_address_of_def algebra_simps)
  have b: "4096 * L + ns < 4294967296" using nsc p(1) by linarith
  have gt: "heap_length h < heap_length h + of_nat ns"
    unfolding len word_less_nat_alt unat_of_nat32 [OF b] using p(4) page_address(1) [of L] p(1) ns(1) by simp
  have "page_round_up (heap_length h + of_nat ns) = frame_address_of ((4096 * L + ns) div 4096 + 1)"
    unfolding len using b L by (intro page_round_up_nat) simp_all
  moreover have "(4096 * L + ns) div 4096 + 1 = L + c" using ns(2) by simp
  ultimately have ru: "page_round_up (heap_length h + of_nat ns) = frame_address_of (L + c)" by (simp only:)
  have end': "start_address h + frame_address_of (L + c) = frame_address_of (K + L + c)"
    by (simp add: gd(1) frame_address_of_def algebra_simps)
  have mx: "start_address h + frame_address_of (L + c) \<le> max_address h"
    unfolding end' using gd(7) page_address(1) [OF p(1)] by (simp add: word_le_nat_alt mult.commute)
  have ks: "\<forall>j < c. (K + L + j) div 1024 = (K + L) div 1024 \<and> (K + L + j) mod 1024 = (K + L) mod 1024 + j"
  proof (intro allI impI)
    fix j assume "j < c"
    then have r: "(K + L) mod 1024 + j < 1024" using gd(6) by linarith
    have e: "K + L + j = ((K + L) mod 1024 + j) + 1024 * ((K + L) div 1024)" by simp
    have "(K + L + j) div 1024 = (K + L) div 1024 + ((K + L) mod 1024 + j) div 1024"
      unfolding e by (rule div_mult_self2) simp
    moreover have "(K + L + j) mod 1024 = ((K + L) mod 1024 + j) mod 1024" unfolding e by (rule mod_mult_self2)
    ultimately show "(K + L + j) div 1024 = (K + L) div 1024 \<and> (K + L + j) mod 1024 = (K + L) mod 1024 + j"
      using r by simp
  qed
  have "c < page_fuel" using gd(6) by (simp add: page_fuel_def)
  from expand_pages [OF gd(4,5) ks p(1) gd(2,3) kh gd(1) this, of "kmalloc_ap_with al"] obtain m' where
    run: "expand_loop (kmalloc_ap_with al) page_fuel (frame_address_of L) (frame_address_of (L + c)) s = Inr (s\<lparr>mem := m'\<rparr>)"
    and rest: "grown_pages (s\<lparr>mem := m'\<rparr>) h ((K + L) div 1024) t ((K + L) mod 1024) n c"
      "mem_eq_on (- page_writes s t ((K + L) mod 1024) c) (mem s) m'" by blast
  have "expand_with al (heap_length h + of_nat ns) s =
      Inr (s\<lparr>mem := m', kheap := Some (h\<lparr>end_address := frame_address_of (K + L + c)\<rparr>)\<rparr>)"
    using gt mx kh run unfolding expand_with_def Let_def ru by (simp add: the_heap_def p(4) end')
  with rest show ?thesis by blast
qed

section \<open>The endmost hole\<close>

text \<open>
  What the search for the endmost hole returns from position \<open>i\<close> of the index on: the position of
  a largest address when one is above \<open>v\<close>, and \<open>idx\<close> otherwise.
\<close>

definition is_endmost :: "uint32 list \<Rightarrow> nat \<Rightarrow> uint32 \<Rightarrow> size_t \<Rightarrow> size_t \<Rightarrow> bool" where
  "is_endmost ws i v idx r \<longleftrightarrow>
     (if \<exists>x \<in> set (drop i ws). v < x
      then \<exists>k < length ws. r = of_nat k \<and> (\<forall>x \<in> set (drop i ws). x \<le> ws ! k)
      else r = idx)"

lemma is_endmost_greater:
  assumes i: "i < length ws" "v < ws ! i" and r: "is_endmost ws (Suc i) (ws ! i) (of_nat i) r"
  shows "is_endmost ws i v idx r"
proof -
  have d: "set (drop i ws) = insert (ws ! i) (set (drop (Suc i) ws))"
    using i(1) by (simp flip: Cons_nth_drop_Suc)
  have "\<exists>k < length ws. r = of_nat k \<and> (\<forall>x \<in> set (drop i ws). x \<le> ws ! k)"
  proof (cases "\<exists>y \<in> set (drop (Suc i) ws). ws ! i < y")
    case True
    with r obtain k y where k: "k < length ws" "r = of_nat k" "\<forall>y \<in> set (drop (Suc i) ws). y \<le> ws ! k"
      "y \<in> set (drop (Suc i) ws)" "ws ! i < y" by (auto simp: is_endmost_def)
    then have "ws ! i \<le> ws ! k" by (meson less_imp_le order_trans)
    then show ?thesis using k d by auto
  next
    case False
    then show ?thesis using r i(1) d by (intro exI [of _ i]) (auto simp: is_endmost_def not_less)
  qed
  then show ?thesis using i(2) d by (auto simp: is_endmost_def)
qed

lemma is_endmost_other:
  assumes i: "i < length ws" "\<not> v < ws ! i" and r: "is_endmost ws (Suc i) v idx r"
  shows "is_endmost ws i v idx r"
proof -
  have d: "set (drop i ws) = insert (ws ! i) (set (drop (Suc i) ws))"
    using i(1) by (simp flip: Cons_nth_drop_Suc)
  show ?thesis
  proof (cases "\<exists>y \<in> set (drop (Suc i) ws). v < y")
    case True
    with r obtain k y where k: "k < length ws" "r = of_nat k" "\<forall>y \<in> set (drop (Suc i) ws). y \<le> ws ! k"
      "y \<in> set (drop (Suc i) ws)" "v < y" by (auto simp: is_endmost_def)
    then have "ws ! i \<le> v" "v \<le> y" "y \<le> ws ! k" using i(2) by simp_all
    then have "ws ! i \<le> ws ! k" by (rule order_trans [OF order_trans])
    then show ?thesis using k d True by (auto simp: is_endmost_def)
  next
    case False
    then show ?thesis using r i(2) d by (auto simp: is_endmost_def)
  qed
qed

lemma endmost_loop_spec:
  assumes "i \<le> oa_size ix"
  shows "\<exists>r. endmost_loop ix m i idx v = Inr r \<and> is_endmost (oa_items ix m) (unat i) v idx r"
  using assms
proof (induction ix m i idx v rule: endmost_loop.induct)
  case (1 ix m i idx v)
  let ?x = "oa_items ix m ! unat i"
  show ?case
  proof (cases "i < oa_size ix")
    case True
    note i1 = unat_Suc_lt [OF True]
    have look: "lookup_ordered_array i ix m = Inr ?x"
      using True i1 by (simp add: lookup_ordered_array_def oa_items_def)
    have le: "i + 1 \<le> oa_size ix" using i1 by (simp add: word_le_nat_alt)
    have l: "unat i < length (oa_items ix m)" using i1 by simp
    have "endmost_loop ix m i idx v = (if v < ?x then endmost_loop ix m (i + 1) i ?x else endmost_loop ix m (i + 1) idx v)"
      using True look by (simp add: endmost_loop.simps [of ix m i])
    then show ?thesis
      using "1.IH"(1) [OF True look _ le] "1.IH"(2) [OF True look _ le]
        is_endmost_greater [OF l] is_endmost_other [OF l] i1
      by (cases "v < ?x") auto
  next
    case False
    then have "i = oa_size ix" using "1.prems" by simp
    then show ?thesis by (simp add: endmost_loop.simps [of ix m "oa_size ix"] is_endmost_def)
  qed
qed

text \<open>In a heap whose last hole is followed only by blocks, that hole is the endmost one.\<close>

lemma endmost_hole:
  assumes rep: "heap_rep s h (xs @ (n0, True) # ys)" and ys: "\<forall>seg \<in> set ys. \<not> snd seg"
    and a: "a = unat (start_address h) + seg_size xs"
    and ix: "oa_items ix m = oa_items (index h) (mem s)" "oa_size ix = oa_size (index h)"
  shows "\<exists>r. endmost_loop ix m 0 (-1) 0 = Inr r \<and> r \<noteq> -1 \<and> r < oa_size ix \<and> oa_items ix m ! unat r = of_nat a"
proof -
  let ?S = "unat (start_address h)" and ?ws = "oa_items (index h) (mem s)"
  have ch: "chain (mem s) ?S (xs @ (n0, True) # ys) (unat (end_address h))" and ok: "index_ok h"
    and items: "mset ?ws = mset (map of_nat (holes_at ?S (xs @ (n0, True) # ys)))"
    using rep by (simp_all add: heap_rep_def)
  note c = chain_split [OF ch, folded a]
  have E: "unat (end_address h) < 4294967296" by simp
  have ua: "unat (of_nat a :: uint32) = a" by (intro unat_of_nat32) (use c(4,5) E in linarith)
  have "holes_at b ys = []" for b using ys by (induction ys arbitrary: b) auto
  then have hs: "set (holes_at ?S (xs @ (n0, True) # ys)) = set (holes_at ?S xs) \<union> {a}"
    by (simp add: holes_at_append a)
  have le: "p \<le> a" if "p \<in> set (holes_at ?S xs)" for p
    using holes_at_split [OF that] a by auto
  have set: "set ?ws = of_nat ` set (holes_at ?S (xs @ (n0, True) # ys))" using mset_eq_setD [OF items] by simp
  have max: "x \<le> of_nat a" if "x \<in> set ?ws" for x
  proof -
    from that obtain p where p: "x = of_nat p" "p \<le> a" using set hs le by auto
    then have "p < 4294967296" using c(4,5) E by linarith
    then show ?thesis using p ua by (simp add: word_le_nat_alt unat_of_nat32)
  qed
  have ain: "of_nat a \<in> set ?ws" using set hs by simp
  have "0 < ?S" using ok by (simp add: index_ok_def)
  then have "unat (0 :: uint32) < unat (of_nat a :: uint32)" unfolding ua using a by simp
  then have "(0 :: uint32) < of_nat a" by (simp only: word_less_nat_alt)
  then have ex: "\<exists>x \<in> set ?ws. 0 < x" using ain by auto
  obtain r where r: "endmost_loop ix m 0 (-1) 0 = Inr r" "is_endmost (oa_items ix m) 0 0 (-1) r"
    using endmost_loop_spec [of 0 ix m "-1" 0] by auto
  then obtain k where k: "endmost_loop ix m 0 (-1) 0 = Inr (of_nat k)" "k < unat (oa_size ix)" "\<forall>x \<in> set ?ws. x \<le> ?ws ! k"
    using ex ix by (auto simp: is_endmost_def)
  have "?ws ! k \<in> set ?ws" using k(2) ix(2) by simp
  then have "?ws ! k = of_nat a" using max k(3) ain by (blast intro: antisym)
  moreover have "unat (oa_size ix) + 1 < 4294967296" unfolding ix(2) using oa_fits_small [OF index_fits [OF ok]] .
  then have uk: "unat (of_nat k :: uint32) = k" "unat (of_nat (k + 1) :: uint32) = k + 1"
    using k(2) by (intro unat_of_nat32, simp)+
  moreover have "(of_nat k :: uint32) \<noteq> -1"
  proof
    assume "(of_nat k :: uint32) = -1"
    then have "(of_nat (k + 1) :: uint32) = 0" by simp
    then show False using uk(2) by simp
  qed
  ultimately show ?thesis using k ix by (intro exI [of _ "of_nat k"]) (simp add: word_less_nat_alt)
qed

section \<open>alloc_grow\<close>

text \<open>The bytes of the heap's fields do not lie in the pages that expand writes.\<close>

lemma low_disjoint:
  assumes "mem_eq_on (- page_writes s t j0 c) m m'" "page_writes s t j0 c \<subseteq> {0 ..< 0x1000000}"
  shows "mem_eq_on {0x1000000 ..} m m'"
  by (rule mem_eq_on_mono [OF assms(1)]) (use assms(2) in auto)

lemma write_grown_hole:
  assumes hd: "header_at m a n0 True" and N: "20 \<le> N" "a + N \<le> 4294967296"
    and m3: "m3 = set_ftr_magic (of_nat (a + N - 8)) HEAP_MAGIC (set_ftr_header (of_nat (a + N - 8)) (of_nat a)
      (set_hdr_size (of_nat a) (of_nat N) m))"
  shows "header_at m3 a N True" "footer_at m3 a N"
    "mem_eq_on (- ({a + 8 ..< a + 12} \<union> {a + N - 8 ..< a + N})) m m3"
proof -
  let ?f = "a + N - 8"
  have b: "a + 12 \<le> 4294967296" "?f + 8 \<le> 4294967296" using N by linarith+
  note u = unat_field [OF b(1)] unat_footer_field [OF b(2)]
  let ?m1 = "set_hdr_size (of_nat a) (of_nat N) m"
  have "header_at ?m1 a N True" using hd b(1) by (simp add: header_at_def hdr_defs mem_simps u)
  have e1: "mem_eq_on (- {a + 8 ..< a + 12}) m ?m1"
    unfolding hdr_defs using b(1) by (intro mem_eq_on_wr32) (auto simp: u)
  have e2: "mem_eq_on (- {?f ..< ?f + 8}) ?m1 m3"
    unfolding m3 ftr_defs using b(2) by (intro mem_eq_on_wr32_step mem_eq_on_refl) (auto simp del: of_nat_diff simp: u)
  have "{a ..< a + 12} \<subseteq> - {?f ..< ?f + 8}" using N by auto
  from header_at_eq_on [OF e2 this b(1)] \<open>header_at ?m1 a N True\<close> show "header_at m3 a N True" by simp
  show "footer_at m3 a N"
    using b(2) unfolding footer_at_def m3 ftr_defs by (simp del: of_nat_diff add: mem_simps u)
  have "?f + 8 = a + N" using N by simp
  then show "mem_eq_on (- ({a + 8 ..< a + 12} \<union> {?f ..< a + N})) m m3"
    using e1 e2 by (auto simp: mem_eq_on_def)
qed

lemma growable_length:
  assumes g: "growable s h K L t n c" and h1: "h1 = h\<lparr>end_address := frame_address_of (K + L + c)\<rparr>"
  shows "heap_length h1 - heap_length h = of_nat (4096 * c)"
  using growable_pages(4) [OF g] g unfolding h1
  by (simp add: heap_length_def growable_def frame_address_of_def algebra_simps)

lemma grow_endmost:
  assumes rep: "heap_rep s h (xs @ (n0, True) # ys)" and ys: "\<forall>seg \<in> set ys. \<not> snd seg"
    and g: "growable s h K L t n c" and ns: "0 < ns" "c = ns div 4096 + 1"
    and a: "a = unat (start_address h) + seg_size xs"
    and h1: "h1 = h\<lparr>end_address := frame_address_of (K + L + c)\<rparr>" and j0: "j0 = (K + L) mod 1024"
  shows "\<exists>m'. alloc_grow al (of_nat ns) s = Inr (s\<lparr>mem := m', kheap := Some h1\<rparr>)
    \<and> header_at m' a (n0 + 4096 * c) True \<and> footer_at m' a (n0 + 4096 * c)
    \<and> grown_pages (s\<lparr>mem := m', kheap := Some h1\<rparr>) h ((K + L) div 1024) t j0 n c
    \<and> mem_eq_on (- (page_writes s t j0 c \<union> {a + 8 ..< a + 12} \<union> {a + n0 + 4096 * c - 8 ..< a + n0 + 4096 * c})) (mem s) m'"
proof -
  let ?S = "unat (start_address h)" and ?N = "n0 + 4096 * c"
  have kh: "kheap s = Some h" and ch: "chain (mem s) ?S (xs @ (n0, True) # ys) (unat (end_address h))" and ok: "index_ok h"
    using rep by (simp_all add: heap_rep_def)
  note p = growable_pages [OF g] and cs = chain_split [OF ch, folded a]
  have low: "0x1000000 \<le> unat (array (index h))" and j: "j0 + c \<le> 1024" using g j0 by (simp_all add: growable_def)
  have aS: "0x1000000 \<le> a" using ok low a by (simp add: index_ok_def)
  have "a + n0 \<le> 4096 * (K + L)" using cs(4) p(3) by simp
  then have "a + ?N \<le> 4096 * (K + L + c)" by simp
  also have "\<dots> \<le> 4294967296" using p(1) by simp
  finally have "a + ?N \<le> 4294967296" .
  with cs(5) have aN: "a + ?N \<le> 4294967296" "20 \<le> ?N" by simp_all
  have "1 \<le> L" using cs(4,5) p(2,3) a by (cases L) simp_all
  from expand_grows [OF g kh this ns, of al] obtain m1 where
    ex: "expand_with al (heap_length h + of_nat ns) s = Inr (s\<lparr>mem := m1, kheap := Some h1\<rparr>)"
    and pages: "grown_pages (s\<lparr>mem := m1\<rparr>) h ((K + L) div 1024) t j0 n c"
    and eq1: "mem_eq_on (- page_writes s t j0 c) (mem s) m1" unfolding h1 j0 by blast
  have hi: "mem_eq_on {0x1000000 ..} (mem s) m1" using low_disjoint [OF eq1] p(5) j0 by simp
  have items: "oa_items (index h) m1 = oa_items (index h) (mem s)"
    using low by (intro items_eq_on [OF ok hi]) (auto simp: index_region_def)
  from endmost_hole [OF rep ys a, of "index h1" m1] items obtain r where
    r: "endmost_loop (index h1) m1 0 (-1) 0 = Inr r" "r \<noteq> -1" "r < oa_size (index h)" "oa_items (index h) m1 ! unat r = of_nat a"
    by (auto simp: h1)
  have hd1: "header_at m1 a n0 True" using cs(6) aS aN by (subst header_at_eq_on [OF hi]) auto
  then have N: "hdr_size m1 (of_nat a) + (heap_length h1 - heap_length h) = of_nat ?N"
    by (simp add: header_at_def growable_length [OF g h1])
  let ?s1 = "s\<lparr>mem := m1, kheap := Some h1\<rparr>"
  have look: "lookup_index r ?s1 = Inr (of_nat a)"
    using lookup_index_eq [of ?s1 h1 r] r(3,4) by (simp add: h1)
  define m2 where "m2 = set_hdr_size (of_nat a) (of_nat ?N) m1"
  have "hdr_size m2 (of_nat a) = of_nat ?N" by (simp add: m2_def hdr_defs)
  then have f: "of_nat a + hdr_size m2 (of_nat a) - sizeof_footer_t = of_nat (a + ?N - 8)"
    using aN(2) by (simp add: sizeof_defs of_nat_diff)
  define m3 where "m3 = set_ftr_magic (of_nat (a + ?N - 8)) HEAP_MAGIC (set_ftr_header (of_nat (a + ?N - 8)) (of_nat a) m2)"
  note w = write_grown_hole [OF hd1 aN(2,1) m3_def [unfolded m2_def]]
  have run: "alloc_grow al (of_nat ns) s = Inr (?s1\<lparr>mem := m3\<rparr>)"
    unfolding alloc_grow_def Let_def using kh ex r(1,2) look N f by (simp add: the_heap_def m3_def m2_def)
  have "grown_pages (s\<lparr>mem := m3, kheap := Some h1\<rparr>) h ((K + L) div 1024) t j0 n c"
    by (rule grown_pages_keep [OF pages _ _ _ j]) (use w(3) aS aN(2) in \<open>auto simp: same_globals_def\<close>)
  moreover have "mem_eq_on (- (page_writes s t j0 c \<union> {a + 8 ..< a + 12} \<union> {a + ?N - 8 ..< a + ?N})) (mem s) m3"
    by (rule mem_eq_on_trans [OF mem_eq_on_mono [OF eq1] mem_eq_on_mono [OF w(3)]]) auto
  ultimately show ?thesis using run w(1,2) by (intro exI [of _ m3]) (simp add: add.assoc)
qed

text \<open>The layout after the heap has grown: a hole at its end.\<close>

lemma heap_rep_grown:
  assumes rep: "heap_rep s h segs" and st: "strict_chain (mem s) (unat (start_address h)) xs a"
    and hd: "header_at m' a N True" "20 \<le> N" and e: "unat e = a + N"
    and eq: "mem_eq_on (- (W \<union> index_region h \<union> {a ..})) (mem s) m'" "W \<subseteq> {0 ..< 0x1000000}"
    and low: "0x1000000 \<le> unat (array (index h))"
    and h': "h' = h\<lparr>end_address := e, index := ix\<rparr>" "index_ok h'"
    and items: "mset (oa_items ix m') = mset (map of_nat (holes_at (unat (start_address h)) (xs @ [(N, True)])))"
  shows "heap_rep (s\<lparr>mem := m', kheap := Some h'\<rparr>) h' (xs @ [(N, True)])"
proof -
  let ?S = "unat (start_address h)"
  have ok: "index_ok h" and low8: "ftr_magic (mem s) (start_address h - 8) \<noteq> HEAP_MAGIC"
    using rep by (simp_all add: heap_rep_def)
  have S: "0x1000000 + 8 \<le> ?S" using ok low by (simp add: index_ok_def)
  have a: "a = ?S + seg_size xs" by (rule strict_chain_end [OF st])
  have a32: "a \<le> 4294967296" using e unat_lt_2p32 [of e] by linarith
  have reg: "{?S ..< a} \<subseteq> - (W \<union> index_region h \<union> {a ..})"
    using eq(2) S by (auto simp: index_region_def)
  from strict_chain_eq_on [OF st eq(1) reg a32] have "strict_chain m' ?S xs (?S + seg_size xs)" using a by simp
  then have "chain m' ?S (xs @ [(N, True)]) (unat e)"
    using hd e by (subst chain_append) (simp_all flip: a)
  moreover have "unat (start_address h - 8) = ?S - 8" using S by (subst unat_minus_le) simp_all
  then have "ftr_magic m' (start_address h - 8) = ftr_magic (mem s) (start_address h - 8)"
    using S a a32 unat_lt_2p32 [of "start_address h"] unfolding ftr_defs
    by (intro mem_eq_on_rd32 [OF eq(1)]) (auto simp: index_region_def simp del: unat_lt_2p32 dest!: subsetD [OF eq(2)])
  ultimately show ?thesis using h' items low8 by (simp add: heap_rep_def)
qed

lemma grow_last:
  assumes rep: "heap_rep s h (xs @ [(n0, True)])"
    and g: "growable s h K L t n c" and ns: "0 < ns" "c = ns div 4096 + 1"
    and a: "a = unat (start_address h) + seg_size xs" and j0: "j0 = (K + L) mod 1024"
  shows "\<exists>s1 h1. alloc_grow al (of_nat ns) s = Inr s1 \<and> heap_rep s1 h1 (xs @ [(n0 + 4096 * c, True)])
    \<and> start_address h1 = start_address h \<and> array (index h1) = array (index h) \<and> unat (end_address h1) = unat (end_address h) + 4096 * c
    \<and> same_globals s s1 \<and> grown_pages s1 h ((K + L) div 1024) t j0 n c
    \<and> mem_eq_on (- (page_writes s t j0 c \<union> index_region h \<union> {a ..< unat (end_address h1)})) (mem s) (mem s1)"
proof -
  let ?S = "unat (start_address h)" and ?N = "n0 + 4096 * c"
  define h1 where "h1 = h\<lparr>end_address := frame_address_of (K + L + c)\<rparr>"
  have ch: "chain (mem s) ?S (xs @ [(n0, True)]) (unat (end_address h))" and ok: "index_ok h"
    and items: "mset (oa_items (index h) (mem s)) = mset (map of_nat (holes_at ?S (xs @ [(n0, True)])))"
    using rep by (simp_all add: heap_rep_def)
  note p = growable_pages [OF g] and cs = chain_split [OF ch, folded a]
  have low: "0x1000000 \<le> unat (array (index h))" using g by (simp add: growable_def)
  from grow_endmost [OF rep _ g ns a h1_def j0, of al] obtain m' where
    run: "alloc_grow al (of_nat ns) s = Inr (s\<lparr>mem := m', kheap := Some h1\<rparr>)" and hd: "header_at m' a ?N True"
    and pages: "grown_pages (s\<lparr>mem := m', kheap := Some h1\<rparr>) h ((K + L) div 1024) t j0 n c"
    and eq: "mem_eq_on (- (page_writes s t j0 c \<union> {a + 8 ..< a + 12} \<union> {a + n0 + 4096 * c - 8 ..< a + n0 + 4096 * c})) (mem s) m'"
    by auto
  have e: "unat (end_address h1) = a + ?N" using cs(4) p(1,3) page_address(1) [of "K + L + c"] by (simp add: h1_def)
  have sub: "- (page_writes s t j0 c \<union> index_region h \<union> {a ..< unat (end_address h1)})
      \<subseteq> - (page_writes s t j0 c \<union> {a + 8 ..< a + 12} \<union> {a + n0 + 4096 * c - 8 ..< a + n0 + 4096 * c})"
    using e cs(5) by auto
  note eq' = mem_eq_on_mono [OF eq sub]
  have "index_region h \<inter> page_writes s t j0 c = {}" using p(5) low j0 by (auto simp: index_region_def)
  then have it: "oa_items (index h) m' = oa_items (index h) (mem s)"
    using a cs(5) by (intro items_eq_on [OF ok eq]) (auto simp: index_region_def)
  have "heap_rep (s\<lparr>mem := m', kheap := Some h1\<rparr>) h1 (xs @ [(?N, True)])"
  proof (rule heap_rep_grown [OF rep, of xs a m' ?N "end_address h1" "page_writes s t j0 c" h1 "index h"])
    show "mem_eq_on (- (page_writes s t j0 c \<union> index_region h \<union> {a ..})) (mem s) m'"
      by (rule mem_eq_on_mono [OF eq']) auto
    show "page_writes s t j0 c \<subseteq> {0 ..< 0x1000000}" using p(5) j0 by simp
  qed (use cs(1,5) a hd e low ok items it in \<open>auto simp: h1_def index_ok_def holes_at_append\<close>)
  then show ?thesis
    using run pages eq' e cs(4) by (intro exI [of _ "s\<lparr>mem := m', kheap := Some h1\<rparr>"] exI [of _ h1]) (simp add: h1_def)
qed

text \<open>Without any hole the new pages become one.\<close>

lemma blocks_strict_chain:
  assumes "chain m a xs e" "\<forall>seg \<in> set xs. \<not> snd seg"
  shows "strict_chain m a xs e" "holes_at b xs = []"
proof -
  show "strict_chain m a xs e" using assms by (induction m a xs e rule: chain.induct) auto
  show "holes_at b xs = []" using assms(2) by (induction xs arbitrary: b) auto
qed

lemma write_new_hole:
  assumes N: "20 \<le> N" "a + N \<le> 4294967296"
    and m2: "m2 = set_hdr_is_hole (of_nat a) 1 (set_hdr_size (of_nat a) (of_nat N) (set_hdr_magic (of_nat a) HEAP_MAGIC m))"
    and m3: "m3 = write_footer (of_nat (a + N - 8)) (of_nat a) m2"
  shows "header_at m3 a N True" "mem_eq_on (- {a ..< a + N}) m m3" "hdr_size m2 (of_nat a) = of_nat N"
proof -
  have b: "a + 12 \<le> 4294967296" "a + N - 8 + 8 \<le> 4294967296" using N by linarith+
  have hd: "header_at m2 a N True" unfolding m2 using b(1) by (simp add: header_at_def hdr_defs mem_simps unat_field)
  then show "hdr_size m2 (of_nat a) = of_nat N" by (simp add: header_at_def)
  have "mem_eq_on {a ..< a + 12} m2 m3" unfolding m3 using b N by (intro write_footer_eq_on) auto
  from header_at_eq_on [OF this order_refl b(1)] hd show "header_at m3 a N True" by simp
  have "- {a ..< a + N} \<inter> {a ..< a + 12} = {}" using N by auto
  from set_hdr_eq_on [OF this b(1)] have "mem_eq_on (- {a ..< a + N}) m m2"
    unfolding m2 by (blast intro: mem_eq_on_trans)
  moreover have "mem_eq_on (- {a ..< a + N}) m2 m3" unfolding m3 using b N by (intro write_footer_eq_on) auto
  ultimately show "mem_eq_on (- {a ..< a + N}) m m3" by (rule mem_eq_on_trans)
qed

lemma grow_no_hole:
  assumes rep: "heap_rep s h xs" "xs \<noteq> []" "\<forall>seg \<in> set xs. \<not> snd seg"
    and room: "unat (array (index h)) + 16 \<le> unat (start_address h)"
    and g: "growable s h K L t n c" and ns: "0 < ns" "c = ns div 4096 + 1"
    and a: "a = unat (start_address h) + seg_size xs" and j0: "j0 = (K + L) mod 1024"
  shows "\<exists>s1 h1. alloc_grow al (of_nat ns) s = Inr s1 \<and> heap_rep s1 h1 (xs @ [(4096 * c, True)])
    \<and> start_address h1 = start_address h \<and> array (index h1) = array (index h) \<and> unat (end_address h1) = unat (end_address h) + 4096 * c
    \<and> same_globals s s1 \<and> grown_pages s1 h ((K + L) div 1024) t j0 n c
    \<and> mem_eq_on (- (page_writes s t j0 c \<union> index_region h \<union> {a ..< unat (end_address h1)})) (mem s) (mem s1)"
proof -
  let ?S = "unat (start_address h)" and ?N = "4096 * c" and ?e = "frame_address_of (K + L + c)"
  let ?h1 = "h\<lparr>end_address := ?e\<rparr>"
  have kh: "kheap s = Some h" and ch: "chain (mem s) ?S xs (unat (end_address h))" and ok: "index_ok h"
    and items: "mset (oa_items (index h) (mem s)) = mset (map of_nat (holes_at ?S xs))"
    using rep(1) by (simp_all add: heap_rep_def)
  note p = growable_pages [OF g] and st = blocks_strict_chain [OF ch rep(3)]
  have low: "0x1000000 \<le> unat (array (index h))" and j: "j0 + c \<le> 1024" using g j0 by (simp_all add: growable_def)
  have e: "a = 4096 * (K + L)" "unat (end_address h) = a" "unat ?e = a + ?N"
    using chain_end [OF ch] a p(1,3) page_address(1) [of "K + L + c"] by simp_all
  have N: "20 \<le> ?N" "a + ?N \<le> 4294967296" using ns(2) e p(1) by simp_all
  have len: "oa_items (index h) (mem s) = []" using items st(2) by simp
  then have sz0: "oa_size (index h) = 0" by (metis length_oa_items list.size(3) unat_eq_zero)
  have "xs \<noteq> [] \<Longrightarrow> 20 \<le> seg_size xs" using ch by (cases xs) auto
  then have "1 \<le> L" using rep(2) a e(1) p(2) by (cases L) simp_all
  from expand_grows [OF g kh this ns, of al] obtain m1 where
    ex: "expand_with al (heap_length h + of_nat ns) s = Inr (s\<lparr>mem := m1, kheap := Some ?h1\<rparr>)"
    and pages: "grown_pages (s\<lparr>mem := m1\<rparr>) h ((K + L) div 1024) t j0 n c"
    and eq1: "mem_eq_on (- page_writes s t j0 c) (mem s) m1" unfolding j0 by blast
  have idx: "endmost_loop (index h) m1 0 (-1) 0 = Inr (-1)" by (simp add: endmost_loop.simps [of _ _ 0] sz0)
  have ea: "end_address h = of_nat a" using e(2) by (metis of_nat_unat ucast_id)
  define m2 where "m2 = set_hdr_is_hole (of_nat a) 1 (set_hdr_size (of_nat a) (of_nat ?N) (set_hdr_magic (of_nat a) HEAP_MAGIC m1))"
  define m3 where "m3 = write_footer (of_nat (a + ?N - 8)) (of_nat a) m2"
  note w = write_new_hole [OF N m2_def m3_def]
  let ?s2 = "s\<lparr>mem := m3, kheap := Some ?h1\<rparr>"
  have ok1: "index_ok ?h1" using ok by (simp add: index_ok_def)
  have "kheap ?s2 = Some ?h1" by simp
  from insert_index_eq [OF this ok1, of "of_nat a"] obtain m4 h2 where
    ins: "insert_index (of_nat a) ?s2 = Inr (s\<lparr>mem := m4, kheap := Some h2\<rparr>)"
    and h2: "h2 = ?h1\<lparr>index := (index h)\<lparr>oa_size := oa_size (index h) + 1\<rparr>\<rparr>"
    and it4: "mset (oa_items (index h2) m4) = add_mset (of_nat a) (mset (oa_items (index h) m3))"
    and eq4: "mem_eq_on (- index_region h) m3 m4" by (auto simp: index_region_def)
  have f: "of_nat a + hdr_size m2 (of_nat a) - sizeof_footer_t = of_nat (a + ?N - 8)"
    using N(1) w(3) by (simp add: sizeof_defs of_nat_diff)
  have run: "alloc_grow al (of_nat ns) s = Inr (s\<lparr>mem := m4, kheap := Some h2\<rparr>)"
    unfolding alloc_grow_def Let_def ea using kh ex idx ins f growable_length [OF g refl]
    by (simp add: the_heap_def m2_def m3_def write_footer_def ea)
  have aS: "0x1000000 \<le> a" "0x1000000 + 8 \<le> ?S" using ok low a by (simp_all add: index_ok_def)
  have ns1: "oa_items (index h) m3 = []" using sz0 by (simp add: oa_items_def)
  have eq: "mem_eq_on (- (page_writes s t j0 c \<union> index_region h \<union> {a ..< a + ?N})) (mem s) m4"
    by (rule mem_eq_on_trans [OF mem_eq_on_mono [OF eq1] mem_eq_on_trans [OF mem_eq_on_mono [OF w(2)] mem_eq_on_mono [OF eq4]]]) auto
  have hd4: "header_at m4 a ?N True"
    using w(1) N a by (subst header_in_chain_eq_on [OF eq4]) auto
  have "heap_rep (s\<lparr>mem := m4, kheap := Some h2\<rparr>) h2 (xs @ [(?N, True)])"
  proof (rule heap_rep_grown [OF rep(1), of xs a m4 ?N ?e "page_writes s t j0 c" h2 "index h2"])
    show "mem_eq_on (- (page_writes s t j0 c \<union> index_region h \<union> {a ..})) (mem s) m4"
      by (rule mem_eq_on_mono [OF eq]) auto
    show "page_writes s t j0 c \<subseteq> {0 ..< 0x1000000}" using p(5) j0 by simp
    show "strict_chain (mem s) ?S xs a" using st(1) e(2) by simp
    show "mset (oa_items (index h2) m4) = mset (map of_nat (holes_at ?S (xs @ [(?N, True)])))"
      using it4 ns1 st(2) a by (simp add: holes_at_append)
  qed (use e hd4 N low room ok sz0 in \<open>auto simp: h2 index_ok_def\<close>)
  moreover have "mem_eq_on {0 ..< 0x1000000} m1 m4"
    by (rule mem_eq_on_trans [OF mem_eq_on_mono [OF w(2)] mem_eq_on_mono [OF eq4]])
      (use aS low in \<open>auto simp: index_region_def\<close>)
  then have "grown_pages (s\<lparr>mem := m4, kheap := Some h2\<rparr>) h ((K + L) div 1024) t j0 n c"
    by (intro grown_pages_keep [OF pages _ _ _ j]) (auto simp: same_globals_def)
  ultimately show ?thesis
    using run eq e by (intro exI [of _ "s\<lparr>mem := m4, kheap := Some h2\<rparr>"] exI [of _ h2]) (simp add: h2)
qed

section \<open>alloc when no hole fits\<close>

lemma alloc_no_hole_fits:
  assumes rep: "heap_rep s h segs" and small: "unat sz + 20 < 4294967296"
    and none: "\<And>m. (m, True) \<in> set segs \<Longrightarrow> m < unat sz + 20"
  shows "alloc (Suc fuel) sz 0 s =
    res_bind (alloc_grow (alloc fuel) (of_nat (unat sz + 20)) s) (\<lambda>s1. alloc fuel sz 0 s1)"
proof -
  let ?new = "sz + sizeof_header_t + sizeof_footer_t"
  have kh: "kheap s = Some h" using rep by (simp add: heap_rep_def)
  have new: "?new = of_nat (unat sz + 20)" by (simp add: sizeof_defs)
  have unew: "unat ?new = unat sz + 20" unfolding new using small by (rule unat_of_nat32)
  have "\<not> hole_fits ?new 0 (mem s) x" if "x \<in> set (oa_items (index h) (mem s))" for x
  proof -
    from rep_hole_size [OF rep that] obtain xs m ys where
      m: "segs = xs @ (m, True) # ys" "hdr_size (mem s) x = of_nat m" "m < 4294967296" by blast
    then have "m < unat sz + 20" by (intro none) simp
    then show ?thesis unfolding hole_fits_unaligned [OF m(2,3)] unew by simp
  qed
  from find_none [OF kh this] show ?thesis by (simp only: alloc.simps(2) Let_def res_bind_simps simp_thms if_True new)
qed

text \<open>The last segment of the layout when it is a hole: its size, and the segments before it.\<close>

definition end_hole :: "seg list \<Rightarrow> nat" where
  "end_hole segs = (if segs \<noteq> [] \<and> snd (last segs) then fst (last segs) else 0)"

definition before_end_hole :: "seg list \<Rightarrow> seg list" where
  "before_end_hole segs = (if segs \<noteq> [] \<and> snd (last segs) then butlast segs else segs)"

text \<open>
  C5: alloc without alignment, when no hole is large enough and either the heap ends in a hole
  or has none, grows the heap by one page more than the request fills (its 20 bytes of headers included):
  the pages get the next free frames, they are joined with the hole at the end, and the block is
  carved out of the result; the layout is kept, and besides the bitmap, the new entries of the
  page table and the index nothing is written but that hole.
\<close>

theorem alloc_grows_heap:
  assumes rep: "heap_rep s h segs" "segs \<noteq> []" and small: "unat sz + 20 < 4294967296"
    and none: "\<forall>m. (m, True) \<in> set segs \<longrightarrow> m < unat sz + 20"
    and ends: "snd (last segs) \<or> (\<forall>seg \<in> set segs. \<not> snd seg) \<and> unat (array (index h)) + 16 \<le> unat (start_address h)"
    and g: "growable s h K L t n c" and c: "c = (unat sz + 20) div 4096 + 1"
    and a: "a = unat (start_address h) + seg_size (before_end_hole segs)"
  shows "\<exists>s' h'. alloc (Suc (Suc fuel)) sz 0 s = Inr (of_nat (a + 12), s')
    \<and> heap_rep s' h' (before_end_hole segs @ carve (end_hole segs + 4096 * c) (unat sz + 20))
    \<and> start_address h' = start_address h \<and> unat (end_address h') = unat (end_address h) + 4096 * c
    \<and> grown_pages s' h ((K + L) div 1024) t ((K + L) mod 1024) n c
    \<and> mem_eq_on (- (page_writes s t ((K + L) mod 1024) c \<union> index_region h \<union> {a ..< unat (end_address h')})) (mem s) (mem s')"
proof -
  let ?xs = "before_end_hole segs" and ?N = "end_hole segs + 4096 * c" and ?j = "(K + L) mod 1024"
  have ns: "0 < unat sz + 20" by simp
  have grown: "\<exists>s1 h1. alloc_grow (alloc (Suc fuel)) (of_nat (unat sz + 20)) s = Inr s1 \<and> heap_rep s1 h1 (?xs @ [(?N, True)])
    \<and> start_address h1 = start_address h \<and> array (index h1) = array (index h) \<and> unat (end_address h1) = unat (end_address h) + 4096 * c
    \<and> same_globals s s1 \<and> grown_pages s1 h ((K + L) div 1024) t ?j n c
    \<and> mem_eq_on (- (page_writes s t ?j c \<union> index_region h \<union> {a ..< unat (end_address h1)})) (mem s) (mem s1)"
  proof (cases "snd (last segs)")
    case True
    then have "segs = ?xs @ [(end_hole segs, True)]" using rep(2)
      by (metis before_end_hole_def end_hole_def append_butlast_last_id prod.collapse)
    with rep(1) have "heap_rep s h (?xs @ [(end_hole segs, True)])" by simp
    from grow_last [OF this g ns c a refl] show ?thesis .
  next
    case False
    then have e: "?xs = segs" "end_hole segs = 0" by (simp_all add: before_end_hole_def end_hole_def)
    have "\<forall>seg \<in> set segs. \<not> snd seg" "unat (array (index h)) + 16 \<le> unat (start_address h)" using ends False by blast+
    from grow_no_hole [OF rep this g ns c a [unfolded e] refl] show ?thesis unfolding e by simp
  qed
  then obtain s1 h1 where run: "alloc_grow (alloc (Suc fuel)) (of_nat (unat sz + 20)) s = Inr s1"
    and rep1: "heap_rep s1 h1 (?xs @ [(?N, True)])"
    and h1: "start_address h1 = start_address h" "array (index h1) = array (index h)" "unat (end_address h1) = unat (end_address h) + 4096 * c"
    and pages: "same_globals s s1" "grown_pages s1 h ((K + L) div 1024) t ?j n c"
    and eq: "mem_eq_on (- (page_writes s t ?j c \<union> index_region h \<union> {a ..< unat (end_address h1)})) (mem s) (mem s1)" by blast
  have fits: "unat sz + 20 \<le> ?N" unfolding c by simp
  have "(?N, True) \<in> set (?xs @ [(?N, True)])" by simp
  from alloc_fits [OF rep1 small this fits, of fuel] obtain xs m ys s' h' ix m' where
    sp: "?xs @ [(?N, True)] = xs @ (m, True) # ys" "unat sz + 20 \<le> m"
    and al: "alloc (Suc fuel) sz 0 s1 = Inr (of_nat (unat (start_address h1) + seg_size xs + 12), s')"
    and rep': "heap_rep s' h' (xs @ carve m (unat sz + 20) @ ys)" "h' = h1\<lparr>index := ix\<rparr>" "s' = s1\<lparr>mem := m', kheap := Some h'\<rparr>"
    and eq': "mem_eq_on (- ({unat (start_address h1) + seg_size xs ..< unat (start_address h1) + seg_size xs + m}
         \<union> index_region h1)) (mem s1) m'" by blast
  have "set ?xs \<subseteq> set segs" by (auto simp: before_end_hole_def dest: in_set_butlastD)
  then have "(m, True) \<notin> set ?xs" using none sp(2) by fastforce
  then have s: "xs = ?xs" "m = ?N" "ys = []" using sp(1) by (cases ys rule: rev_cases; auto)+
  have ir: "index_region h1 = index_region h" using h1 by (simp add: index_region_def)
  have aN: "a + ?N = unat (end_address h1)" using rep1 chain_end a h1(1) by (fastforce simp: heap_rep_def)
  have "0x1000000 \<le> unat (array (index h))" "?j + c \<le> 1024" using g by (simp_all add: growable_def)
  moreover have "unat (array (index h)) \<le> unat (start_address h)" using rep(1) by (simp add: heap_rep_def index_ok_def)
  ultimately have "grown_pages s' h ((K + L) div 1024) t ?j n c"
    by (intro grown_pages_keep [OF pages(2), of _ s']) (use eq' rep'(3) h1(1,2) a in \<open>auto simp: same_globals_def index_region_def s\<close>)
  moreover have "mem_eq_on (- (page_writes s t ?j c \<union> index_region h \<union> {a ..< unat (end_address h1)})) (mem s) m'"
    by (rule mem_eq_on_trans [OF eq mem_eq_on_mono [OF eq']]) (auto simp: ir s h1(1) a [symmetric] aN)
  ultimately show ?thesis
    using alloc_no_hole_fits [OF rep(1) small, of "Suc fuel"] none run al rep' h1 s a
    by (intro exI [of _ s'] exI [of _ h']) (simp del: alloc.simps)
qed

section \<open>A hole that does not end the heap\<close>

text \<open>The only hole that fits after the growth is the one that has grown.\<close>

lemma find_grown_hole:
  assumes rep: "heap_rep s h (xs @ (n0, True) # bs)" and bs: "\<forall>seg \<in> set bs. \<not> snd seg"
    and none: "\<And>m. (m, True) \<in> set xs \<Longrightarrow> m < unat sz" and a: "a = unat (start_address h) + seg_size xs"
    and s1: "kheap s1 = Some h1" "index_ok h1" "oa_items (index h1) (mem s1) = oa_items (index h) (mem s)"
    and hd: "header_at (mem s1) a N True" "unat sz \<le> N" "N < 4294967296"
    and eq: "mem_eq_on {unat (start_address h) ..< a} (mem s) (mem s1)"
  shows "\<exists>it. find_smallest_hole sz 0 s1 = Inr it \<and> it \<noteq> -1 \<and> it < oa_size (index h1)
    \<and> oa_items (index h1) (mem s1) ! unat it = of_nat a"
proof -
  let ?S = "unat (start_address h)" and ?ws = "oa_items (index h1) (mem s1)"
  have ch: "chain (mem s) ?S (xs @ (n0, True) # bs) (unat (end_address h))" using rep by (simp add: heap_rep_def)
  have a32: "a \<le> 4294967296" using chain_split(4) [OF ch] a unat_lt_2p32 [of "end_address h"] by linarith
  have sz: "hdr_size (mem s1) (of_nat a) = of_nat N" using hd(1) by (simp add: header_at_def)
  have "of_nat a \<in> set ?ws" using rep_hole_item(1) [OF rep] s1(3) a by simp
  moreover have "hole_fits sz 0 (mem s1) (of_nat a)" using hole_fits_unaligned [OF sz hd(3)] hd(2) by simp
  ultimately obtain it where it: "find_smallest_hole sz 0 s1 = Inr it" "it \<noteq> -1" "it < oa_size (index h1)"
    "hole_fits sz 0 (mem s1) (?ws ! unat it)" using find_found [OF s1(1,2)] by blast
  let ?x = "?ws ! unat it"
  have "?x \<in> set ?ws" using it(3) by (simp add: word_less_nat_alt)
  then have "?x \<in> set (oa_items (index h) (mem s))" using s1(3) by simp
  from rep_hole_size [OF rep this] obtain xs' m ys' where
    sp: "xs @ (n0, True) # bs = xs' @ (m, True) # ys'" "?x = of_nat (?S + seg_size xs')"
    "hdr_size (mem s) ?x = of_nat m" "m < 4294967296" by blast
  have "(m, True) \<notin> set bs" using bs by auto
  then consider "xs' = xs" | zs where "xs = xs' @ (m, True) # zs"
    using sp(1) by (auto simp: append_eq_append_conv2 Cons_eq_append_conv append_eq_Cons_conv)
  then have "?x = of_nat a"
  proof cases
    case 1
    then show ?thesis using sp(2) a by simp
  next
    case 2
    let ?p = "?S + seg_size xs'"
    have "chain (mem s) ?S (xs' @ (m, True) # zs @ (n0, True) # bs) (unat (end_address h))" using ch 2 by simp
    note c = chain_split [OF this]
    have pa: "?p + 20 \<le> a" using c(5) a 2 by simp
    have "header_at (mem s1) ?p m True" using c(6) pa a32 by (subst header_at_eq_on [OF eq]) auto
    then have "hdr_size (mem s1) ?x = of_nat m" by (simp add: header_at_def sp(2))
    then have "unat sz \<le> m" using it(4) hole_fits_unaligned [OF _ sp(4)] by simp
    then show ?thesis using none [of m] 2 by simp
  qed
  then show ?thesis using it by blast
qed

text \<open>The block that alloc_place makes of the hole at \<open>a\<close>, whatever the layout is.\<close>

lemma alloc_place_header:
  assumes k: "kheap s = Some h" "index_ok h" "i < oa_size (index h)" "oa_items (index h) (mem s) ! unat i = of_nat a"
    and hd: "header_at (mem s) a N True" and req: "unat sz + 20 \<le> N"
    and a: "unat (start_address h) \<le> a" "a + N \<le> unat (end_address h)"
  shows "\<exists>s' b. alloc_place sz (of_nat (unat sz + 20)) 0 i s = Inr (of_nat (a + 12), s')
    \<and> header_at (mem s') a b False \<and> unat sz + 20 \<le> b"
proof -
  let ?req = "unat sz + 20"
  have "N < 4294967296 \<or> a + N = 0" using a(2) unat_lt_2p32 [of "end_address h"] by linarith
  then have N: "N < 4294967296" "a + N \<le> 4294967296" using req a(2) unat_lt_2p32 [of "end_address h"] by linarith+
  from remove_index_eq [OF k(1-3)] obtain m2 h2 where
    rm: "remove_index i s = Inr (s\<lparr>mem := m2, kheap := Some h2\<rparr>)"
    and h2: "h2 = h\<lparr>index := (index h)\<lparr>oa_size := oa_size (index h) - 1\<rparr>\<rparr>" by auto
  define b where "b = (if N - ?req < 20 then N else ?req)"
  define m3 where "m3 = write_block (of_nat a) (of_nat (b - 20)) (of_nat b) m2"
  have b: "20 \<le> b" "?req \<le> b" "b \<le> N" using req by (auto simp: b_def)
  have ab: "a + b \<le> 4294967296" using b(3) N by linarith
  have m3: "m3 = write_footer (of_nat (a + b - 8)) (of_nat a) (write_header (of_nat a) (of_bool False) (of_nat b) m2)"
    unfolding m3_def by (simp add: write_block_eq [OF b(1)])
  note w = write_seg [OF b(1) ab, where h = False and m = m2, folded m3]
  have look: "lookup_index i s = Inr (of_nat a)" using lookup_index_eq [OF k(1,3)] k(4) by simp
  have hsz: "hdr_size (mem s) (of_nat a) = of_nat N" using hd by (simp add: header_at_def)
  have "kheap (s\<lparr>mem := m2, kheap := Some h2\<rparr>) = Some h2" by simp
  note place = alloc_place_eq [OF look hsz rm this refl req N(1) b_def, of m3, unfolded m3_def, simplified, folded m3_def]
  have "\<exists>s'. alloc_place sz (of_nat ?req) 0 i s = Inr (of_nat (a + 12), s') \<and> header_at (mem s') a b False"
  proof (cases "N - ?req < 20")
    case True
    then show ?thesis using place w(1) by simp
  next
    case False
    let ?R = "N - ?req" and ?q = "a + ?req"
    have R: "20 \<le> ?R" "?q + ?R = a + N" "b = ?req" using False req b_def by simp_all
    define m4 where "m4 = write_rest_hole (of_nat ?q) (of_nat ?R) (end_address h2) m3"
    have "?q + ?R \<le> unat (end_address h2)" using R(2) a(2) by (simp add: h2)
    note m4 = m4_def [unfolded write_rest_hole_eq [OF R(1) this]]
    have "?q + ?R \<le> 4294967296" using R(2) N by linarith
    from write_seg(3) [OF R(1) this, where h = True and m = m3]
    have e4: "mem_eq_on (- {?q ..< ?q + ?R}) m3 m4" unfolding m4 by simp
    have "{a ..< a + 12} \<subseteq> - {?q ..< ?q + ?R}" "a + 12 \<le> 4294967296" using b(1) ab R(3) by auto
    from header_at_eq_on [OF e4 this] w(1) have hd4: "header_at m4 a b False" by simp
    have "unat (oa_size (index h) - 1) = unat (oa_size (index h)) - 1"
      using k(3) by (subst unat_minus_le) (simp_all add: word_less_nat_alt)
    then have ok2: "kheap (s\<lparr>mem := m4, kheap := Some h2\<rparr>) = Some h2" "index_ok h2"
      using k(2) unfolding h2 by (simp_all add: index_ok_smaller)
    from insert_index_eq [OF this, of "of_nat ?q"] obtain m5 h3 where
      ins: "insert_index (of_nat ?q) (s\<lparr>mem := m4, kheap := Some h2\<rparr>) = Inr (s\<lparr>mem := m5, kheap := Some h3\<rparr>)"
      and e5: "mem_eq_on (- index_region h2) m4 m5" by auto
    have "header_at m5 a b False"
      using hd4 a(1) b(1) ab by (subst header_in_chain_eq_on [OF e5]) (auto simp: h2)
    then show ?thesis using place False ins by (simp add: m4_def)
  qed
  then show ?thesis using b(2) by blast
qed

text \<open>
  C12: when the last hole is too small and live blocks follow it up to the end of the heap,
  alloc adds the new pages, which lie behind these blocks, to the size of that hole: the block
  that it returns starts in the hole and reaches over the header of the live block behind it.
\<close>

theorem alloc_growth_overlaps:
  assumes rep: "heap_rep s h (xs @ (n0, True) # (k, False) # ys)" and ys: "\<forall>seg \<in> set ys. \<not> snd seg"
    and small: "unat sz + 20 < 4294967296" and n0: "n0 < unat sz + 20"
    and none: "\<forall>m. (m, True) \<in> set xs \<longrightarrow> m < unat sz + 20"
    and g: "growable s h K L t n c" and c: "c = (unat sz + 20) div 4096 + 1"
    and a: "a = unat (start_address h) + seg_size xs"
  shows "\<exists>s' b. alloc (Suc (Suc fuel)) sz 0 s = Inr (of_nat (a + 12), s')
    \<and> header_at (mem s') a b False \<and> unat sz + 20 \<le> b
    \<and> header_at (mem s) (a + n0) k False \<and> a < a + n0 \<and> a + n0 < a + b"
proof -
  let ?S = "unat (start_address h)" and ?req = "unat sz + 20" and ?N = "n0 + 4096 * c"
  let ?bs = "(k, False) # ys"
  have bs: "\<forall>seg \<in> set ?bs. \<not> snd seg" using ys by auto
  have kh: "kheap s = Some h" and ch: "chain (mem s) ?S (xs @ (n0, True) # ?bs) (unat (end_address h))" and ok: "index_ok h"
    using rep by (simp_all add: heap_rep_def)
  note p = growable_pages [OF g] and cs = chain_split [OF ch, folded a]
  define h1 where "h1 = h\<lparr>end_address := frame_address_of (K + L + c)\<rparr>"
  from grow_endmost [OF rep bs g _ c a h1_def refl, of "alloc (Suc fuel)"] obtain m1 where
    run: "alloc_grow (alloc (Suc fuel)) (of_nat ?req) s = Inr (s\<lparr>mem := m1, kheap := Some h1\<rparr>)" and hd: "header_at m1 a ?N True"
    and eq: "mem_eq_on (- (page_writes s t ((K + L) mod 1024) c \<union> {a + 8 ..< a + 12}
      \<union> {a + n0 + 4096 * c - 8 ..< a + n0 + 4096 * c})) (mem s) m1" by auto
  let ?s1 = "s\<lparr>mem := m1, kheap := Some h1\<rparr>"
  have low: "0x1000000 \<le> unat (array (index h))" using g by (simp add: growable_def)
  have aS: "0x1000000 \<le> ?S" "?S \<le> a" using ok low a by (simp_all add: index_ok_def)
  have "a + n0 \<le> 4096 * (K + L)" using cs(4) p(3) by simp
  then have "a + ?N \<le> 4096 * (K + L + c)" by simp
  also have "\<dots> < 4294967296" using p(1) by simp
  finally have aN: "a + ?N < 4294967296" .
  have reg: "{?S ..< a} \<union> index_region h \<subseteq> - (page_writes s t ((K + L) mod 1024) c \<union> {a + 8 ..< a + 12}
      \<union> {a + n0 + 4096 * c - 8 ..< a + n0 + 4096 * c})"
    using p(5) aS low cs(5) by (auto simp: index_region_def)
  have it: "oa_items (index h1) m1 = oa_items (index h) (mem s)"
    using reg unfolding h1_def by (simp add: items_eq_on [OF ok eq])
  have eqx: "mem_eq_on {?S ..< a} (mem s) (mem ?s1)" using reg by (simp add: mem_eq_on_mono [OF eq])
  have k1: "kheap ?s1 = Some h1" "index_ok h1" "oa_items (index h1) (mem ?s1) = oa_items (index h) (mem s)"
    using ok it by (simp_all add: h1_def index_ok_def)
  let ?new = "of_nat ?req :: uint32"
  have u: "unat ?new = ?req" using small by (rule unat_of_nat32)
  have fit: "unat ?new \<le> ?N" "?N < 4294967296" using c aN u by simp_all
  from find_grown_hole [OF rep bs _ a k1 _ fit eqx] none hd u obtain i where
    i: "find_smallest_hole ?new 0 ?s1 = Inr i" "i \<noteq> -1" "i < oa_size (index h1)" "oa_items (index h1) (mem ?s1) ! unat i = of_nat a"
    by auto
  have "a + n0 \<le> 4096 * (K + L)" using cs(4) p(3) by simp
  then have e: "a + ?N \<le> unat (end_address h1)" using page_address(1) [OF p(1)] by (simp add: h1_def)
  have "unat (start_address h1) \<le> a" using aS(2) by (simp add: h1_def)
  from alloc_place_header [OF k1(1,2) i(3,4) _ _ this e, of sz] hd fit u obtain s' b where
    s': "alloc_place sz ?new 0 i ?s1 = Inr (of_nat (a + 12), s')" "header_at (mem s') a b False" "?req \<le> b" by auto
  have "sz + sizeof_header_t + sizeof_footer_t = ?new" by (simp add: sizeof_defs)
  then have "alloc (Suc fuel) sz 0 ?s1 = Inr (of_nat (a + 12), s')"
    using i(1,2) s'(1) by (simp only: alloc.simps(2) Let_def res_bind_simps if_False simp_thms)
  moreover have "m < ?req" if "(m, True) \<in> set (xs @ (n0, True) # ?bs)" for m using that none n0 ys by auto
  note alloc_no_hole_fits [OF rep small this, of "Suc fuel", unfolded run]
  moreover have "header_at (mem s) (a + n0) k False" using cs(3) by simp
  ultimately show ?thesis using s'(2,3) n0 cs(5) by (intro exI [of _ s'] exI [of _ b]) simp
qed

section \<open>The heap that initialise_paging leaves\<close>

lemma growable_keep:
  assumes g: "growable s h K L t n c" and eq: "mem_eq_on S (mem s) (mem s')" "{0 ..< 0x1000000} \<subseteq> S"
    and same: "same_globals s s'" and h': "h' = h\<lparr>index := ix\<rparr>" "array ix = array (index h)"
  shows "growable s' h' K L t n c"
proof -
  have g': "frame_map s n" "table_at s ((K + L) div 1024) t" "(K + L) mod 1024 + c \<le> 1024"
    "\<And>j. j < c \<Longrightarrow> rd32 (mem s) (t + 4 * of_nat ((K + L) mod 1024 + j)) = 0"
    using g by (simp_all add: growable_def)
  have d: "unat (frames s) + 128 \<le> unat (kernel_directory s)" "unat (kernel_directory s) \<le> 0x2FA000"
    "unat t + 4096 \<le> 0x1000000" "(K + L) div 1024 < 1024" using g'(1,2) by (simp_all add: frame_map_def table_at_def)
  have "frame_map s' n" using same d
    by (intro frame_map_keep [OF g'(1) eq(1) subset_trans [OF _ eq(2)]]) (auto simp: same_globals_def)
  moreover have "table_at s' ((K + L) div 1024) t" using same d
    by (intro table_at_keep [OF g'(2) eq(1)] subset_trans [OF _ eq(2)]) (auto simp: same_globals_def)
  moreover have "rd32 (mem s') (t + 4 * of_nat ((K + L) mod 1024 + j)) = rd32 (mem s) (t + 4 * of_nat ((K + L) mod 1024 + j))"
    if "j < c" for j
    by (rule entry_keep(1) [OF g'(2) _ eq(1) subset_trans [OF _ eq(2)]]) (use d that g'(3) in auto)
  ultimately show ?thesis using g g'(4) h' by (simp add: growable_def)
qed

lemma booted_growable:
  assumes "N + 256 + c \<le> 1024" and fm: "frame_map s (N + 256)" and ta: "table_at s 768 (D + 0x3000)"
    and bt: "boot_tables (mem s) D N" and h: "start_address h = 0xC0080000" "end_address h = 0xC0100000"
    "array (index h) = 0xC0000000" "max_address h = 0xCFFFF000"
  shows "growable s h 0xC0080 0x80 (D + 0x3000) (N + 256) c"
proof -
  have "rd32 (mem s) (D + 0x3000 + 4 * of_nat (256 + j)) = 0" if "j < c" for j
  proof -
    have "load_page (mem s) (D + 0x3000 + 4 * of_nat (256 + j)) = no_page"
      using bt that assms(1) by (simp add: boot_tables_def del: of_nat_add)
    then have "word_of_page (page_of_word (rd32 (mem s) (D + 0x3000 + 4 * of_nat (256 + j)))) = word_of_page (page_of_word 0)"
      by (simp only: load_page_def no_page_def)
    then show ?thesis by (simp only: word_page_word)
  qed
  then show ?thesis
    using assms by (simp add: growable_def frame_address_of_def del: of_nat_add)
qed

text \<open>The kernel's heap after initialise_paging, for a kernel that ends at 1 MiB.\<close>

lemma demo_booted:
  "\<exists>s h t n. heap_rep s h [(0x80000, True)] \<and> growable s h 0xC0080 0x80 t n 256
    \<and> start_address h = 0xC0080000 \<and> array (index h) = 0xC0000000"
proof -
  let ?s = "boot_kstate (\<lambda>_. 0) 0x100000"
  have k: "kheap ?s = None" "unat (placement_address ?s) + 128 + 4096 \<le> 0x2FA000"
    "\<forall>a. unat a \<in> {0xC0000000 ..< 0xC0100000} \<longrightarrow> mem ?s a = 0" by (simp_all add: boot_kstate_def)
  let ?D = "page_aligned (placement_address ?s + 128)"
  let ?N = "unat ?D div 4096 + 6"
  have "placement_address ?s = 0x100000" by (simp add: boot_kstate_def)
  then have "?D = 0x101000" by (simp add: page_aligned_def)
  then have N: "?N + 256 + 256 \<le> 1024" by simp
  have z: "(0x80000 - 20 :: nat) + 20 \<le> 0x80000" by simp
  from initialise_paging_result [OF k(1,2) refl refl z k(3), of 1] obtain s h where
    h: "heap_rep s h [(0x80000, True)]" "start_address h = 0xC0080000" "end_address h = 0xC0100000"
      "array (index h) = 0xC0000000" "max_address h = 0xCFFFF000"
    and g: "frame_map s (?N + 256)" "table_at s 768 (?D + 0x3000)" "boot_tables (mem s) ?D ?N" by blast
  from booted_growable [OF N g h(2-5)] h(1,2,4) show ?thesis by blast
qed

lemma growable_less:
  assumes "growable s h K L t n c'" "c \<le> c'"
  shows "growable s h K L t n c"
  using assms by (auto simp: growable_def)

theorem alloc_grows_heap_witness:
  "\<exists>s h s' h'. heap_rep s h [(0x80000, True)] \<and> alloc 2 0xFEFEC 0 s = Inr (0xC008000C, s')
    \<and> heap_rep s' h' [(0xFF000, False), (0x81000, True)]"
proof -
  let ?segs = "[(0x80000, True)] :: seg list"
  from demo_booted obtain s h t n where d: "heap_rep s h ?segs" "growable s h 0xC0080 0x80 t n 256"
    "start_address h = 0xC0080000" by blast
  have e: "before_end_hole ?segs = []" "end_hole ?segs = 0x80000"
    by (simp_all add: before_end_hole_def end_hole_def)
  have u: "unat (0xFEFEC :: uint32) + 20 = 0xFF000" by simp
  have pre: "?segs \<noteq> []" "unat (0xFEFEC :: uint32) + 20 < 4294967296"
    "\<forall>m. (m, True) \<in> set ?segs \<longrightarrow> m < unat (0xFEFEC :: uint32) + 20" "snd (last ?segs)"
    "256 = (unat (0xFEFEC :: uint32) + 20) div 4096 + 1" "0xC0080000 = unat (start_address h) + seg_size (before_end_hole ?segs)"
    using d(3) e by simp_all
  from alloc_grows_heap [OF d(1) pre(1-3) disjI1 [OF pre(4)] d(2) pre(5,6), of 0] obtain s' h' where
    al: "alloc (Suc (Suc 0)) 0xFEFEC 0 s = Inr (of_nat (0xC0080000 + 12), s')"
    and rep: "heap_rep s' h' ([] @ carve (0x80000 + 4096 * 256) 0xFF000)" unfolding u e by blast
  have "alloc 2 0xFEFEC 0 s = Inr (0xC008000C, s')" using al unfolding numeral_2_eq_2 by (simp del: alloc.simps)
  moreover have "heap_rep s' h' [(0xFF000, False), (0x81000, True)]" using rep by (simp add: carve_def)
  ultimately show ?thesis using d(1) by blast
qed

text \<open>What alloc and free do in the heap leaves it growable.\<close>

lemma growable_step:
  assumes g: "growable s h K L t n c" and eq: "mem_eq_on (- ({a ..< b} \<union> index_region h)) (mem s) m'"
    and a: "0x1000000 \<le> a" and ix: "array ix = array (index h)"
  shows "growable (s\<lparr>mem := m', kheap := k\<rparr>) (h\<lparr>index := ix\<rparr>) K L t n c"
proof (rule growable_keep [OF g _ _ _ refl ix])
  show "mem_eq_on (- ({a ..< b} \<union> index_region h)) (mem s) (mem (s\<lparr>mem := m', kheap := k\<rparr>))" using eq by simp
qed (use g a in \<open>auto simp: growable_def index_region_def same_globals_def\<close>)

lemma alloc_first_growable:
  fixes sz :: size_t
  assumes rep: "heap_rep s h (xs @ [(m, True)])" and xs: "\<forall>seg \<in> set xs. \<not> snd seg"
    and sz: "unat sz + 20 < 4294967296" "unat sz + 20 \<le> m" and g: "growable s h K L t n c"
  shows "\<exists>s' h'. heap_rep s' h' (xs @ carve m (unat sz + 20)) \<and> growable s' h' K L t n c
    \<and> start_address h' = start_address h \<and> array (index h') = array (index h)"
proof -
  have "(m, True) \<in> set (xs @ [(m, True)])" by simp
  from alloc_fits [OF rep sz(1) this sz(2), of 0] obtain xs' m0 ys s' h' ix m' where
    sp: "xs @ [(m, True)] = xs' @ (m0, True) # ys" and rep': "heap_rep s' h' (xs' @ carve m0 (unat sz + 20) @ ys)"
    and h': "h' = h\<lparr>index := ix\<rparr>" "array ix = array (index h)" "s' = s\<lparr>mem := m', kheap := Some h'\<rparr>"
    and eq: "mem_eq_on (- ({unat (start_address h) + seg_size xs' ..< unat (start_address h) + seg_size xs' + m0} \<union> index_region h)) (mem s) m'"
    by blast
  have "(m0, True) \<notin> set xs" using xs by auto
  then have s: "xs' = xs" "m0 = m" "ys = []" using sp by (cases ys rule: rev_cases; auto)+
  have "0x1000000 \<le> unat (start_address h) + seg_size xs'" using g rep by (simp add: growable_def heap_rep_def index_ok_def)
  from growable_step [OF g eq this h'(2)] rep' h' s show ?thesis
    by (intro exI [of _ s'] exI [of _ h']) simp
qed

lemma demo_hole_before_block:
  "\<exists>s h t n. heap_rep s h [(28, True), (0x80000 - 28, False)] \<and> growable s h 0xC0080 0x80 t n 256
    \<and> start_address h = 0xC0080000"
proof -
  from demo_booted obtain s h t n where 0: "heap_rep s h ([] @ [(0x80000, True)])" "growable s h 0xC0080 0x80 t n 256"
    "start_address h = 0xC0080000" "array (index h) = 0xC0000000" by auto
  from alloc_first_growable [OF 0(1) _ _ _ 0(2), of 8] 0(3,4) obtain s1 h1 where
    1: "heap_rep s1 h1 ([(28, False)] @ [(0x80000 - 28, True)])" "growable s1 h1 0xC0080 0x80 t n 256"
    "start_address h1 = 0xC0080000" "array (index h1) = 0xC0000000" by (auto simp: carve_def)
  from alloc_first_growable [OF 1(1) _ _ _ 1(2), of "0x7FFD0"] 1(3,4) obtain s2 h2 where
    2: "heap_rep s2 h2 ([] @ (28, False) # (0x80000 - 28, False) # [])" "growable s2 h2 0xC0080 0x80 t n 256"
    "start_address h2 = 0xC0080000" "array (index h2) = 0xC0000000" by (auto simp: carve_def)
  have "unat (oa_size (index h2)) = 0" using rep_index_size [OF 2(1)] by simp
  then have room: "unat (array (index h2)) + 4 * (unat (oa_size (index h2)) + 2) + 8 \<le> unat (start_address h2)"
    using 2(3,4) by simp
  have a: "unat (start_address h2) = unat (start_address h2) + seg_size []" by simp
  from 2(1) have "heap_rep s2 h2 ((28, False) # (0x80000 - 28, False) # [])" by simp
  from free_no_merge [OF 2(1) a rep_left_none [OF this refl] room] obtain s3 h3 ix m' where
    3: "heap_rep s3 h3 ([] @ (28, True) # (0x80000 - 28, False) # [])" "h3 = h2\<lparr>index := ix\<rparr>" "array ix = array (index h2)"
    "s3 = s2\<lparr>mem := m', kheap := Some h3\<rparr>"
    and eq: "mem_eq_on (- ({unat (start_address h2) ..< unat (start_address h2) + 28} \<union> index_region h2)) (mem s2) m'" by blast
  from growable_step [OF 2(2) eq _ 3(3)] have "growable s3 h3 0xC0080 0x80 t n 256" unfolding 3(4) 3(2) using 2(3) by simp
  moreover have "heap_rep s3 h3 [(28, True), (0x80000 - 28, False)]" using 3(1) by simp
  ultimately show ?thesis using 2(3) 3(2) by (intro exI [of _ s3] exI [of _ h3] exI [of _ t] exI [of _ n]) simp
qed

theorem alloc_growth_overlaps_witness:
  "\<exists>s h s' b. heap_rep s h [(28, True), (0x80000 - 28, False)] \<and> alloc 2 100 0 s = Inr (0xC008000C, s')
    \<and> header_at (mem s') 0xC0080000 b False \<and> 120 \<le> b \<and> header_at (mem s) 0xC008001C (0x80000 - 28) False"
proof -
  from demo_hole_before_block obtain s h t n where d: "heap_rep s h ([] @ (28, True) # (0x80000 - 28, False) # [])"
    "growable s h 0xC0080 0x80 t n 256" "start_address h = 0xC0080000" by auto
  have g: "growable s h 0xC0080 0x80 t n 1" by (rule growable_less [OF d(2)]) simp
  have u: "unat (100 :: uint32) + 20 = 120" by simp
  have pre: "\<forall>seg \<in> set ([] :: seg list). \<not> snd seg" "unat (100 :: uint32) + 20 < 4294967296" "28 < unat (100 :: uint32) + 20"
    "\<forall>m. (m, True) \<in> set ([] :: seg list) \<longrightarrow> m < unat (100 :: uint32) + 20" "1 = (unat (100 :: uint32) + 20) div 4096 + 1"
    "0xC0080000 = unat (start_address h) + seg_size []" using d(3) by simp_all
  from alloc_growth_overlaps [OF d(1) pre(1-4) g pre(5,6), of 0] obtain s' b where
    "alloc (Suc (Suc 0)) 100 0 s = Inr (of_nat (0xC0080000 + 12), s')" "header_at (mem s') 0xC0080000 b False" "120 \<le> b"
    "header_at (mem s) (0xC0080000 + 28) (0x80000 - 28) False" unfolding u by blast
  then show ?thesis using d(1) unfolding numeral_2_eq_2
    by (intro exI [of _ s] exI [of _ h] exI [of _ s'] exI [of _ b]) (simp del: alloc.simps)
qed

end
