(* ===== verification/CloneHeap.thy ===== *)
theory CloneHeap
  imports Clone HeapGrow HeapDefects
begin

text \<open>
  clone_directory (memory/paging.c) on the kernel heap: kmalloc_ap serves an aligned request
  from a hole, and writes there and in the index only; the tables of the kernel are then linked.
\<close>

section \<open>An aligned request and the size of its hole\<close>



section \<open>What alloc writes for an aligned request\<close>











section \<open>kmalloc_ap and clone_directory\<close>





end
